(* ===== verification/Prelude.thy ===== *)
theory Prelude
  imports Complex_Main "HOL-Library.AList" "HOL-Library.List_Lexorder" "HOL-Library.Word"
begin

text \<open>
  Shared vocabulary of the development: Python strings, byte strings, exceptions as
  values, dictionaries as association lists in insertion order, and the generic lemmas
  and theorem collections the component theories use.

  A Python \<open>str\<close> is a list of Unicode code points (\<open>nat list\<close>), not a list of bytes: the
  sources count code points (\<open>len(name) > 128\<close>), compare them (\<open>0xD800 <= ord(c)\<close>) and
  sort keys by them. \<open>lit\<close> turns an ASCII literal into such a list. Python's \<open>bytes\<close> are
  lists of 8-bit words; Python's unbounded integers are \<open>int\<close>; a \<open>float\<close> clock reading is
  a rational number.
\<close>

named_theorems registry_simps
  \<open>defining equations unfolded by the component proofs\<close>

named_theorems str_simps
  \<open>evaluation of string predicates on literals\<close>

type_synonym str = "nat list"
type_synonym byte = "8 word"
type_synonym bytes = "8 word list"
type_synonym 'v dict = "(str \<times> 'v) list"


section \<open>String literals\<close>

definition lit :: "string \<Rightarrow> str" where
  "lit s = map of_char s"

lemma of_char_nat_eq [simp]: "(of_char c :: nat) = of_char d \<longleftrightarrow> c = d"
  by (metis char_of_char)

lemma lit_eq [simp]: "lit a = lit b \<longleftrightarrow> a = b"
  unfolding lit_def by (rule inj_map_eq_map) (simp add: inj_on_def)

lemma lit_Nil [simp]: "lit [] = []"
  by (simp add: lit_def)

lemma lit_eq_Nil [simp]: "lit a = [] \<longleftrightarrow> a = []"
  by (simp add: lit_def)

lemma length_lit [simp]: "length (lit a) = length a"
  by (simp add: lit_def)

lemma lit_append: "lit (a @ b) = lit a @ lit b"
  by (simp add: lit_def)


section \<open>Exceptions\<close>

text \<open>
  Every exception class the sources raise or catch, with the message that identifies the
  raise (its constant part). The predicates below are the class tests of the
  \<open>except\<close> clauses: \<open>ProtocolError\<close>, \<open>CanonicalError\<close>, \<open>json.JSONDecodeError\<close>,
  \<open>UnicodeDecodeError\<close>, \<open>binascii.Error\<close> and the store's conflict classes all derive from
  \<open>ValueError\<close>; \<open>CanonicalDepthError\<close> derives from both \<open>CanonicalError\<close> and
  \<open>ProtocolError\<close>; \<open>StoreIntegrityError\<close> derives from \<open>RuntimeError\<close>, \<open>DatabaseError\<close> stands for \<open>sqlite3.Error\<close>.
\<close>

datatype exc =
    ProtocolError string
  | JSONDepthError
  | CanonicalError string
  | CanonicalDepthError
  | JSONDecodeError
  | UnicodeError
  | BinasciiError
  | ValueError string
  | IdempotencyConflict
  | CursorBoundaryMismatch string
  | UpstreamHighWaterConflict string
  | UpstreamRollbackError
  | UpstreamInconsistentError
  | KeyPassphraseError string
  | StoreIntegrityError string
  | OSError string
  | DatabaseError string
  | RuntimeError string
  | OverflowError
  | TypeError
  | IndexError
  | OutOfFuel

type_synonym 'a res = "exc + 'a"

fun is_ProtocolError :: "exc \<Rightarrow> bool" where
  "is_ProtocolError (ProtocolError m) = True"
| "is_ProtocolError JSONDepthError = True"
| "is_ProtocolError CanonicalDepthError = True"
| "is_ProtocolError e = False"

fun is_ValueError :: "exc \<Rightarrow> bool" where
  "is_ValueError (StoreIntegrityError m) = False"
| "is_ValueError (OSError m) = False"
| "is_ValueError (DatabaseError m) = False"
| "is_ValueError (RuntimeError m) = False"
| "is_ValueError OverflowError = False"
| "is_ValueError TypeError = False"
| "is_ValueError IndexError = False"
| "is_ValueError OutOfFuel = False"
| "is_ValueError e = True"

fun is_OSError :: "exc \<Rightarrow> bool" where
  "is_OSError (OSError m) = True"
| "is_OSError e = False"

fun is_StoreIntegrityError :: "exc \<Rightarrow> bool" where
  "is_StoreIntegrityError (StoreIntegrityError m) = True"
| "is_StoreIntegrityError e = False"

lemma ProtocolError_is_ValueError: "is_ProtocolError e \<Longrightarrow> is_ValueError e"
  by (cases e) auto

text \<open>Sequencing of computations that may raise (over any error type), and the sequential check of a list.\<close>

definition bindE :: "'e + 'a \<Rightarrow> ('a \<Rightarrow> 'e + 'b) \<Rightarrow> 'e + 'b" where
  "bindE m f = (case m of Inl e \<Rightarrow> Inl e | Inr x \<Rightarrow> f x)"

definition guardE :: "bool \<Rightarrow> 'e \<Rightarrow> 'e + unit" where
  "guardE ok e = (if ok then Inr () else Inl e)"

lemma bindE_simps [simp]:
  "bindE (Inl e) f = Inl e"
  "bindE (Inr x) f = f x"
  by (simp_all add: bindE_def)

lemma bindE_Inr_iff: "bindE m f = Inr y \<longleftrightarrow> (\<exists>x. m = Inr x \<and> f x = Inr y)"
  by (cases m) auto

lemma bindE_Inl_iff: "bindE m f = Inl e \<longleftrightarrow> m = Inl e \<or> (\<exists>x. m = Inr x \<and> f x = Inl e)"
  by (cases m) auto

lemma bindE_assoc: "bindE (bindE m f) g = bindE m (\<lambda>x. bindE (f x) g)"
  by (cases m) auto

lemma guardE_simps [simp]:
  "guardE True e = Inr ()"
  "guardE False e = Inl e"
  by (simp_all add: guardE_def)

lemma guardE_Inr_iff [simp]: "guardE b e = Inr u \<longleftrightarrow> b"
  by (simp add: guardE_def)

lemma guardE_Inl_iff [simp]: "guardE b e = Inl e' \<longleftrightarrow> \<not> b \<and> e' = e"
  by (auto simp: guardE_def)

fun eachE :: "('a \<Rightarrow> 'e + unit) \<Rightarrow> 'a list \<Rightarrow> 'e + unit" where
  "eachE f [] = Inr ()"
| "eachE f (x # xs) = bindE (f x) (\<lambda>_. eachE f xs)"

lemma eachE_Inr_iff [simp]: "eachE f xs = Inr u \<longleftrightarrow> (\<forall>x \<in> set xs. f x = Inr ())"
  by (induction xs) (auto simp: bindE_Inr_iff)

lemma eachE_Inl: "eachE f xs = Inl e \<Longrightarrow> \<exists>x \<in> set xs. f x = Inl e"
  by (induction xs) (auto simp: bindE_Inl_iff)

fun mapE :: "('a \<Rightarrow> 'e + 'b) \<Rightarrow> 'a list \<Rightarrow> 'e + 'b list" where
  "mapE f [] = Inr []"
| "mapE f (x # xs) = bindE (f x) (\<lambda>y. bindE (mapE f xs) (\<lambda>ys. Inr (y # ys)))"

lemma mapE_Inr_iff: "mapE f xs = Inr ys \<longleftrightarrow> list_all2 (\<lambda>x y. f x = Inr y) xs ys"
  by (induction xs arbitrary: ys)
    (auto simp: bindE_Inr_iff list_all2_Cons1)

lemma mapE_append: "mapE f (xs @ ys) = bindE (mapE f xs) (\<lambda>us. bindE (mapE f ys) (\<lambda>vs. Inr (us @ vs)))"
  by (induction xs; cases "mapE f ys") (simp_all add: bindE_assoc)

lemma mapE_preimage: "mapE f xs = Inr ys \<Longrightarrow> y \<in> set ys \<Longrightarrow> \<exists>x \<in> set xs. f x = Inr y"
  by (induction xs arbitrary: ys) (auto simp: bindE_Inr_iff)

lemma mapE_map: "(\<And>x. x \<in> set xs \<Longrightarrow> f x = Inr (g x)) \<Longrightarrow> mapE f xs = Inr (map g xs)"
  by (induction xs) auto


section \<open>Dictionaries\<close>

text \<open>
  A \<open>dict\<close> is an association list in insertion order. \<open>d.get(k)\<close> is \<open>map_of d k\<close>;
  \<open>d[k] = v\<close> is \<open>AList.update k v d\<close>, which replaces in place or appends, as Python
  does; \<open>set(d)\<close> is \<open>fst ` set d\<close>.
\<close>

definition keys_of :: "'v dict \<Rightarrow> str set" where
  "keys_of d = fst ` set d"

definition without :: "str \<Rightarrow> 'v dict \<Rightarrow> 'v dict" where
  "without k d = filter (\<lambda>(k', _). k' \<noteq> k) d"

lemma map_of_without [simp]: "map_of (without k d) k' = (if k' = k then None else map_of d k')"
  by (induction d) (auto simp: without_def)

lemma keys_of_iff: "k \<in> keys_of d \<longleftrightarrow> (\<exists>v. map_of d k = Some v)"
  unfolding keys_of_def by (metis domD domI dom_map_of_conv_image_fst)

lemma without_absent: "k \<notin> keys_of d \<Longrightarrow> without k d = d"
  by (force simp: without_def filter_id_conv keys_of_def)

lemma keys_of_Nil [simp]: "keys_of [] = {}"
  by (simp add: keys_of_def)

lemma keys_of_Cons [simp]: "keys_of ((k, v) # d) = insert k (keys_of d)"
  by (simp add: keys_of_def)

lemma keys_of_without [simp]: "keys_of (without k d) = keys_of d - {k}"
  by (auto simp: keys_of_iff split: if_splits)

lemma keys_of_update [simp]: "keys_of (AList.update k v d) = insert k (keys_of d)"
  by (auto simp: keys_of_iff update_conv' split: if_splits)

lemma distinct_without [simp]: "distinct (map fst d) \<Longrightarrow> distinct (map fst (without k d))"
  by (induction d) (auto simp: without_def)

lemma without_update_same [simp]: "without k (AList.update k v (without k d)) = without k d"
  by (induction d) (auto simp: without_def)

lemma without_idem [simp]: "without k (without k d) = without k d"
  by (simp add: without_def)


section \<open>Bytes\<close>

text \<open>A byte from a number below 256, as \<open>bytes([n])\<close>.\<close>

definition byte_of :: "nat \<Rightarrow> byte" where
  "byte_of n = word_of_nat n"

lemma unat_byte_of [simp]: "n < 256 \<Longrightarrow> unat (byte_of n) = n"
  by (simp add: byte_of_def unat_of_nat)

lemma byte_of_unat [simp]: "byte_of (unat b) = b"
  by (simp add: byte_of_def)

lemma byte_bound: "unat (b :: byte) < 256"
  using unsigned_less [of b, where 'a = nat] by simp


section \<open>Lists\<close>

lemma nth_append_last [simp]: "(xs @ [x]) ! length xs = x"
  by simp

lemma last_two_cases:
  obtains "xs = []" | x where "xs = [x]" | ys x y where "xs = ys @ [x, y]"
  by (metis append.assoc append_Cons append_Nil rev_exhaust)

lemma find_unique:
  assumes "x \<in> set xs" "P x" "\<And>y. y \<in> set xs \<Longrightarrow> P y \<Longrightarrow> y = x"
  shows "find P xs = Some x"
proof (cases "find P xs")
  case None
  with assms(1,2) show ?thesis by (metis find_None_iff)
next
  case (Some y)
  then have "y \<in> set xs" "P y" by (auto simp: find_Some_iff)
  with Some assms(3) show ?thesis by metis
qed

text \<open>\<open>xs[-k]\<close> for a positive \<open>k\<close>.\<close>

definition from_end :: "nat \<Rightarrow> 'a list \<Rightarrow> 'a res" where
  "from_end k xs = (if 0 < k \<and> k \<le> length xs then Inr (xs ! (length xs - k)) else Inl IndexError)"

lemma from_end_snoc [simp]:
  "from_end (Suc 0) (xs @ [x]) = Inr x"
  "from_end 2 (xs @ [x, y]) = Inr x"
  by (simp_all add: from_end_def nth_append)

lemma from_end_last: "xs \<noteq> [] \<Longrightarrow> from_end (Suc 0) xs = Inr (last xs)"
  by (cases xs rule: rev_cases) simp_all

definition last2 :: "'a list \<Rightarrow> 'a list" where
  "last2 xs = drop (length xs - 2) xs"

lemma last2_simps [simp]:
  "last2 [] = []"
  "last2 [x] = [x]"
  "last2 (xs @ [x, y]) = [x, y]"
  by (simp_all add: last2_def)

lemma last_last2 [simp]: "xs \<noteq> [] \<Longrightarrow> last (last2 xs) = last xs"
  by (simp add: last2_def)

lemma last2_Nil_iff [simp]: "last2 xs = [] \<longleftrightarrow> xs = []"
  by (auto simp: last2_def) (metis diff_is_0_eq diff_less length_0_conv neq0_conv not_less zero_less_numeral)



section \<open>Step relations\<close>

text \<open>What a step relation owes an invariant, and what that gives for every run.\<close>

locale step_invariant =
  fixes step :: "'s \<Rightarrow> 's \<Rightarrow> bool"
    and inv :: "'s \<Rightarrow> bool"
  assumes preserved: "step x y \<Longrightarrow> inv x \<Longrightarrow> inv y"
begin

lemma run_preserves: "step\<^sup>*\<^sup>* x y \<Longrightarrow> inv x \<Longrightarrow> inv y"
  by (induction rule: rtranclp_induct) (auto intro: preserved)

end

end
