(* ===== verification/Encoding.thy ===== *)
theory Encoding
  imports Prelude
begin

unbundle bit_operations_syntax

text \<open>
  The byte-level part of the Python standard library the sources call:
  \<open>hashlib.sha256\<close> (FIPS 180-4), \<open>bytes.hex\<close> / \<open>bytes.fromhex\<close>, \<open>base64\<close> in its strict
  (\<open>validate=True\<close>) form, and UTF-8. Nothing here is specific to the registry; the
  component theories use the digest length, the hexadecimal and base64 round trips and the
  injectivity of UTF-8, never the inside of the compression function.
\<close>


section \<open>SHA-256\<close>

type_synonym u32 = "32 word"

text \<open>
  The constants are those the standard derives: the first 32 bits of the fractional parts
  of the cube roots of the first 64 primes (the round constants) and of the square roots
  of the first eight (the initial state). \<open>iroot\<close> finds the integer \<open>k\<close>-th root bit by bit;
  36 bits suffice, since the cube root of 311 is below 8.
\<close>

fun iroot :: "nat \<Rightarrow> nat \<Rightarrow> nat \<Rightarrow> nat \<Rightarrow> nat" where
  "iroot k n 0 acc = acc"
| "iroot k n (Suc i) acc = (let t = acc + 2 ^ i in iroot k n i (if t ^ k \<le> n then t else acc))"

definition frac32 :: "nat \<Rightarrow> nat \<Rightarrow> u32" where
  "frac32 k p = word_of_nat (iroot k (p * 2 ^ (32 * k)) 36 0)"

definition small_primes :: "nat list" where
  "small_primes = filter (\<lambda>p. list_all (\<lambda>d. p mod d \<noteq> 0) [2..<p]) [2..<312]"

definition sha_k :: "u32 list" where
  "sha_k = map (frac32 3) small_primes"

type_synonym sha_state = "u32 \<times> u32 \<times> u32 \<times> u32 \<times> u32 \<times> u32 \<times> u32 \<times> u32"

definition sha_h0 :: sha_state where
  "sha_h0 =
    (frac32 2 2, frac32 2 3, frac32 2 5, frac32 2 7, frac32 2 11, frac32 2 13, frac32 2 17, frac32 2 19)"

definition rotr32 :: "nat \<Rightarrow> u32 \<Rightarrow> u32" where
  "rotr32 n x = drop_bit n x OR push_bit (32 - n) x"

definition be_bytes32 :: "u32 \<Rightarrow> bytes" where
  "be_bytes32 x = [ucast (drop_bit 24 x), ucast (drop_bit 16 x), ucast (drop_bit 8 x), ucast x]"

definition be_bytes64 :: "64 word \<Rightarrow> bytes" where
  "be_bytes64 x = be_bytes32 (ucast (drop_bit 32 x)) @ be_bytes32 (ucast x)"

definition be_word :: "bytes \<Rightarrow> u32" where
  "be_word bs = foldl (\<lambda>a b. push_bit 8 a OR ucast b) 0 bs"

definition sha_pad :: "bytes \<Rightarrow> bytes" where
  "sha_pad m =
    m @ 0x80 # replicate ((119 - length m mod 64) mod 64) 0 @ be_bytes64 (8 * of_nat (length m))"

fun chunks :: "nat \<Rightarrow> nat \<Rightarrow> 'a list \<Rightarrow> 'a list list" where
  "chunks 0 k xs = []"
| "chunks (Suc n) k xs = take k xs # chunks n k (drop k xs)"

text \<open>The second argument is the window of the next sixteen schedule words.\<close>

definition sha_step :: "u32 \<Rightarrow> u32 \<Rightarrow> sha_state \<Rightarrow> sha_state" where
  "sha_step k x v =
    (let (a, b, c, d, e, f, g, h) = v;
         t1 = h + (rotr32 6 e XOR rotr32 11 e XOR rotr32 25 e)
              + ((e AND f) XOR (NOT e AND g)) + k + x;
         t2 = (rotr32 2 a XOR rotr32 13 a XOR rotr32 22 a)
              + ((a AND b) XOR (a AND c) XOR (b AND c))
     in (t1 + t2, a, b, c, d + t1, e, f, g))"

definition sha_next_word :: "u32 list \<Rightarrow> u32" where
  "sha_next_word w =
    (let w1 = w ! 1; w14 = w ! 14
     in (rotr32 17 w14 XOR rotr32 19 w14 XOR drop_bit 10 w14) + w ! 9
        + (rotr32 7 w1 XOR rotr32 18 w1 XOR drop_bit 3 w1) + w ! 0)"

fun sha_rounds :: "u32 list \<Rightarrow> u32 list \<Rightarrow> sha_state \<Rightarrow> sha_state" where
  "sha_rounds [] w v = v"
| "sha_rounds (k # ks) w v = sha_rounds ks (tl w @ [sha_next_word w]) (sha_step k (hd w) v)"

definition sha_add :: "sha_state \<Rightarrow> sha_state \<Rightarrow> sha_state" where
  "sha_add v v' =
    (let (a, b, c, d, e, f, g, h) = v; (a', b', c', d', e', f', g', h') = v'
     in (a + a', b + b', c + c', d + d', e + e', f + f', g + g', h + h'))"

definition sha_block :: "sha_state \<Rightarrow> bytes \<Rightarrow> sha_state" where
  "sha_block h blk = sha_add h (sha_rounds sha_k (map be_word (chunks 16 4 blk)) h)"

definition sha_digest :: "sha_state \<Rightarrow> bytes" where
  "sha_digest v =
    (let (a, b, c, d, e, f, g, h) = v in concat (map be_bytes32 [a, b, c, d, e, f, g, h]))"

definition sha256 :: "bytes \<Rightarrow> bytes" where
  "sha256 m =
    (let p = sha_pad m in sha_digest (foldl sha_block sha_h0 (chunks (length p div 64) 64 p)))"


section \<open>Hexadecimal\<close>

definition hex_digit :: "nat \<Rightarrow> nat" where
  "hex_digit n = (if n < 10 then 48 + n else 87 + n)"

definition hex :: "bytes \<Rightarrow> str" where
  "hex bs = concat (map (\<lambda>b. [hex_digit (unat b div 16), hex_digit (unat b mod 16)]) bs)"

definition hex_value :: "nat \<Rightarrow> nat option" where
  "hex_value c =
    (if 48 \<le> c \<and> c \<le> 57 then Some (c - 48)
     else if 97 \<le> c \<and> c \<le> 102 then Some (c - 87)
     else if 65 \<le> c \<and> c \<le> 70 then Some (c - 55)
     else None)"

text \<open>\<open>bytes.fromhex\<close> skips ASCII white space between bytes and accepts both cases.\<close>

fun fromhex :: "str \<Rightarrow> bytes res" where
  "fromhex [] = Inr []"
| "fromhex (c # cs) =
    (if c = 32 \<or> 9 \<le> c \<and> c \<le> 13 then fromhex cs
     else case cs of
       [] \<Rightarrow> Inl (ValueError ''fromhex'')
     | d # ds \<Rightarrow>
        (case (hex_value c, hex_value d) of
          (Some x, Some y) \<Rightarrow> bindE (fromhex ds) (\<lambda>r. Inr (byte_of (16 * x + y) # r))
        | _ \<Rightarrow> Inl (ValueError ''fromhex'')))"

definition sha256_hex :: "bytes \<Rightarrow> str" where
  "sha256_hex m = hex (sha256 m)"


section \<open>Base64\<close>

definition b64_char :: "nat \<Rightarrow> nat" where
  "b64_char n =
    (if n < 26 then 65 + n else if n < 52 then 71 + n else if n < 62 then n - 4
     else if n = 62 then 43 else 47)"

definition b64_value :: "nat \<Rightarrow> nat option" where
  "b64_value c =
    (if 65 \<le> c \<and> c \<le> 90 then Some (c - 65)
     else if 97 \<le> c \<and> c \<le> 122 then Some (c - 71)
     else if 48 \<le> c \<and> c \<le> 57 then Some (c + 4)
     else if c = 43 then Some 62
     else if c = 47 then Some 63
     else None)"

fun b64encode :: "bytes \<Rightarrow> str" where
  "b64encode [] = []"
| "b64encode [a] = [b64_char (unat a div 4), b64_char (unat a mod 4 * 16), 61, 61]"
| "b64encode [a, b] =
    [b64_char (unat a div 4), b64_char (unat a mod 4 * 16 + unat b div 16),
     b64_char (unat b mod 16 * 4), 61]"
| "b64encode (a # b # c # bs) =
    [b64_char (unat a div 4), b64_char (unat a mod 4 * 16 + unat b div 16),
     b64_char (unat b mod 16 * 4 + unat c div 64), b64_char (unat c mod 64)] @ b64encode bs"

text \<open>
  \<open>binascii.a2b_base64\<close> in strict mode, with the decoder's own variables: the position in
  the current quad, the bits left over from the previous character, the pad characters
  seen, and whether padding has started. Unused bits of the last character are not
  checked, which is why the callers compare the re-encoding.
\<close>

fun a2b_base64 :: "nat \<Rightarrow> nat \<Rightarrow> nat \<Rightarrow> bool \<Rightarrow> str \<Rightarrow> bytes res" where
  "a2b_base64 quad left pads started [] = (if quad = 0 then Inr [] else Inl BinasciiError)"
| "a2b_base64 quad left pads started (c # cs) =
    (if c = 61 then
       (if 2 \<le> quad \<and> 4 \<le> quad + Suc pads then (if cs = [] then Inr [] else Inl BinasciiError)
        else a2b_base64 quad left (if 2 \<le> quad then Suc pads else pads) True cs)
     else case b64_value c of
       None \<Rightarrow> Inl BinasciiError
     | Some v \<Rightarrow>
        (if started then Inl BinasciiError
         else if quad = 0 then a2b_base64 1 v 0 started cs
         else if quad = 1 then
           bindE (a2b_base64 2 (v mod 16) 0 started cs)
             (\<lambda>r. Inr (byte_of (left * 4 + v div 16) # r))
         else if quad = 2 then
           bindE (a2b_base64 3 (v mod 4) 0 started cs)
             (\<lambda>r. Inr (byte_of (left * 16 + v div 4) # r))
         else
           bindE (a2b_base64 0 0 0 started cs)
             (\<lambda>r. Inr (byte_of (left * 64 + v) # r))))"

definition b64decode :: "str \<Rightarrow> bytes res" where
  "b64decode s =
    (if \<exists>c \<in> set s. 128 \<le> c then Inl (ValueError ''b64decode: ASCII only'')
     else if s \<noteq> [] \<and> hd s = 61 then Inl BinasciiError
     else a2b_base64 0 0 0 False s)"


section \<open>UTF-8\<close>

definition surrogate :: "nat \<Rightarrow> bool" where
  "surrogate c \<longleftrightarrow> 0xD800 \<le> c \<and> c \<le> 0xDFFF"

definition scalar :: "nat \<Rightarrow> bool" where
  "scalar c \<longleftrightarrow> c < 0x110000 \<and> \<not> surrogate c"

definition utf8_char :: "nat \<Rightarrow> bytes" where
  "utf8_char c =
    (if c < 0x80 then [byte_of c]
     else if c < 0x800 then [byte_of (0xC0 + c div 64), byte_of (0x80 + c mod 64)]
     else if c < 0x10000 then
       [byte_of (0xE0 + c div 4096), byte_of (0x80 + c div 64 mod 64),
        byte_of (0x80 + c mod 64)]
     else
       [byte_of (0xF0 + c div 262144), byte_of (0x80 + c div 4096 mod 64),
        byte_of (0x80 + c div 64 mod 64), byte_of (0x80 + c mod 64)])"

definition utf8_encode :: "str \<Rightarrow> bytes res" where
  "utf8_encode s =
    (if \<exists>c \<in> set s. surrogate c then Inl UnicodeError else Inr (concat (map utf8_char s)))"

text \<open>
  Decoding with the \<open>surrogatepass\<close> error handler that \<open>json.loads\<close> uses: overlong forms
  and values above U+10FFFF are refused, surrogates pass.
\<close>

definition utf8_cont :: "byte \<Rightarrow> bool" where
  "utf8_cont b \<longleftrightarrow> unat b div 64 = 2"

fun utf8_decode :: "bytes \<Rightarrow> str res" where
  "utf8_decode [] = Inr []"
| "utf8_decode (b # bs) =
    (let n = unat b in
     if n < 0x80 then bindE (utf8_decode bs) (\<lambda>r. Inr (n # r))
     else if n < 0xC0 then Inl UnicodeError
     else if n < 0xE0 then
       (case bs of
          c1 # r1 \<Rightarrow>
            (let v = (n - 0xC0) * 64 + unat c1 mod 64 in
             if utf8_cont c1 \<and> 0x80 \<le> v then bindE (utf8_decode r1) (\<lambda>r. Inr (v # r))
             else Inl UnicodeError)
        | _ \<Rightarrow> Inl UnicodeError)
     else if n < 0xF0 then
       (case bs of
          c1 # c2 # r2 \<Rightarrow>
            (let v = (n - 0xE0) * 4096 + unat c1 mod 64 * 64 + unat c2 mod 64 in
             if utf8_cont c1 \<and> utf8_cont c2 \<and> 0x800 \<le> v
             then bindE (utf8_decode r2) (\<lambda>r. Inr (v # r))
             else Inl UnicodeError)
        | _ \<Rightarrow> Inl UnicodeError)
     else
       (case bs of
          c1 # c2 # c3 # r3 \<Rightarrow>
            (let v = (n - 0xF0) * 262144 + unat c1 mod 64 * 4096 + unat c2 mod 64 * 64 + unat c3 mod 64
             in
             if n < 0xF8 \<and> utf8_cont c1 \<and> utf8_cont c2 \<and> utf8_cont c3 \<and> 0x10000 \<le> v \<and> v < 0x110000
             then bindE (utf8_decode r3) (\<lambda>r. Inr (v # r))
             else Inl UnicodeError)
        | _ \<Rightarrow> Inl UnicodeError))"


section \<open>Digest length\<close>

lemma sha_digest_length: "length (sha_digest v) = 32"
  by (simp add: sha_digest_def be_bytes32_def split: prod.splits)

lemma sha256_length [simp]: "length (sha256 m) = 32"
  by (simp add: sha256_def Let_def sha_digest_length)


section \<open>Hexadecimal round trip\<close>

lemma hex_value_digit [simp]: "n < 16 \<Longrightarrow> hex_value (hex_digit n) = Some n"
  by (auto simp: hex_value_def hex_digit_def)

lemma hex_digit_range: "n < 16 \<Longrightarrow>
    (48 \<le> hex_digit n \<and> hex_digit n \<le> 57) \<or> (97 \<le> hex_digit n \<and> hex_digit n \<le> 102)"
  by (auto simp: hex_digit_def)

lemma byte_nibble [simp]: "unat (b :: byte) div 16 < 16"
  using byte_bound [of b] by (simp add: less_mult_imp_div_less)

lemma hex_Nil [simp]: "hex [] = []"
  by (simp add: hex_def)

lemma hex_Cons: "hex (b # bs) = hex_digit (unat b div 16) # hex_digit (unat b mod 16) # hex bs"
  by (simp add: hex_def)

lemma length_hex [simp]: "length (hex bs) = 2 * length bs"
  by (induction bs) (simp_all add: hex_Cons)

theorem fromhex_hex [simp]: "fromhex (hex bs) = Inr bs"
proof (induction bs)
  case Nil
  then show ?case by simp
next
  case (Cons b bs)
  have "hex_digit (unat b div 16) \<noteq> 32 \<and> \<not> (9 \<le> hex_digit (unat b div 16) \<and> hex_digit (unat b div 16) \<le> 13)"
    using hex_digit_range [of "unat b div 16"] by auto
  with Cons.IH show ?case
    by (auto simp: hex_Cons)
qed

lemma hex_inject [simp]: "hex a = hex b \<longleftrightarrow> a = b"
  by (metis fromhex_hex sum.inject(2))

lemma sha256_hex_length [simp]: "length (sha256_hex m) = 64"
  by (simp add: sha256_hex_def)

lemma fromhex_sha256_hex [simp]: "fromhex (sha256_hex m) = Inr (sha256 m)"
  by (simp add: sha256_hex_def)

lemma sha256_hex_inject [simp]: "sha256_hex a = sha256_hex b \<longleftrightarrow> sha256 a = sha256 b"
  by (simp add: sha256_hex_def)

lemma hex_chars: "c \<in> set (hex bs) \<Longrightarrow> (48 \<le> c \<and> c \<le> 57) \<or> (97 \<le> c \<and> c \<le> 102)"
proof (induction bs)
  case (Cons b bs)
  then show ?case
    using hex_digit_range [of "unat b div 16"] hex_digit_range [of "unat b mod 16"]
    by (auto simp: hex_Cons)
qed simp


section \<open>Base64 round trip\<close>

lemma b64_value_char [simp]: "n < 64 \<Longrightarrow> b64_value (b64_char n) = Some n"
  by (auto simp: b64_value_def b64_char_def)

lemma b64_char_ne [simp]: "n < 64 \<Longrightarrow> b64_char n \<noteq> 61"
  by (auto simp: b64_char_def)

lemma b64_char_ascii: "n < 64 \<Longrightarrow> b64_char n < 128"
  by (auto simp: b64_char_def)

lemma sextet_bounds [simp]:
  "unat (a :: byte) div 4 < 64"
  "unat (a :: byte) mod 4 * 16 < 64"
  "unat (a :: byte) mod 4 * 16 + unat (b :: byte) div 16 < 64"
  "unat (b :: byte) mod 16 * 4 < 64"
  "unat (b :: byte) mod 16 * 4 + unat (c :: byte) div 64 < 64"
proof -
  have "unat a div 4 < 64" "unat b div 16 < 16" "unat c div 64 < 4"
    using byte_bound [of a] byte_bound [of b] byte_bound [of c]
    by (simp_all add: less_mult_imp_div_less)
  moreover have "unat a mod 4 < 4" "unat b mod 16 < 16"
    by simp_all
  ultimately show "unat a div 4 < 64" "unat a mod 4 * 16 < 64" "unat b mod 16 * 4 < 64"
    "unat a mod 4 * 16 + unat b div 16 < 64" "unat b mod 16 * 4 + unat c div 64 < 64"
    by linarith+
qed

lemma byte_quarter: "unat (c :: byte) div 64 < 4"
  using byte_bound [of c] by (simp add: less_mult_imp_div_less)

lemma byte_reassemble:
  fixes a b c :: byte
  shows "byte_of (unat a div 4 * 4 + unat a mod 4) = a"
    and "byte_of (unat b div 16 * 16 + unat b mod 16) = b"
    and "byte_of (unat c div 64 * 64 + unat c mod 64) = c"
  by (simp_all only: div_mult_mod_eq byte_of_unat)

lemma div_mod_split:
  "y < k \<Longrightarrow> (x * k + y) div k = x"
  "y < k \<Longrightarrow> (x * k + y) mod k = y"
  for x y k :: nat
  by simp_all

lemmas b64_arith = byte_reassemble div_mod_split byte_nibble byte_quarter

lemma a2b_b64encode: "a2b_base64 0 0 0 False (b64encode bs) = Inr bs"
proof (induction bs rule: b64encode.induct)
  case 1
  then show ?case by simp
next
  case (2 a)
  then show ?case by (simp only: b64encode.simps a2b_base64.simps) (simp add: b64_arith)
next
  case (3 a b)
  then show ?case by (simp only: b64encode.simps a2b_base64.simps) (simp add: b64_arith)
next
  case (4 a b c bs)
  then show ?case
    by (simp add: b64_arith)
qed

lemma b64encode_first: "b64encode bs \<noteq> [] \<Longrightarrow> hd (b64encode bs) \<noteq> 61"
  by (cases bs rule: b64encode.cases) auto

lemma b64encode_ascii: "c \<in> set (b64encode bs) \<Longrightarrow> c < 128"
  by (induction bs rule: b64encode.induct) (auto simp: b64_char_ascii)

theorem b64decode_b64encode [simp]: "b64decode (b64encode bs) = Inr bs"
  using b64encode_first [of bs] b64encode_ascii [of _ bs]
  by (auto simp: b64decode_def a2b_b64encode not_le)

lemma b64encode_inject [simp]: "b64encode a = b64encode b \<longleftrightarrow> a = b"
  by (metis b64decode_b64encode sum.inject(2))


section \<open>UTF-8 round trip\<close>

lemma digits64:
  fixes c :: nat
  shows "c div 4096 * 4096 + c div 64 mod 64 * 64 + c mod 64 = c"
    and "c div 262144 * 262144 + c div 4096 mod 64 * 4096 + c div 64 mod 64 * 64 + c mod 64 = c"
proof -
  have 1: "c div 64 div 64 = c div 4096" "c div 4096 div 64 = c div 262144"
    by (simp_all add: div_mult2_eq [symmetric])
  have "c = c div 64 * 64 + c mod 64" "c div 64 = c div 64 div 64 * 64 + c div 64 mod 64"
    "c div 4096 = c div 4096 div 64 * 64 + c div 4096 mod 64"
    by simp_all
  then show "c div 4096 * 4096 + c div 64 mod 64 * 64 + c mod 64 = c"
    "c div 262144 * 262144 + c div 4096 mod 64 * 4096 + c div 64 mod 64 * 64 + c mod 64 = c"
    unfolding 1 by linarith+
qed

lemma cont_arith:
  "m < 64 \<Longrightarrow> (128 + m) div 64 = 2"
  "m < 64 \<Longrightarrow> (128 + m) mod 64 = m"
  for m :: nat
  using div_mod_split [of m 64 2] by simp_all

lemma utf8_decode_pair:
  assumes "v = y * 64 + z" "y < 32" "z < 64" "0x80 \<le> v"
  shows "utf8_decode (byte_of (192 + y) # byte_of (128 + z) # bs)
    = bindE (utf8_decode bs) (\<lambda>r. Inr (v # r))"
  using assms(2-)
  by (simp add: Let_def utf8_cont_def cont_arith assms(1) [symmetric])

lemma utf8_decode_triple:
  assumes "v = x * 4096 + y * 64 + z" "x < 16" "y < 64" "z < 64" "0x800 \<le> v"
  shows "utf8_decode (byte_of (224 + x) # byte_of (128 + y) # byte_of (128 + z) # bs)
    = bindE (utf8_decode bs) (\<lambda>r. Inr (v # r))"
  using assms(2-)
  by (simp add: Let_def utf8_cont_def cont_arith assms(1) [symmetric])

lemma utf8_decode_quad:
  assumes "v = w * 262144 + x * 4096 + y * 64 + z" "w < 8" "x < 64" "y < 64" "z < 64"
    "0x10000 \<le> v" "v < 0x110000"
  shows "utf8_decode (byte_of (240 + w) # byte_of (128 + x) # byte_of (128 + y) # byte_of (128 + z) # bs)
    = bindE (utf8_decode bs) (\<lambda>r. Inr (v # r))"
  using assms(2-)
  by (simp add: Let_def utf8_cont_def cont_arith assms(1) [symmetric])

lemma utf8_decode_char:
  assumes "scalar c"
  shows "utf8_decode (utf8_char c @ bs) = bindE (utf8_decode bs) (\<lambda>r. Inr (c # r))"
proof -
  consider "c < 0x80" | "0x80 \<le> c" "c < 0x800" | "0x800 \<le> c" "c < 0x10000" | "0x10000 \<le> c" "c < 0x110000"
    using assms by (auto simp: scalar_def) linarith
  then show ?thesis
  proof cases
    case 1
    then show ?thesis by (simp add: utf8_char_def Let_def)
  next
    case 2
    then have "c div 64 < 32" by (auto simp: less_mult_imp_div_less)
    from utf8_decode_pair [OF div_mult_mod_eq [symmetric] this] 2 show ?thesis
      by (simp add: utf8_char_def del: utf8_decode.simps)
  next
    case 3
    then have "c div 4096 < 16" by (auto simp: less_mult_imp_div_less)
    from utf8_decode_triple [OF digits64(1) [symmetric] this] 3 show ?thesis
      by (simp add: utf8_char_def del: utf8_decode.simps)
  next
    case 4
    then have "c div 262144 < 8" by (auto simp: less_mult_imp_div_less)
    from utf8_decode_quad [OF digits64(2) [symmetric] this] 4 show ?thesis
      by (simp add: utf8_char_def del: utf8_decode.simps)
  qed
qed

lemma utf8_decode_concat:
  "\<forall>c \<in> set s. scalar c \<Longrightarrow> utf8_decode (concat (map utf8_char s)) = Inr s"
  by (induction s) (auto simp: utf8_decode_char)

lemma utf8_encode_Inr: "\<forall>c \<in> set s. scalar c \<Longrightarrow> utf8_encode s = Inr (concat (map utf8_char s))"
  by (auto simp: utf8_encode_def scalar_def)

theorem utf8_decode_encode:
  assumes "\<forall>c \<in> set s. scalar c"
  shows "bindE (utf8_encode s) utf8_decode = Inr s"
  unfolding utf8_encode_Inr [OF assms] by (simp add: utf8_decode_concat [OF assms])

lemma utf8_encode_inj:
  assumes "\<forall>c \<in> set s. scalar c" "\<forall>c \<in> set t. scalar c" "utf8_encode s = utf8_encode t"
  shows "s = t"
proof -
  have "(Inr s :: str res) = bindE (utf8_encode s) utf8_decode"
    by (rule utf8_decode_encode [OF assms(1), symmetric])
  also have "\<dots> = Inr t"
    unfolding assms(3) by (rule utf8_decode_encode [OF assms(2)])
  finally show ?thesis
    by (rule sum.inject(2) [THEN iffD1])
qed

end
