(* ===== verification/Json.thy ===== *)
theory Json
  imports Encoding
begin

text \<open>
  The \<open>json\<close> module as the sources use it: \<open>json.dumps\<close> with the compact separators and
  \<open>ensure_ascii=False\<close> (with or without \<open>sort_keys\<close>), and \<open>json.loads\<close> with its
  \<open>parse_int\<close>, \<open>parse_float\<close>, \<open>parse_constant\<close> and \<open>object_pairs_hook\<close> hooks. The parser
  follows the C scanner of CPython: strict strings, surrogate-pair escapes, the number
  grammar, \<open>NaN\<close> and \<open>Infinity\<close> as constants, white space of four characters. It is written
  with fuel; \<open>json_loads\<close> supplies more than the length of the text, and
  \<open>scan_once_fuel\<close> shows that this is always enough.

  A number with a fraction or an exponent, and the constants, are kept as their text
  (\<open>JFloat\<close>): the registry never computes with one, it only refuses them.
\<close>


section \<open>Values\<close>

datatype json =
    JNull
  | JBool bool
  | JInt int
  | JFloat str
  | JStr str
  | JArr "json list"
  | JObj "(str \<times> json) list"

type_synonym obj = "json dict"

text \<open>Python's \<open>==\<close> between JSON scalars: \<open>True == 1\<close> and \<open>False == 0\<close> hold.\<close>

definition py_eq_int :: "json \<Rightarrow> int \<Rightarrow> bool" where
  "py_eq_int v n = (case v of JInt i \<Rightarrow> i = n | JBool b \<Rightarrow> (if b then 1 else 0) = n | _ \<Rightarrow> False)"

definition get_str :: "obj \<Rightarrow> str \<Rightarrow> str option" where
  "get_str d k = (case map_of d k of Some (JStr s) \<Rightarrow> Some s | _ \<Rightarrow> None)"

definition get_int :: "obj \<Rightarrow> str \<Rightarrow> int option" where
  "get_int d k = (case map_of d k of Some (JInt i) \<Rightarrow> Some i | _ \<Rightarrow> None)"


section \<open>Printing\<close>

fun nat_text :: "nat \<Rightarrow> str" where
  "nat_text n = (if n < 10 then [48 + n] else nat_text (n div 10) @ [48 + n mod 10])"

declare nat_text.simps [simp del]

definition int_text :: "int \<Rightarrow> str" where
  "int_text i = (if i < 0 then 45 # nat_text (nat (- i)) else nat_text (nat i))"

definition esc_char :: "nat \<Rightarrow> str" where
  "esc_char c =
    (if c = 34 then [92, 34]
     else if c = 92 then [92, 92]
     else if c = 10 then [92, 110]
     else if c = 13 then [92, 114]
     else if c = 9 then [92, 116]
     else if c = 12 then [92, 102]
     else if c = 8 then [92, 98]
     else if c < 32 then [92, 117, 48, 48, hex_digit (c div 16), hex_digit (c mod 16)]
     else [c])"

definition quote :: "str \<Rightarrow> str" where
  "quote s = 34 # concat (map esc_char s) @ [34]"

fun join :: "str list \<Rightarrow> str" where
  "join [] = []"
| "join [x] = x"
| "join (x # y # xs) = x @ 44 # join (y # xs)"

primrec json_dumps :: "bool \<Rightarrow> json \<Rightarrow> str" where
  "json_dumps sk JNull = lit ''null''"
| "json_dumps sk (JBool b) = (if b then lit ''true'' else lit ''false'')"
| "json_dumps sk (JInt i) = int_text i"
| "json_dumps sk (JFloat t) = t"
| "json_dumps sk (JStr s) = quote s"
| "json_dumps sk (JArr xs) = 91 # join (map (json_dumps sk) xs) @ [93]"
| "json_dumps sk (JObj kvs) =
    (let items = map (map_prod id (json_dumps sk)) kvs;
         ordered = (if sk then sort_key fst items else items)
     in 123 # join (map (\<lambda>(k, t). quote k @ 58 # t) ordered) @ [125])"

text \<open>The value that sorted printing denotes: every object sorted by key.\<close>

primrec sort_json :: "json \<Rightarrow> json" where
  "sort_json JNull = JNull"
| "sort_json (JBool b) = JBool b"
| "sort_json (JInt i) = JInt i"
| "sort_json (JFloat t) = JFloat t"
| "sort_json (JStr s) = JStr s"
| "sort_json (JArr xs) = JArr (map sort_json xs)"
| "sort_json (JObj kvs) = JObj (sort_key fst (map (map_prod id sort_json) kvs))"


section \<open>Parsing\<close>

definition skip_ws :: "str \<Rightarrow> str" where
  "skip_ws s = dropWhile (\<lambda>c. c = 32 \<or> c = 9 \<or> c = 10 \<or> c = 13) s"

definition hex4 :: "nat \<Rightarrow> nat \<Rightarrow> nat \<Rightarrow> nat \<Rightarrow> nat option" where
  "hex4 a b c d =
    (case (hex_value a, hex_value b, hex_value c, hex_value d) of
      (Some w, Some x, Some y, Some z) \<Rightarrow> Some (w * 4096 + x * 256 + y * 16 + z)
    | _ \<Rightarrow> None)"

definition simple_escape :: "nat \<Rightarrow> nat option" where
  "simple_escape e =
    (if e = 34 \<or> e = 92 \<or> e = 47 then Some e
     else if e = 98 then Some 8
     else if e = 102 then Some 12
     else if e = 110 then Some 10
     else if e = 114 then Some 13
     else if e = 116 then Some 9
     else None)"

definition scan_escape :: "str \<Rightarrow> (nat \<times> str) res" where
  "scan_escape s =
    (case s of
      [] \<Rightarrow> Inl JSONDecodeError
    | e # es \<Rightarrow>
       (if e \<noteq> 117 then
          (case simple_escape e of None \<Rightarrow> Inl JSONDecodeError | Some x \<Rightarrow> Inr (x, es))
        else case es of
          a # b # c # d # r \<Rightarrow>
           (case hex4 a b c d of
              None \<Rightarrow> Inl JSONDecodeError
            | Some u \<Rightarrow>
               (if 0xD800 \<le> u \<and> u \<le> 0xDBFF then
                 (case r of
                    x # y # a' # b' # c' # d' # r' \<Rightarrow>
                     (if x = 92 \<and> y = 117 then
                       (case hex4 a' b' c' d' of
                          None \<Rightarrow> Inl JSONDecodeError
                        | Some w \<Rightarrow>
                           (if 0xDC00 \<le> w \<and> w \<le> 0xDFFF
                            then Inr (0x10000 + (u - 0xD800) * 1024 + (w - 0xDC00), r')
                            else Inr (u, r)))
                      else Inr (u, r))
                  | _ \<Rightarrow> Inr (u, r))
                else Inr (u, r)))
        | _ \<Rightarrow> Inl JSONDecodeError))"

definition next_char :: "str \<Rightarrow> (nat \<times> str) res" where
  "next_char s = (case s of [] \<Rightarrow> Inl JSONDecodeError | c # cs \<Rightarrow> Inr (c, cs))"

fun scan_string :: "nat \<Rightarrow> str \<Rightarrow> (str \<times> str) res" where
  "scan_string 0 s = Inl OutOfFuel"
| "scan_string (Suc n) s =
    bindE (next_char s) (\<lambda>(c, cs).
      (if c = 34 then Inr ([], cs)
       else if c < 32 then Inl JSONDecodeError
       else if c = 92 then
         bindE (scan_escape cs) (\<lambda>(x, r).
           bindE (scan_string n r) (\<lambda>(t, r'). Inr (x # t, r')))
       else bindE (scan_string n cs) (\<lambda>(t, r'). Inr (c # t, r'))))"

definition is_digit :: "nat \<Rightarrow> bool" where
  "is_digit c \<longleftrightarrow> 48 \<le> c \<and> c \<le> 57"

text \<open>
  The longest number at the front of a text: its sign and integer part, its fraction and
  exponent (empty for an integer), and what follows.
\<close>

definition match_int :: "str \<Rightarrow> (str \<times> str) option" where
  "match_int s =
    (case s of
      [] \<Rightarrow> None
    | c # cs \<Rightarrow>
       (if c = 48 then Some ([c], cs)
        else if is_digit c then Some (takeWhile is_digit s, dropWhile is_digit s)
        else None))"

definition match_frac :: "str \<Rightarrow> str \<times> str" where
  "match_frac s =
    (case s of
      c # d # cs \<Rightarrow>
       (if c = 46 \<and> is_digit d then (46 # takeWhile is_digit (d # cs), dropWhile is_digit (d # cs))
        else ([], s))
    | _ \<Rightarrow> ([], s))"

definition match_exp :: "str \<Rightarrow> str \<times> str" where
  "match_exp s =
    (case s of
      [] \<Rightarrow> ([], s)
    | c # cs \<Rightarrow>
       (if c = 101 \<or> c = 69 then
         (let (sgn, r) = (case cs of d # ds \<Rightarrow> if d = 43 \<or> d = 45 then ([d], ds) else ([], cs) | [] \<Rightarrow> ([], cs))
          in if r \<noteq> [] \<and> is_digit (hd r)
             then (c # sgn @ takeWhile is_digit r, dropWhile is_digit r)
             else ([], s))
        else ([], s)))"

definition match_number :: "str \<Rightarrow> (str \<times> str \<times> str) option" where
  "match_number s =
    (let (sgn, s1) = (case s of c # cs \<Rightarrow> if c = 45 then ([c], cs) else ([], s) | [] \<Rightarrow> ([], s))
     in case match_int s1 of
          None \<Rightarrow> None
        | Some (ds, s2) \<Rightarrow>
           (let (fr, s3) = match_frac s2; (ex, s4) = match_exp s3
            in Some (sgn @ ds, fr @ ex, s4)))"

record hooks =
  parse_int :: "str \<Rightarrow> json res"
  parse_float :: "str \<Rightarrow> json res"
  parse_constant :: "str \<Rightarrow> json res"
  object_pairs :: "(str \<times> json) list \<Rightarrow> json res"

definition strip_prefix :: "str \<Rightarrow> str \<Rightarrow> str option" where
  "strip_prefix p s = (if take (length p) s = p then Some (drop (length p) s) else None)"

definition scan_scalar :: "hooks \<Rightarrow> str \<Rightarrow> (json \<times> str) res" where
  "scan_scalar H s =
    (case strip_prefix (lit ''null'') s of Some r \<Rightarrow> Inr (JNull, r) | None \<Rightarrow>
    (case strip_prefix (lit ''true'') s of Some r \<Rightarrow> Inr (JBool True, r) | None \<Rightarrow>
    (case strip_prefix (lit ''false'') s of Some r \<Rightarrow> Inr (JBool False, r) | None \<Rightarrow>
    (case strip_prefix (lit ''NaN'') s of
       Some r \<Rightarrow> bindE (parse_constant H (lit ''NaN'')) (\<lambda>v. Inr (v, r)) | None \<Rightarrow>
    (case strip_prefix (lit ''Infinity'') s of
       Some r \<Rightarrow> bindE (parse_constant H (lit ''Infinity'')) (\<lambda>v. Inr (v, r)) | None \<Rightarrow>
    (case strip_prefix (lit ''-Infinity'') s of
       Some r \<Rightarrow> bindE (parse_constant H (lit ''-Infinity'')) (\<lambda>v. Inr (v, r)) | None \<Rightarrow>
    (case match_number s of
       None \<Rightarrow> Inl JSONDecodeError
     | Some (ds, fe, r) \<Rightarrow>
        (if fe = [] then bindE (parse_int H ds) (\<lambda>v. Inr (v, r))
         else bindE (parse_float H (ds @ fe)) (\<lambda>v. Inr (v, r))))))))))"

fun scan_once :: "hooks \<Rightarrow> nat \<Rightarrow> str \<Rightarrow> (json \<times> str) res"
  and scan_members :: "hooks \<Rightarrow> nat \<Rightarrow> str \<Rightarrow> ((str \<times> json) list \<times> str) res"
  and scan_elements :: "hooks \<Rightarrow> nat \<Rightarrow> str \<Rightarrow> (json list \<times> str) res"
where
  "scan_once H 0 s = Inl OutOfFuel"
| "scan_once H (Suc n) s =
    bindE (next_char s) (\<lambda>(c, cs).
      (if c = 34 then bindE (scan_string n cs) (\<lambda>(t, r). Inr (JStr t, r))
       else if c = 123 then
         (if skip_ws cs \<noteq> [] \<and> hd (skip_ws cs) = 125
          then bindE (object_pairs H []) (\<lambda>v. Inr (v, tl (skip_ws cs)))
          else bindE (scan_members H n (skip_ws cs)) (\<lambda>(ps, r).
                 bindE (object_pairs H ps) (\<lambda>v. Inr (v, r))))
       else if c = 91 then
         (if skip_ws cs \<noteq> [] \<and> hd (skip_ws cs) = 93 then Inr (JArr [], tl (skip_ws cs))
          else bindE (scan_elements H n (skip_ws cs)) (\<lambda>(xs, r). Inr (JArr xs, r)))
       else scan_scalar H s))"
| "scan_members H 0 s = Inl OutOfFuel"
| "scan_members H (Suc n) s =
    bindE (next_char s) (\<lambda>(c, cs).
      (if c \<noteq> 34 then Inl JSONDecodeError
       else bindE (scan_string n cs) (\<lambda>(k, r).
         bindE (next_char (skip_ws r)) (\<lambda>(d, ds).
           (if d \<noteq> 58 then Inl JSONDecodeError
            else bindE (scan_once H n (skip_ws ds)) (\<lambda>(v, r').
              bindE (next_char (skip_ws r')) (\<lambda>(e, es).
                (if e = 125 then Inr ([(k, v)], es)
                 else if e = 44 then
                   bindE (scan_members H n (skip_ws es)) (\<lambda>(ps, r''). Inr ((k, v) # ps, r''))
                 else Inl JSONDecodeError))))))))"
| "scan_elements H 0 s = Inl OutOfFuel"
| "scan_elements H (Suc n) s =
    bindE (scan_once H n s) (\<lambda>(v, r).
      bindE (next_char (skip_ws r)) (\<lambda>(e, es).
        (if e = 93 then Inr ([v], es)
         else if e = 44 then
           bindE (scan_elements H n (skip_ws es)) (\<lambda>(vs, r'). Inr (v # vs, r'))
         else Inl JSONDecodeError)))"

definition json_decode :: "hooks \<Rightarrow> str \<Rightarrow> json res" where
  "json_decode H s =
    (if s \<noteq> [] \<and> hd s = 0xFEFF then Inl JSONDecodeError
     else bindE (scan_once H (2 * length s + 1) (skip_ws s)) (\<lambda>(v, r).
       (if skip_ws r = [] then Inr v else Inl JSONDecodeError)))"

text \<open>
  The default hooks of \<open>json.loads\<close>: \<open>int(text)\<close> (which refuses more than 4300 digits) and
  \<open>dict(pairs)\<close>, in which a repeated key keeps its first position and its last value.
\<close>

definition nat_of_digits :: "str \<Rightarrow> nat" where
  "nat_of_digits ds = foldl (\<lambda>a d. 10 * a + (d - 48)) 0 ds"

definition int_of_text :: "str \<Rightarrow> int res" where
  "int_of_text t =
    (let (neg, ds) = (case t of c # cs \<Rightarrow> if c = 45 then (True, cs) else (False, t) | [] \<Rightarrow> (False, t))
     in if 4300 < length ds then Inl (ValueError ''int digits'')
        else Inr (if neg then - int (nat_of_digits ds) else int (nat_of_digits ds)))"

definition dict_of :: "(str \<times> json) list \<Rightarrow> obj" where
  "dict_of ps = foldl (\<lambda>d (k, v). AList.update k v d) [] ps"

definition default_hooks :: hooks where
  "default_hooks =
    \<lparr>parse_int = (\<lambda>t. bindE (int_of_text t) (\<lambda>i. Inr (JInt i))),
     parse_float = (\<lambda>t. Inr (JFloat t)),
     parse_constant = (\<lambda>t. Inr (JFloat t)),
     object_pairs = (\<lambda>ps. Inr (JObj (dict_of ps)))\<rparr>"

definition json_loads :: "str \<Rightarrow> json res" where
  "json_loads s = json_decode default_hooks s"


section \<open>Fuel is always enough\<close>

lemma skip_ws_length [simp]: "length (skip_ws s) \<le> length s"
  by (simp add: skip_ws_def length_dropWhile_le)

lemma skip_ws_Cons_length: "skip_ws s = c # cs \<Longrightarrow> length cs < length s"
  by (metis Suc_le_eq length_Cons skip_ws_length)

lemma scan_escape_length: "scan_escape s = Inr (x, r) \<Longrightarrow> length r < length s"
  by (auto simp: scan_escape_def split: list.splits option.splits if_splits)

lemma scan_escape_fuel: "scan_escape s \<noteq> Inl OutOfFuel"
  by (auto simp: scan_escape_def split: list.splits option.splits if_splits)

lemma next_char_Inr [simp]: "next_char s = Inr (c, cs) \<longleftrightarrow> s = c # cs"
  by (auto simp: next_char_def split: list.splits)

lemma next_char_Inl [simp]: "next_char s = Inl e \<longleftrightarrow> s = [] \<and> e = JSONDecodeError"
  by (auto simp: next_char_def split: list.splits)

lemma next_char_Cons [simp]: "next_char (c # cs) = Inr (c, cs)"
  by simp

lemma next_char_Nil [simp]: "next_char [] = Inl JSONDecodeError"
  by simp

lemma scan_string_length: "scan_string n s = Inr (t, r) \<Longrightarrow> length r < length s"
proof (induction n arbitrary: s t r)
  case (Suc n)
  then show ?case
    by (auto simp: bindE_Inr_iff split: if_splits dest!: scan_escape_length)
      fastforce+
qed simp

lemma scan_string_fuel: "length s < n \<Longrightarrow> scan_string n s \<noteq> Inl OutOfFuel"
proof (induction n arbitrary: s)
  case (Suc n)
  then show ?case
    by (auto simp: bindE_Inl_iff scan_escape_fuel split: list.splits if_splits dest!: scan_escape_length)
qed simp

lemma strip_prefix_length:
  "strip_prefix p s = Some r \<Longrightarrow> p \<noteq> [] \<Longrightarrow> length r < length s"
  by (auto simp: strip_prefix_def split: if_splits) (metis diff_less length_drop length_greater_0_conv take_eq_Nil)

lemma match_int_length: "match_int s = Some (ds, r) \<Longrightarrow> length r < length s"
  by (auto simp: match_int_def length_dropWhile_le le_imp_less_Suc split: list.splits if_splits)

lemma match_frac_length: "match_frac s = (f, r) \<Longrightarrow> length r \<le> length s"
  using length_dropWhile_le [of is_digit]
  by (auto simp: match_frac_def le_SucI split: list.splits if_splits)

lemma match_exp_length: "match_exp s = (f, r) \<Longrightarrow> length r \<le> length s"
  using length_dropWhile_le [of is_digit]
  by (auto simp: match_exp_def le_SucI split: list.splits if_splits)

lemma match_number_length: "match_number s = Some (ds, fe, r) \<Longrightarrow> length r < length s"
  by (auto simp: match_number_def split: list.splits if_splits option.splits prod.splits
      dest!: match_int_length match_frac_length match_exp_length)

lemma scan_scalar_length: "scan_scalar H s = Inr (v, r) \<Longrightarrow> length r < length s"
  by (auto simp: scan_scalar_def bindE_Inr_iff split: option.splits if_splits
      dest: strip_prefix_length match_number_length)

lemma scan_once_SucE:
  assumes "scan_once H (Suc n) s = Inr (v, r)"
  obtains c cs where "s = c # cs"
    "(\<exists>t. scan_string n cs = Inr (t, r)) \<or> r = tl (skip_ws cs) \<or> (\<exists>ps. scan_members H n (skip_ws cs) = Inr (ps, r))
      \<or> (\<exists>vs. scan_elements H n (skip_ws cs) = Inr (vs, r)) \<or> scan_scalar H s = Inr (v, r)"
  using assms by (auto simp: bindE_Inr_iff split: if_splits)

lemma scan_members_SucE:
  assumes "scan_members H (Suc n) s = Inr (ps, r)"
  obtains cs k r1 ds v r2 e es where
    "s = 34 # cs" "scan_string n cs = Inr (k, r1)" "skip_ws r1 = 58 # ds"
    "scan_once H n (skip_ws ds) = Inr (v, r2)" "skip_ws r2 = e # es"
    "r = es \<or> (\<exists>ps'. scan_members H n (skip_ws es) = Inr (ps', r))"
  using assms by (auto simp: bindE_Inr_iff split: if_splits)

lemma scan_elements_SucE:
  assumes "scan_elements H (Suc n) s = Inr (vs, r)"
  obtains v r2 e es where
    "scan_once H n s = Inr (v, r2)" "skip_ws r2 = e # es"
    "r = es \<or> (\<exists>vs'. scan_elements H n (skip_ws es) = Inr (vs', r))"
  using assms by (auto simp: bindE_Inr_iff split: if_splits)

lemma scan_rest_length_step:
  assumes IH: "\<And>s v r. scan_once H n s = Inr (v, r) \<Longrightarrow> length r < length s"
    "\<And>s ps r. scan_members H n s = Inr (ps, r) \<Longrightarrow> length r < length s"
    "\<And>s vs r. scan_elements H n s = Inr (vs, r) \<Longrightarrow> length r < length s"
  shows "scan_once H (Suc n) s = Inr (v, r) \<Longrightarrow> length r < length s"
    and "scan_members H (Suc n) s = Inr (ps, r) \<Longrightarrow> length r < length s"
    and "scan_elements H (Suc n) s = Inr (vs, r) \<Longrightarrow> length r < length s"
proof -
  have ws: "length (skip_ws s) \<le> length s" "skip_ws s = c # cs \<Longrightarrow> length cs < length s" for s c cs
    using skip_ws_Cons_length by auto
  have tl_ws: "length (tl (skip_ws s)) \<le> length s" for s
    using skip_ws_length [of s] by (simp only: length_tl)
  show "length r < length s" if "scan_once H (Suc n) s = Inr (v, r)"
    using that
  proof (rule scan_once_SucE)
    fix c cs
    assume s: "s = c # cs"
      and "(\<exists>t. scan_string n cs = Inr (t, r)) \<or> r = tl (skip_ws cs) \<or> (\<exists>ps. scan_members H n (skip_ws cs) = Inr (ps, r))
        \<or> (\<exists>vs. scan_elements H n (skip_ws cs) = Inr (vs, r)) \<or> scan_scalar H s = Inr (v, r)"
    then consider t where "scan_string n cs = Inr (t, r)" | "r = tl (skip_ws cs)"
      | ps where "scan_members H n (skip_ws cs) = Inr (ps, r)"
      | vs where "scan_elements H n (skip_ws cs) = Inr (vs, r)" | "scan_scalar H s = Inr (v, r)"
      by blast
    then have "length r \<le> length cs"
      using s tl_ws [of cs] ws(1) [of cs]
      by cases (auto dest!: scan_string_length IH(2,3) scan_scalar_length simp del: skip_ws_length)
    then show ?thesis by (simp add: s)
  qed
  show "length r < length s" if "scan_members H (Suc n) s = Inr (ps, r)"
    using that
  proof (rule scan_members_SucE)
    fix cs k r1 ds v r2 e es
    assume "s = 34 # cs" "scan_string n cs = Inr (k, r1)" "skip_ws r1 = 58 # ds"
      "scan_once H n (skip_ws ds) = Inr (v, r2)" "skip_ws r2 = e # es"
      and r: "r = es \<or> (\<exists>ps'. scan_members H n (skip_ws es) = Inr (ps', r))"
    then have "length es < length s"
      using scan_string_length [of n cs k r1] ws(2) [of r1 58 ds] ws(2) [of r2 e es]
        IH(1) [of "skip_ws ds" v r2] skip_ws_length [of ds]
      by (simp del: skip_ws_length)
    moreover have "length r \<le> length es"
      using r by (elim disjE exE) (auto dest!: IH(2) intro: order.trans [OF less_imp_le skip_ws_length])
    ultimately show ?thesis by (rule le_less_trans [rotated])
  qed
  show "length r < length s" if "scan_elements H (Suc n) s = Inr (vs, r)"
    using that
  proof (rule scan_elements_SucE)
    fix v r2 e es
    assume "scan_once H n s = Inr (v, r2)" "skip_ws r2 = e # es"
      and r: "r = es \<or> (\<exists>vs'. scan_elements H n (skip_ws es) = Inr (vs', r))"
    then have "length es < length s"
      using ws(2) [of r2 e es] IH(1) [of s v r2] by simp
    moreover have "length r \<le> length es"
      using r by (elim disjE exE) (auto dest!: IH(3) intro: order.trans [OF less_imp_le skip_ws_length])
    ultimately show ?thesis by (rule le_less_trans [rotated])
  qed
qed

lemma scan_rest_length:
  "scan_once H n s = Inr (v, r) \<Longrightarrow> length r < length s"
  "scan_members H n s = Inr (ps, r) \<Longrightarrow> length r < length s"
  "scan_elements H n s = Inr (vs, r) \<Longrightarrow> length r < length s"
proof (induction n arbitrary: s v r ps vs)
  case (Suc n)
  {
    case 1
    then show ?case using Suc scan_rest_length_step(1) by blast
  next
    case 2
    then show ?case using Suc scan_rest_length_step(2) by blast
  next
    case 3
    then show ?case using Suc scan_rest_length_step(3) by blast
  }
qed simp_all

text \<open>Hooks that never report exhausted fuel of their own.\<close>

definition fuel_free :: "hooks \<Rightarrow> bool" where
  "fuel_free H \<longleftrightarrow>
    (\<forall>t. parse_int H t \<noteq> Inl OutOfFuel \<and> parse_float H t \<noteq> Inl OutOfFuel
        \<and> parse_constant H t \<noteq> Inl OutOfFuel)
    \<and> (\<forall>ps. object_pairs H ps \<noteq> Inl OutOfFuel)"

lemma scan_scalar_fuel: "fuel_free H \<Longrightarrow> scan_scalar H s \<noteq> Inl OutOfFuel"
  by (auto simp: scan_scalar_def fuel_free_def bindE_Inl_iff split: option.splits)

lemma scan_fuel:
  assumes "fuel_free H"
  shows "2 * length s < n \<Longrightarrow> scan_once H n s \<noteq> Inl OutOfFuel"
    and "2 * length s < n \<Longrightarrow> scan_members H n s \<noteq> Inl OutOfFuel"
    and "2 * length s + 1 < n \<Longrightarrow> scan_elements H n s \<noteq> Inl OutOfFuel"
proof (induction n arbitrary: s)
  case (Suc n)
  note H = assms [unfolded fuel_free_def]
  {
    case 1
    show ?case
    proof (cases s)
      case (Cons c cs)
      have "2 * length (skip_ws cs) + 1 < n" "length cs < n"
        using 1 Cons skip_ws_length [of cs] by (simp_all del: skip_ws_length)
      with Suc scan_string_fuel [of cs n] scan_scalar_fuel [OF assms] H show ?thesis
        by (auto simp: Cons bindE_Inl_iff)
    qed simp
  next
    case 2
    show ?case
    proof
      assume "scan_members H (Suc n) s = Inl OutOfFuel"
      then obtain cs where s: "s = 34 # cs"
        and "scan_string n cs = Inl OutOfFuel \<or>
          (\<exists>k r d ds. scan_string n cs = Inr (k, r) \<and> skip_ws r = d # ds \<and>
            (scan_once H n (skip_ws ds) = Inl OutOfFuel \<or>
             (\<exists>v r' e es. scan_once H n (skip_ws ds) = Inr (v, r') \<and> skip_ws r' = e # es \<and>
               scan_members H n (skip_ws es) = Inl OutOfFuel)))"
        by (auto simp: bindE_Inl_iff split: if_splits)
      moreover have "2 * length (skip_ws ds) < n"
        if "scan_string n cs = Inr (k, r)" "skip_ws r = d # ds" for k r d ds
        using 2 that scan_string_length [OF that(1)] skip_ws_Cons_length [OF that(2)] skip_ws_length [of ds]
        by (simp add: s del: skip_ws_length)
      moreover have "2 * length (skip_ws es) < n"
        if "scan_string n cs = Inr (k, r)" "skip_ws r = d # ds" "scan_once H n (skip_ws ds) = Inr (v, r')"
          "skip_ws r' = e # es" for k r d ds v r' e es
        using 2 scan_string_length [OF that(1)] skip_ws_Cons_length [OF that(2)] skip_ws_length [of ds]
          scan_rest_length(1) [OF that(3)] skip_ws_Cons_length [OF that(4)] skip_ws_length [of es]
        by (simp add: s del: skip_ws_length)
      moreover have "scan_string n cs \<noteq> Inl OutOfFuel"
        using 2 by (intro scan_string_fuel) (simp add: s)
      ultimately show False
        using Suc by metis
    qed
  next
    case 3
    show ?case
    proof
      assume "scan_elements H (Suc n) s = Inl OutOfFuel"
      then have "scan_once H n s = Inl OutOfFuel \<or>
          (\<exists>v r e es. scan_once H n s = Inr (v, r) \<and> skip_ws r = e # es \<and>
            scan_elements H n (skip_ws es) = Inl OutOfFuel)"
        by (auto simp: bindE_Inl_iff split: if_splits)
      moreover have "2 * length (skip_ws es) + 1 < n"
        if "scan_once H n s = Inr (v, r)" "skip_ws r = e # es" for v r e es
        using 3 scan_rest_length(1) [OF that(1)] skip_ws_Cons_length [OF that(2)] skip_ws_length [of es]
        by (simp del: skip_ws_length)
      ultimately show False
        using Suc 3 by fastforce
    qed
  }
qed simp_all

theorem json_decode_fuel: "fuel_free H \<Longrightarrow> json_decode H s \<noteq> Inl OutOfFuel"
  using scan_fuel(1) [of H "skip_ws s" "2 * length s + 1"] skip_ws_length [of s]
  by (auto simp: json_decode_def bindE_Inl_iff split: if_splits simp del: skip_ws_length)

section \<open>Decimal text\<close>

lemma nat_text_less: "n < 10 \<Longrightarrow> nat_text n = [48 + n]"
  by (simp add: nat_text.simps)

lemma nat_text_ge: "\<not> n < 10 \<Longrightarrow> nat_text n = nat_text (n div 10) @ [48 + n mod 10]"
  by (subst nat_text.simps) simp

lemma nat_text_props:
  "nat_text n \<noteq> [] \<and> (\<forall>c \<in> set (nat_text n). is_digit c) \<and> (hd (nat_text n) = 48 \<longrightarrow> n = 0)"
proof (induction n rule: nat_text.induct)
  case (1 n)
  show ?case
  proof (cases "n < 10")
    case True
    then show ?thesis by (simp add: nat_text_less is_digit_def)
  next
    case False
    moreover have "n div 10 \<noteq> 0" using False by simp
    ultimately show ?thesis using 1
      by (auto simp: nat_text_ge is_digit_def hd_append)
  qed
qed

lemma nat_text_not_Nil [simp]: "nat_text n \<noteq> []"
  using nat_text_props by simp

lemma nat_text_digits: "c \<in> set (nat_text n) \<Longrightarrow> is_digit c"
  using nat_text_props by blast

lemma nat_of_digits_snoc [simp]: "nat_of_digits (ds @ [d]) = 10 * nat_of_digits ds + (d - 48)"
  by (simp add: nat_of_digits_def)

lemma nat_of_digits_text [simp]: "nat_of_digits (nat_text n) = n"
proof (induction n rule: nat_text.induct)
  case (1 n)
  show ?case
  proof (cases "n < 10")
    case True
    then show ?thesis by (simp add: nat_text_less nat_of_digits_def)
  next
    case False
    with 1 have "nat_of_digits (nat_text (n div 10)) = n div 10" by simp
    with False show ?thesis by (simp add: nat_text_ge)
  qed
qed

lemma hd_nat_text: "is_digit (hd (nat_text n))"
  using nat_text_props [of n] by (auto intro: nat_text_digits)

lemma int_of_text_int_text:
  assumes "length (int_text i) \<le> 4300"
  shows "int_of_text (int_text i) = Inr i"
proof (cases "i < 0")
  case True
  with assms show ?thesis by (simp add: int_text_def int_of_text_def)
next
  case False
  obtain c cs where c: "nat_text (nat i) = c # cs" by (cases "nat_text (nat i)") auto
  moreover have "c \<noteq> 45"
    using hd_nat_text [of "nat i"] by (auto simp: is_digit_def c)
  moreover have "nat_of_digits (c # cs) = nat i"
    unfolding c [symmetric] by simp
  ultimately show ?thesis
    using False assms by (simp add: int_text_def int_of_text_def)
qed

text \<open>What may follow a printed value inside a printed document.\<close>

definition delim :: "str \<Rightarrow> bool" where
  "delim r \<longleftrightarrow> r = [] \<or> hd r = 44 \<or> hd r = 93 \<or> hd r = 125"

lemma delim_simps [simp]: "delim []" "delim (44 # r)" "delim (93 # r)" "delim (125 # r)"
  by (simp_all add: delim_def)

lemma match_int_nat_text:
  assumes "delim r"
  shows "match_int (nat_text n @ r) = Some (nat_text n, r)"
proof -
  have tw: "takeWhile is_digit (nat_text n @ r) = nat_text n" "dropWhile is_digit (nat_text n @ r) = r"
    using assms by (auto simp: delim_def is_digit_def nat_text_digits takeWhile_append dropWhile_append
        takeWhile_eq_Nil_iff dropWhile_eq_self_iff dest!: nat_text_digits)
  show ?thesis
  proof (cases "n = 0")
    case True
    then show ?thesis by (simp add: nat_text_less match_int_def)
  next
    case False
    obtain c cs where c: "nat_text n = c # cs" by (cases "nat_text n") auto
    moreover have "c \<noteq> 48" "is_digit c"
      using nat_text_props [of n] False c by auto
    ultimately show ?thesis using tw
      by (simp add: match_int_def)
  qed
qed

lemma match_number_int_text:
  assumes "delim r"
  shows "match_number (int_text i @ r) = Some (int_text i, [], r)"
proof -
  have tail: "match_frac r = ([], r)" "match_exp r = ([], r)"
    using assms by (auto simp: match_frac_def match_exp_def delim_def split: list.splits)
  have hd: "hd (nat_text n) \<noteq> 45" for n
    using hd_nat_text [of n] by (auto simp: is_digit_def)
  show ?thesis
  proof (cases "i < 0")
    case True
    then show ?thesis using tail match_int_nat_text [OF assms]
      by (simp add: match_number_def int_text_def)
  next
    case False
    then show ?thesis using tail match_int_nat_text [OF assms, of "nat i"] hd [of "nat i"]
      by (cases "nat_text (nat i)") (auto simp: match_number_def int_text_def)
  qed
qed

lemma int_text_first: "int_text i = c # cs \<Longrightarrow> c = 45 \<and> cs \<noteq> [] \<and> is_digit (hd cs) \<or> is_digit c"
  using hd_nat_text [of "nat i"] hd_nat_text [of "nat (- i)"]
  by (auto simp: int_text_def split: if_splits)

lemma strip_prefix_Cons [simp]:
  "strip_prefix (p # ps) (c # cs) = (if c = p then strip_prefix ps cs else None)"
  "strip_prefix [] s = Some s"
  by (auto simp: strip_prefix_def)

lemma scan_scalar_int:
  assumes "delim r"
  shows "scan_scalar H (int_text i @ r) = bindE (parse_int H (int_text i)) (\<lambda>v. Inr (v, r))"
proof -
  obtain c cs where c: "int_text i = c # cs"
    by (cases "int_text i") (auto simp: int_text_def split: if_splits)
  have "strip_prefix (lit ''null'') (int_text i @ r) = None"
    "strip_prefix (lit ''true'') (int_text i @ r) = None"
    "strip_prefix (lit ''false'') (int_text i @ r) = None"
    "strip_prefix (lit ''NaN'') (int_text i @ r) = None"
    "strip_prefix (lit ''Infinity'') (int_text i @ r) = None"
    "strip_prefix (lit ''-Infinity'') (int_text i @ r) = None"
    using int_text_first [OF c] by (cases cs; auto simp: c lit_def is_digit_def)+
  then show ?thesis
    using match_number_int_text [OF assms] by (simp add: scan_scalar_def)
qed

section \<open>The printed text parses back\<close>

lemma scan_escape_esc_char:
  assumes "esc_char c = 92 # t"
  shows "scan_escape (t @ r) = Inr (c, r)"
proof (cases "c = 34 \<or> c = 92 \<or> c = 10 \<or> c = 13 \<or> c = 9 \<or> c = 12 \<or> c = 8")
  case True
  with assms show ?thesis by (auto simp: esc_char_def scan_escape_def simple_escape_def)
next
  case False
  with assms have t: "c < 32" "t = [117, 48, 48, hex_digit (c div 16), hex_digit (c mod 16)]"
    by (auto simp: esc_char_def split: if_splits)
  then have "hex4 48 48 (hex_digit (c div 16)) (hex_digit (c mod 16)) = Some c"
    by (simp add: hex4_def hex_value_def [of 48] less_mult_imp_div_less)
  with t show ?thesis by (simp add: scan_escape_def)
qed

lemma esc_char_cases:
  obtains "esc_char c = [c]" "c \<noteq> 34" "c \<noteq> 92" "32 \<le> c" | t where "esc_char c = 92 # t"
proof (cases "32 \<le> c \<and> c \<noteq> 34 \<and> c \<noteq> 92")
  case True
  then have "esc_char c = [c]" by (simp add: esc_char_def)
  with True that(1) show ?thesis by blast
next
  case False
  then have "hd (esc_char c) = 92" "esc_char c \<noteq> []" by (auto simp: esc_char_def)
  with that(2) show ?thesis by (metis list.collapse)
qed

lemma scan_string_print:
  "length (concat (map esc_char s)) < n \<Longrightarrow>
   scan_string n (concat (map esc_char s) @ 34 # r) = Inr (s, r)"
proof (induction s arbitrary: n)
  case Nil
  then show ?case by (cases n) auto
next
  case (Cons c s)
  then obtain m where n: "n = Suc m" by (cases n) auto
  show ?case
  proof (cases c rule: esc_char_cases)
    case 1
    then show ?thesis using Cons.IH [of m] Cons.prems by (simp add: n)
  next
    case (2 t)
    then show ?thesis using Cons.IH [of m] Cons.prems scan_escape_esc_char [OF 2]
      by (simp add: n)
  qed
qed

text \<open>Values a set of hooks reproduces: no floats, and integers and objects the hooks accept.\<close>

primrec printable :: "hooks \<Rightarrow> json \<Rightarrow> bool" where
  "printable H JNull = True"
| "printable H (JBool b) = True"
| "printable H (JInt i) = (parse_int H (int_text i) = Inr (JInt i))"
| "printable H (JFloat t) = False"
| "printable H (JStr s) = True"
| "printable H (JArr xs) = list_all id (map (printable H) xs)"
| "printable H (JObj kvs) =
    (object_pairs H kvs = Inr (JObj kvs) \<and> list_all snd (map (map_prod id (printable H)) kvs))"

abbreviation dumps :: "json \<Rightarrow> str" where
  "dumps \<equiv> json_dumps False"

definition scans :: "hooks \<Rightarrow> json \<Rightarrow> bool" where
  "scans H v \<longleftrightarrow>
    (\<forall>n r. delim r \<longrightarrow> 2 * length (dumps v @ r) < n \<longrightarrow> scan_once H n (dumps v @ r) = Inr (v, r))"

lemma scansD:
  "scans H v \<Longrightarrow> delim r \<Longrightarrow> 2 * length (dumps v @ r) < n \<Longrightarrow> scan_once H n (dumps v @ r) = Inr (v, r)"
  by (simp add: scans_def)

definition member_text :: "str \<times> json \<Rightarrow> str" where
  "member_text kv = quote (fst kv) @ 58 # dumps (snd kv)"

lemma dumps_JObj: "dumps (JObj kvs) = 123 # join (map member_text kvs) @ [125]"
  by (simp add: member_text_def [abs_def] comp_def case_prod_beta)

lemma dumps_first:
  assumes "printable H v"
  obtains c cs where "dumps v = c # cs" "c \<notin> {32, 9, 10, 13, 93, 125, 0xFEFF}"
proof -
  have "\<exists>c cs. int_text i = c # cs \<and> c \<notin> {32, 9, 10, 13, 93, 125, 0xFEFF}" for i
    using int_text_first [of i]
    by (cases "int_text i") (auto simp: is_digit_def, auto simp: int_text_def split: if_splits)
  moreover have "\<exists>c cs. dumps (JBool b) = c # cs \<and> c \<notin> {32, 9, 10, 13, 93, 125, 0xFEFF}" for b
    by (cases b) (auto simp: lit_def)
  ultimately have "\<exists>c cs. dumps v = c # cs \<and> c \<notin> {32, 9, 10, 13, 93, 125, 0xFEFF}"
    using assms by (cases v) (auto simp: lit_def quote_def Let_def)
  with that show ?thesis by blast
qed

lemma skip_ws_dumps: "printable H v \<Longrightarrow> skip_ws (dumps v @ r) = dumps v @ r"
  by (erule dumps_first) (simp add: skip_ws_def)

lemma skip_ws_delim: "delim r \<Longrightarrow> skip_ws r = r"
  by (cases r) (auto simp: delim_def skip_ws_def)

lemma skip_ws_quote [simp]: "skip_ws (34 # r) = 34 # r" "skip_ws (quote k @ r) = quote k @ r"
  "skip_ws (58 # r) = 58 # r" "skip_ws (44 # r) = 44 # r" "skip_ws (93 # r) = 93 # r"
  "skip_ws (125 # r) = 125 # r" "skip_ws [] = []"
  by (simp_all add: skip_ws_def quote_def)

lemma join_not_Nil: "xs \<noteq> [] \<Longrightarrow> (\<And>x. x \<in> set xs \<Longrightarrow> x \<noteq> []) \<Longrightarrow> join xs \<noteq> []"
  by (cases xs rule: join.cases) auto

lemma scan_elements_print:
  assumes "\<And>x. x \<in> set xs \<Longrightarrow> scans H x \<and> printable H x" "xs \<noteq> []"
    "2 * length (join (map dumps xs) @ 93 # r) + 1 < n"
  shows "scan_elements H n (join (map dumps xs) @ 93 # r) = Inr (xs, r)"
  using assms(2,1,3)
proof (induction xs arbitrary: n rule: list_nonempty_induct)
  case (single x)
  then obtain m where n: "n = Suc m" by (cases n) auto
  have "scan_once H m (dumps x @ 93 # r) = Inr (x, 93 # r)"
    using single n by (auto simp: scans_def)
  then show ?case by (simp add: n)
next
  case (cons x xs)
  then obtain m y ys where n: "n = Suc m" and xs: "xs = y # ys" by (cases n; cases xs) auto
  let ?rest = "44 # join (map dumps xs) @ 93 # r"
  have "scan_once H m (dumps x @ ?rest) = Inr (x, ?rest)"
    using cons.prems n xs by (auto simp: scans_def)
  moreover have "scan_elements H m (join (map dumps xs) @ 93 # r) = Inr (xs, r)"
    using cons.IH [of m] cons.prems n xs by simp
  moreover have "skip_ws (join (map dumps xs) @ 93 # r) = join (map dumps xs) @ 93 # r"
    using cons.prems(1) [of y] skip_ws_dumps [of H y] xs by (cases ys) auto
  ultimately show ?case
    by (simp add: n xs)
qed

lemma scan_members_print:
  assumes "\<And>k v. (k, v) \<in> set kvs \<Longrightarrow> scans H v \<and> printable H v" "kvs \<noteq> []"
    "2 * length (join (map member_text kvs) @ 125 # r) < n"
  shows "scan_members H n (join (map member_text kvs) @ 125 # r) = Inr (kvs, r)"
  using assms(2,1,3)
proof (induction kvs arbitrary: n rule: list_nonempty_induct)
  case (single kv)
  obtain k v where kv: "kv = (k, v)" by (cases kv)
  from single obtain m where n: "n = Suc m" by (cases n) auto
  have "scan_once H m (dumps v @ 125 # r) = Inr (v, 125 # r)"
    using single n by (auto simp: scans_def member_text_def [of "(k, v)"] kv)
  moreover have "scan_string m (concat (map esc_char k) @ 34 # 58 # dumps v @ 125 # r)
      = Inr (k, 58 # dumps v @ 125 # r)"
    using single.prems(2) n by (intro scan_string_print) (simp add: member_text_def [of "(k, v)"] quote_def kv)
  ultimately show ?case
    using skip_ws_dumps [of H v "125 # r"] single.prems(1)
    by (simp add: n member_text_def [of "(k, v)"] quote_def kv)
next
  case (cons kv kvs)
  obtain k v where kv: "kv = (k, v)" by (cases kv)
  from cons obtain m y ys where n: "n = Suc m" and ys: "kvs = y # ys" by (cases n; cases kvs) auto
  let ?rest = "44 # join (map member_text kvs) @ 125 # r"
  have "scan_once H m (dumps v @ ?rest) = Inr (v, ?rest)"
    using cons.prems n ys by (intro scansD) (auto simp: member_text_def [of "(k, v)"] kv)
  moreover have "scan_string m (concat (map esc_char k) @ 34 # 58 # dumps v @ ?rest)
      = Inr (k, 58 # dumps v @ ?rest)"
    using cons.prems(2) n ys by (intro scan_string_print) (simp add: member_text_def [of "(k, v)"] quote_def kv)
  moreover have "scan_members H m (join (map member_text kvs) @ 125 # r) = Inr (kvs, r)"
    using cons.prems n ys by (intro cons.IH) (auto simp: member_text_def [of "(k, v)"] kv)
  moreover have "skip_ws (join (map member_text kvs) @ 125 # r) = join (map member_text kvs) @ 125 # r"
    using ys by (cases ys) (auto simp: member_text_def [of y])
  moreover have "skip_ws (dumps v @ ?rest) = dumps v @ ?rest"
    using cons.prems(1) [of k v] kv by (intro skip_ws_dumps [of H]) simp
  ultimately show ?case
    by (simp add: n ys member_text_def [of "(k, v)"] quote_def kv)
qed

lemma scans_printable: "printable H v \<Longrightarrow> scans H v"
proof (induction v)
  case (JStr s)
  show ?case unfolding scans_def
  proof (intro allI impI)
    fix n r assume "2 * length (dumps (JStr s) @ r) < n"
    then obtain m where n: "n = Suc m" and "length (concat (map esc_char s)) < m"
      by (cases n) (auto simp: quote_def)
    then show "scan_once H n (dumps (JStr s) @ r) = Inr (JStr s, r)"
      using scan_string_print [of s m r] by (simp add: quote_def)
  qed
next
  case (JInt i)
  show ?case unfolding scans_def
  proof (intro allI impI)
    fix n r assume r: "delim r" and "2 * length (dumps (JInt i) @ r) < n"
    then obtain m where n: "n = Suc m" by (cases n) auto
    obtain c cs where c: "int_text i = c # cs"
      by (cases "int_text i") (auto simp: int_text_def split: if_splits)
    with int_text_first [OF c] show "scan_once H n (dumps (JInt i) @ r) = Inr (JInt i, r)"
      using scan_scalar_int [OF r, of H i] JInt.prems by (auto simp: n is_digit_def)
  qed
next
  case (JArr xs)
  then have el: "\<And>x. x \<in> set xs \<Longrightarrow> scans H x \<and> printable H x"
    by (auto simp: list_all_iff)
  show ?case unfolding scans_def
  proof (intro allI impI)
    fix n r assume "2 * length (dumps (JArr xs) @ r) < n"
    then obtain m where n: "n = Suc m" and m: "2 * length (join (map dumps xs) @ 93 # r) + 1 < m"
      by (cases n) auto
    show "scan_once H n (dumps (JArr xs) @ r) = Inr (JArr xs, r)"
    proof (cases xs)
      case Nil
      then show ?thesis by (simp add: n)
    next
      case (Cons y ys)
      then obtain c cs where c: "dumps y = c # cs" "c \<notin> {32, 9, 10, 13, 93, 125, 0xFEFF}"
        using el [of y] dumps_first [of H y] by auto
      then have "skip_ws (join (map dumps xs) @ 93 # r) = join (map dumps xs) @ 93 # r"
        "hd (join (map dumps xs) @ 93 # r) \<noteq> 93"
        by (cases ys; auto simp: Cons skip_ws_def)+
      with scan_elements_print [OF el _ m] Cons show ?thesis by (simp add: n)
    qed
  qed
next
  case (JObj kvs)
  then have el: "\<And>k v. (k, v) \<in> set kvs \<Longrightarrow> scans H v \<and> printable H v"
    by (fastforce simp: list_all_iff)
  show ?case unfolding scans_def
  proof (intro allI impI)
    fix n r assume "2 * length (dumps (JObj kvs) @ r) < n"
    then obtain m where n: "n = Suc m" and m: "2 * length (join (map member_text kvs) @ 125 # r) < m"
      unfolding dumps_JObj by (cases n) auto
    show "scan_once H n (dumps (JObj kvs) @ r) = Inr (JObj kvs, r)"
    proof (cases kvs)
      case Nil
      then show ?thesis using JObj.prems by (simp add: n dumps_JObj del: json_dumps.simps)
    next
      case (Cons y ys)
      then have "skip_ws (join (map member_text kvs) @ 125 # r) = join (map member_text kvs) @ 125 # r"
        "hd (join (map member_text kvs) @ 125 # r) \<noteq> 125"
        by (cases ys; auto simp: member_text_def [of y] quote_def)+
      with scan_members_print [OF el _ m] Cons JObj.prems show ?thesis
        by (simp add: n dumps_JObj del: json_dumps.simps)
    qed
  qed
next
  case JNull
  show ?case by (auto simp: scans_def lit_def scan_scalar_def dest!: less_imp_Suc_add)
next
  case (JBool b)
  show ?case by (cases b) (auto simp: scans_def lit_def scan_scalar_def dest!: less_imp_Suc_add)
qed simp

theorem json_decode_dumps:
  assumes "printable H v"
  shows "json_decode H (dumps v) = Inr v"
proof -
  have "scan_once H (2 * length (dumps v) + 1) (dumps v @ []) = Inr (v, [])"
    by (rule scansD [OF scans_printable [OF assms]]) simp_all
  moreover have "hd (dumps v) \<noteq> 0xFEFF"
    using dumps_first [OF assms] by fastforce
  ultimately show ?thesis
    using skip_ws_dumps [OF assms, of "[]"]
    by (simp add: json_decode_def del: scan_once.simps)
qed

section \<open>Sorted printing\<close>

lemma insort_key_map_prod:
  "insort_key fst (k, f v) (map (map_prod id f) xs) = map (map_prod id f) (insort_key fst (k, v) xs)"
  by (induction xs) auto

lemma sort_key_map_prod:
  "sort_key fst (map (map_prod id f) xs) = map (map_prod id f) (sort_key fst xs)"
proof (induction xs)
  case (Cons x xs)
  then show ?case using insort_key_map_prod [of "fst x" f "snd x" "sort_key fst xs"]
    by (cases x) (simp add: id_def)
qed simp

lemma distinct_sort_key_fst [simp]: "distinct (map fst (sort_key fst kvs)) \<longleftrightarrow> distinct (map fst kvs)"
  by (metis distinct_map distinct_sort set_sort)

lemma json_dumps_sorted: "json_dumps True v = dumps (sort_json v)"
proof (induction v)
  case (JArr xs)
  then have "map (json_dumps True) xs = map dumps (map sort_json xs)" by simp
  then show ?case by (simp only: json_dumps.simps sort_json.simps)
next
  case (JObj kvs)
  then have "map (map_prod id (json_dumps True)) kvs = map (map_prod id dumps) (map (map_prod id sort_json) kvs)"
    by (auto simp: map_prod_def)
  then have "sort_key fst (map (map_prod id (json_dumps True)) kvs)
      = map (map_prod id dumps) (sort_key fst (map (map_prod id sort_json) kvs))"
    by (simp only: sort_key_map_prod)
  then show ?case by (simp only: json_dumps.simps sort_json.simps Let_def if_True if_False)
qed simp_all

text \<open>
  Values Python can hold: strings are code points below U+110000 and the keys of every
  object are distinct.
\<close>

definition str_ok :: "str \<Rightarrow> bool" where
  "str_ok s \<longleftrightarrow> (\<forall>c \<in> set s. c < 0x110000)"

primrec dict_ok :: "json \<Rightarrow> bool" where
  "dict_ok JNull = True"
| "dict_ok (JBool b) = True"
| "dict_ok (JInt i) = True"
| "dict_ok (JFloat t) = True"
| "dict_ok (JStr s) = str_ok s"
| "dict_ok (JArr xs) = list_all id (map dict_ok xs)"
| "dict_ok (JObj kvs) =
    (distinct (map fst kvs) \<and> list_all (\<lambda>(k, b). str_ok k \<and> b) (map (map_prod id dict_ok) kvs))"

lemma dict_ok_JArr [simp]: "dict_ok (JArr xs) \<longleftrightarrow> (\<forall>x \<in> set xs. dict_ok x)"
  by (auto simp: list_all_iff)

lemma dict_ok_JObj [simp]:
  "dict_ok (JObj kvs) \<longleftrightarrow> distinct (map fst kvs) \<and> (\<forall>(k, v) \<in> set kvs. str_ok k \<and> dict_ok v)"
  by (fastforce simp: list_all_iff)

declare dict_ok.simps(6,7) [simp del]

lemma str_ok_lit [simp]: "str_ok (lit s)"
proof -
  have "(of_char c :: nat) < 0x110000" for c
    using nat_of_char_less_256 [of c] by (rule less_trans) simp
  then show ?thesis by (auto simp: str_ok_def lit_def)
qed

lemma update_fresh: "k \<notin> fst ` set d \<Longrightarrow> AList.update k v d = d @ [(k, v)]"
  by (induction d) auto

lemma dict_of_distinct: "distinct (map fst ps) \<Longrightarrow> dict_of ps = ps"
proof (induction ps rule: rev_induct)
  case (snoc p ps)
  then show ?case by (cases p) (auto simp: dict_of_def update_fresh)
qed (simp add: dict_of_def)

lemma sort_json_dict_ok: "dict_ok v \<Longrightarrow> dict_ok (sort_json v)"
proof (induction v)
  case (JObj kvs)
  have "map fst (map (map_prod id sort_json) kvs) = map fst kvs"
    by simp
  then have "distinct (map fst (sort_key fst (map (map_prod id sort_json) kvs)))"
    using JObj.prems by (simp only: distinct_sort_key_fst dict_ok_JObj)
  with JObj show ?case by fastforce
qed auto

text \<open>Values within what CPython prints and reads back: no floats, bounded integer text.\<close>

primrec plain :: "json \<Rightarrow> bool" where
  "plain JNull = True"
| "plain (JBool b) = True"
| "plain (JInt i) = (length (int_text i) \<le> 4300)"
| "plain (JFloat t) = False"
| "plain (JStr s) = True"
| "plain (JArr xs) = list_all id (map plain xs)"
| "plain (JObj kvs) = list_all snd (map (map_prod id plain) kvs)"

lemma plain_JArr [simp]: "plain (JArr xs) \<longleftrightarrow> (\<forall>x \<in> set xs. plain x)"
  by (auto simp: list_all_iff)

lemma plain_JObj [simp]: "plain (JObj kvs) \<longleftrightarrow> (\<forall>(k, v) \<in> set kvs. plain v)"
  by (fastforce simp: list_all_iff)

declare plain.simps(6,7) [simp del]

lemma sort_json_plain: "plain v \<Longrightarrow> plain (sort_json v)"
  by (induction v) fastforce+

lemma printable_default: "dict_ok v \<Longrightarrow> plain v \<Longrightarrow> printable default_hooks v"
  by (induction v)
    (fastforce simp: default_hooks_def int_of_text_int_text dict_of_distinct list_all_iff)+

lemma fuel_free_default: "fuel_free default_hooks"
  by (auto simp: fuel_free_def default_hooks_def int_of_text_def bindE_Inl_iff Let_def split: list.splits if_splits)

text \<open>
  Round trip of the store's record text: what \<open>json.dumps(..., sort_keys=True)\<close> prints,
  \<open>json.loads\<close> reads back as the same value with sorted keys.
\<close>

theorem json_loads_dumps:
  assumes "dict_ok v" "plain v"
  shows "json_loads (json_dumps True v) = Inr (sort_json v)"
  unfolding json_loads_def json_dumps_sorted
  by (rule json_decode_dumps) (simp add: assms printable_default sort_json_dict_ok sort_json_plain)

theorem json_loads_dumps_unsorted:
  assumes "dict_ok v" "plain v"
  shows "json_loads (json_dumps False v) = Inr v"
  unfolding json_loads_def
  by (rule json_decode_dumps) (simp add: assms printable_default)

theorem json_loads_total: "json_loads s \<noteq> Inl OutOfFuel"
  by (simp add: json_loads_def json_decode_fuel fuel_free_default)

lemma sort_key_fst_map_of:
  "distinct (map fst kvs) \<Longrightarrow> map_of (sort_key fst kvs) = map_of kvs"
  by (rule map_of_inject_set [THEN iffD2]) simp_all
end
