(* ===== verification/Signing.thy ===== *)
theory Signing
  imports Json
begin

text \<open>
  \<open>signing.py\<close>: Curator Canonical JSON 1 (CCJ-1), Ed25519 record signatures and their
  verification. The Ed25519 primitives belong to the third-party package
  \<open>cryptography\<close>; they are a parameter of the model (the record \<open>ed25519\<close>), and
  \<open>ed25519_ok\<close> names what the sources rely on: 32-byte public keys, 64-byte signatures, and
  that a signature verifies under the public key of its signer. PEM export and import stay
  in that package and are not modelled here.
\<close>


section \<open>Canonical JSON\<close>

definition MAX_SAFE_INTEGER :: int where
  "MAX_SAFE_INTEGER = 9007199254740991"

definition MAX_JSON_DEPTH :: nat where
  "MAX_JSON_DEPTH = 100"

lemma eachE_cong [fundef_cong]:
  "xs = ys \<Longrightarrow> (\<And>y. y \<in> set ys \<Longrightarrow> f y = g y) \<Longrightarrow> eachE f xs = eachE g ys"
  by (induction xs arbitrary: ys) auto

lemma size_member [termination_simp]: "(k, v) \<in> set kvs \<Longrightarrow> size v < Suc (size_list (size_prod (\<lambda>_. 0) size) kvs)"
  by (induction kvs) auto

fun validate_ccj :: "json \<Rightarrow> nat \<Rightarrow> unit res" where
  "validate_ccj JNull depth = Inr ()"
| "validate_ccj (JBool b) depth = Inr ()"
| "validate_ccj (JInt i) depth =
    guardE (- MAX_SAFE_INTEGER \<le> i \<and> i \<le> MAX_SAFE_INTEGER)
      (CanonicalError ''CCJ-1 integer outside safe range'')"
| "validate_ccj (JFloat t) depth = Inl (CanonicalError ''CCJ-1 numbers must be integers'')"
| "validate_ccj (JStr s) depth =
    guardE (\<not> (\<exists>c \<in> set s. surrogate c))
      (CanonicalError ''CCJ-1 strings must not contain lone surrogates'')"
| "validate_ccj (JArr xs) depth =
    (if depth + 1 > MAX_JSON_DEPTH then Inl CanonicalDepthError
     else eachE (\<lambda>item. validate_ccj item (depth + 1)) xs)"
| "validate_ccj (JObj kvs) depth =
    (if depth + 1 > MAX_JSON_DEPTH then Inl CanonicalDepthError
     else eachE (\<lambda>(key, item).
            bindE (validate_ccj (JStr key) (depth + 1)) (\<lambda>_. validate_ccj item (depth + 1))) kvs)"


definition canonical_document :: "json \<Rightarrow> bytes res" where
  "canonical_document v =
    bindE (validate_ccj v 0) (\<lambda>_. utf8_encode (json_dumps True v))"

definition canonical_bytes :: "obj \<Rightarrow> bytes res" where
  "canonical_bytes record =
    (let body = without (lit ''sig'') record in canonical_document (JObj body))"


section \<open>Ed25519 keys\<close>

record 'k ed25519 =
  ed_public :: "'k \<Rightarrow> bytes"
  ed_sign :: "'k \<Rightarrow> bytes \<Rightarrow> bytes"
  ed_verify :: "bytes \<Rightarrow> bytes \<Rightarrow> bytes \<Rightarrow> bool"

definition ed25519_ok :: "'k ed25519 \<Rightarrow> bool" where
  "ed25519_ok E \<longleftrightarrow>
    (\<forall>k. length (ed_public E k) = 32) \<and>
    (\<forall>k m. length (ed_sign E k m) = 64) \<and>
    (\<forall>k m. ed_verify E (ed_public E k) (ed_sign E k m) m)"

definition public_pinned :: "'k ed25519 \<Rightarrow> 'k \<Rightarrow> str" where
  "public_pinned E k = lit ''ed25519:'' @ b64encode (ed_public E k)"

definition key_id :: "'k ed25519 \<Rightarrow> 'k \<Rightarrow> str" where
  "key_id E k = take 16 (sha256_hex (ed_public E k))"

definition sign :: "'k ed25519 \<Rightarrow> 'k \<Rightarrow> bytes \<Rightarrow> str" where
  "sign E k message = b64encode (ed_sign E k message)"

definition sign_record :: "'k ed25519 \<Rightarrow> 'k \<Rightarrow> obj \<Rightarrow> obj res" where
  "sign_record E k body =
    (let record = without (lit ''sig'') body
     in bindE (canonical_bytes record) (\<lambda>message.
          Inr (AList.update (lit ''sig'')
            (JObj [(lit ''key_id'', JStr (key_id E k)),
                   (lit ''algorithm'', JStr (lit ''ed25519'')),
                   (lit ''signature'', JStr (sign E k message))]) record)))"

definition parse_public_key :: "str \<Rightarrow> bytes res" where
  "parse_public_key v =
    (let encoded = (case strip_prefix (lit ''ed25519:'') v of Some r \<Rightarrow> r | None \<Rightarrow> v)
     in case b64decode encoded of
          Inl e \<Rightarrow> Inl (ValueError ''invalid Ed25519 public key encoding'')
        | Inr raw \<Rightarrow>
           (if length raw \<noteq> 32 \<or> b64encode raw \<noteq> encoded
            then Inl (ValueError ''Ed25519 public key must be canonical padded base64 for 32 bytes'')
            else Inr raw))"

text \<open>The \<open>try\<close> block of \<open>verify\<close> turns every \<open>ValueError\<close> into a plain \<open>False\<close>.\<close>

definition verify :: "'k ed25519 \<Rightarrow> str \<Rightarrow> bytes \<Rightarrow> str \<Rightarrow> bool" where
  "verify E pinned message signature_b64 =
    (case parse_public_key pinned of
       Inl e \<Rightarrow> False
     | Inr public \<Rightarrow>
        (case b64decode signature_b64 of
           Inl e \<Rightarrow> False
         | Inr signature \<Rightarrow>
            (if length signature \<noteq> 64 \<or> b64encode signature \<noteq> signature_b64 then False
             else ed_verify E public signature message)))"

definition sig_fields :: "str set" where
  "sig_fields = {lit ''algorithm'', lit ''key_id'', lit ''signature''}"

definition verify_signed :: "'k ed25519 \<Rightarrow> str \<Rightarrow> obj \<Rightarrow> bool" where
  "verify_signed E pinned record =
    (case map_of record (lit ''sig'') of
       Some (JObj sig) \<Rightarrow>
        (if keys_of sig \<noteq> sig_fields then False
         else case parse_public_key pinned of
           Inl e \<Rightarrow> False
         | Inr public \<Rightarrow>
            (case canonical_bytes record of
               Inl e \<Rightarrow> False
             | Inr canonical \<Rightarrow>
                (if map_of sig (lit ''algorithm'') \<noteq> Some (JStr (lit ''ed25519'')) then False
                 else if map_of sig (lit ''key_id'') \<noteq> Some (JStr (take 16 (sha256_hex public)))
                 then False
                 else case map_of sig (lit ''signature'') of
                   Some (JStr signature) \<Rightarrow> verify E pinned canonical signature
                 | _ \<Rightarrow> False)))
     | _ \<Rightarrow> False)"


section \<open>What canonicalisation accepts\<close>

primrec json_depth :: "json \<Rightarrow> nat" where
  "json_depth JNull = 0"
| "json_depth (JBool b) = 0"
| "json_depth (JInt i) = 0"
| "json_depth (JFloat t) = 0"
| "json_depth (JStr s) = 0"
| "json_depth (JArr xs) = Suc (foldr max (map json_depth xs) 0)"
| "json_depth (JObj kvs) = Suc (foldr (\<lambda>(k, d). max d) (map (map_prod id json_depth) kvs) 0)"

primrec ccj_leaves :: "json \<Rightarrow> bool" where
  "ccj_leaves JNull = True"
| "ccj_leaves (JBool b) = True"
| "ccj_leaves (JInt i) = (\<bar>i\<bar> \<le> MAX_SAFE_INTEGER)"
| "ccj_leaves (JFloat t) = False"
| "ccj_leaves (JStr s) = (\<forall>c \<in> set s. \<not> surrogate c)"
| "ccj_leaves (JArr xs) = list_all id (map ccj_leaves xs)"
| "ccj_leaves (JObj kvs) =
    list_all (\<lambda>(k, b). (\<forall>c \<in> set k. \<not> surrogate c) \<and> b) (map (map_prod id ccj_leaves) kvs)"

lemma foldr_max_le: "foldr max xs (0 :: nat) \<le> n \<longleftrightarrow> (\<forall>x \<in> set xs. x \<le> n)"
  by (induction xs) auto

lemma json_depth_JArr_le:
  "json_depth (JArr xs) \<le> n \<longleftrightarrow> 1 \<le> n \<and> (\<forall>x \<in> set xs. json_depth x \<le> n - 1)"
  by (cases n) (auto simp: foldr_max_le)

lemma json_depth_JObj_le:
  "json_depth (JObj kvs) \<le> n \<longleftrightarrow> 1 \<le> n \<and> (\<forall>(k, v) \<in> set kvs. json_depth v \<le> n - 1)"
proof -
  have "foldr (\<lambda>(k, d). max d) (map (map_prod id json_depth) kvs) 0 \<le> m \<longleftrightarrow>
      (\<forall>(k, v) \<in> set kvs. json_depth v \<le> m)" for m
    by (induction kvs) auto
  then show ?thesis by (cases n) auto
qed

lemma ccj_leaves_JArr: "ccj_leaves (JArr xs) \<longleftrightarrow> (\<forall>x \<in> set xs. ccj_leaves x)"
  by (auto simp: list_all_iff)

lemma ccj_leaves_JObj:
  "ccj_leaves (JObj kvs) \<longleftrightarrow> (\<forall>(k, v) \<in> set kvs. (\<forall>c \<in> set k. \<not> surrogate c) \<and> ccj_leaves v)"
  by (fastforce simp: list_all_iff)

declare json_depth.simps(6,7) [simp del] ccj_leaves.simps(6,7) [simp del]

lemmas ccj_iffs = json_depth_JArr_le json_depth_JObj_le ccj_leaves_JArr ccj_leaves_JObj

lemma validate_ccj_iff:
  "d \<le> MAX_JSON_DEPTH \<Longrightarrow>
   validate_ccj v d = Inr () \<longleftrightarrow> json_depth v \<le> MAX_JSON_DEPTH - d \<and> ccj_leaves v"
proof (induction v d rule: validate_ccj.induct)
  case (6 xs depth)
  show ?case
  proof (cases "depth + 1 > MAX_JSON_DEPTH")
    case True
    with "6.prems" show ?thesis by (simp add: json_depth.simps(6))
  next
    case False
    with "6.IH" have "\<And>x. x \<in> set xs \<Longrightarrow> validate_ccj x (depth + 1) = Inr () \<longleftrightarrow>
        json_depth x \<le> MAX_JSON_DEPTH - (depth + 1) \<and> ccj_leaves x"
      by simp
    with False show ?thesis by (auto simp: ccj_iffs)
  qed
next
  case (7 kvs depth)
  show ?case
  proof (cases "depth + 1 > MAX_JSON_DEPTH")
    case True
    with "7.prems" show ?thesis by (simp add: json_depth.simps(7))
  next
    case False
    with "7.IH" have "\<And>k v. (k, v) \<in> set kvs \<Longrightarrow> validate_ccj v (depth + 1) = Inr () \<longleftrightarrow>
        json_depth v \<le> MAX_JSON_DEPTH - (depth + 1) \<and> ccj_leaves v"
      by auto
    with False show ?thesis by (fastforce simp: ccj_iffs bindE_Inr_iff)
  qed
qed (auto simp: abs_le_iff)

lemma validate_ccj_top: "validate_ccj v 0 = Inr () \<longleftrightarrow> json_depth v \<le> MAX_JSON_DEPTH \<and> ccj_leaves v"
  using validate_ccj_iff [of 0 v] by simp


section \<open>Canonical bytes determine the value\<close>

lemma length_nat_text: "n < 10 ^ k \<Longrightarrow> 0 < k \<Longrightarrow> length (nat_text n) \<le> k"
proof (induction n arbitrary: k rule: nat_text.induct)
  case (1 n)
  show ?case
  proof (cases "n < 10")
    case True
    with "1.prems" show ?thesis by (simp add: nat_text_less)
  next
    case False
    then obtain j where k: "k = Suc j" "0 < j"
      using "1.prems" by (cases k; cases "k - 1") auto
    moreover from this "1.prems" have "n div 10 < 10 ^ j"
      by (simp add: less_mult_imp_div_less mult.commute)
    ultimately show ?thesis using "1.IH" False by (simp add: nat_text_ge)
  qed
qed

lemma safe_int_text: "\<bar>i\<bar> \<le> MAX_SAFE_INTEGER \<Longrightarrow> length (int_text i) \<le> 4300"
proof -
  assume "\<bar>i\<bar> \<le> MAX_SAFE_INTEGER"
  then have "nat i < 10 ^ 16" "nat (- i) < 10 ^ 16" by (auto simp: MAX_SAFE_INTEGER_def)
  from this [THEN length_nat_text] show ?thesis by (simp add: int_text_def)
qed

lemma ccj_leaves_plain: "ccj_leaves v \<Longrightarrow> plain v"
  by (induction v) (fastforce simp: ccj_iffs safe_int_text)+

lemma ccj_leaves_sort_json [simp]: "ccj_leaves (sort_json v) \<longleftrightarrow> ccj_leaves v"
  by (induction v) (fastforce simp: ccj_iffs)+

lemma json_depth_sort_json_le: "json_depth (sort_json v) \<le> n \<longleftrightarrow> json_depth v \<le> n"
  by (induction v arbitrary: n) (fastforce simp: ccj_iffs)+

lemma json_depth_sort_json [simp]: "json_depth (sort_json v) = json_depth v"
  by (metis json_depth_sort_json_le order_refl antisym)

lemma join_chars: "(\<And>x c. x \<in> set xs \<Longrightarrow> c \<in> set x \<Longrightarrow> P c) \<Longrightarrow> P 44 \<Longrightarrow> c \<in> set (join xs) \<Longrightarrow> P c"
  by (induction xs rule: join.induct) auto

lemma hex_digit_scalar: "n < 16 \<Longrightarrow> scalar (hex_digit n)"
  by (auto simp: scalar_def surrogate_def hex_digit_def)

lemma quote_scalar:
  assumes "str_ok k" "\<forall>c \<in> set k. \<not> surrogate c" "c \<in> set (quote k)"
  shows "scalar c"
proof -
  have "scalar x" if "c' \<in> set k" "x \<in> set (esc_char c')" for c' x
  proof -
    from that(1) assms(1,2) have "scalar c'" by (auto simp: scalar_def str_ok_def)
    with that(2) show ?thesis
      by (auto simp: esc_char_def hex_digit_scalar less_mult_imp_div_less split: if_splits)
        (auto simp: scalar_def surrogate_def)
  qed
  with assms(3) show ?thesis
    by (auto simp: quote_def scalar_def surrogate_def)
qed

lemma int_text_scalar: "c \<in> set (int_text i) \<Longrightarrow> scalar c"
  by (auto simp: int_text_def is_digit_def scalar_def surrogate_def split: if_splits dest!: nat_text_digits)

lemma dumps_scalar: "dict_ok v \<Longrightarrow> ccj_leaves v \<Longrightarrow> c \<in> set (dumps v) \<Longrightarrow> scalar c"
proof (induction v arbitrary: c)
  case (JArr xs)
  have P: "scalar 44" "scalar 91" "scalar 93" by (simp_all add: scalar_def surrogate_def)
  have "scalar c" if "c \<in> set (join (map dumps xs))"
    using JArr that P(1) by (intro join_chars [of "map dumps xs" scalar c]) (auto simp: ccj_iffs)
  with JArr.prems P show ?case by auto
next
  case (JObj kvs)
  have P: "scalar 44" "scalar 58" "scalar 123" "scalar 125" by (simp_all add: scalar_def surrogate_def)
  have "scalar c" if "c \<in> set (join (map member_text kvs))"
  proof (rule join_chars [where P = scalar and xs = "map member_text kvs" and c = c])
    fix x d assume "x \<in> set (map member_text kvs)" "d \<in> set x"
    then obtain k v where "(k, v) \<in> set kvs" "d \<in> set (quote k) \<union> {58} \<union> set (dumps v)"
      by (auto simp: member_text_def)
    with JObj.prems JObj.IH [of "(k, v)" v d] P(2) quote_scalar [of k d] show "scalar d"
      by (fastforce simp: ccj_iffs)
  qed (use P(1) that in simp_all)
  with JObj.prems(3) P show ?case unfolding dumps_JObj by auto
next
  case (JBool b)
  then show ?case by (cases b) (auto simp: lit_def scalar_def surrogate_def)
next
  case JNull
  then show ?case by (auto simp: lit_def scalar_def surrogate_def)
qed (auto simp: int_text_scalar quote_scalar)

lemma canonical_document_Inr:
  assumes "dict_ok v"
  shows "canonical_document v = Inr b \<longleftrightarrow>
    json_depth v \<le> MAX_JSON_DEPTH \<and> ccj_leaves v \<and> utf8_encode (json_dumps True v) = Inr b"
  by (auto simp: canonical_document_def bindE_Inr_iff validate_ccj_top)

lemma canonical_document_defined:
  assumes "dict_ok v" "json_depth v \<le> MAX_JSON_DEPTH" "ccj_leaves v"
  shows "canonical_document v = Inr (concat (map utf8_char (json_dumps True v)))"
proof -
  have "\<forall>c \<in> set (json_dumps True v). scalar c"
    using assms dumps_scalar [of "sort_json v"] by (simp add: json_dumps_sorted sort_json_dict_ok)
  with assms show ?thesis by (simp add: canonical_document_Inr utf8_encode_Inr)
qed

theorem canonical_document_inj:
  assumes "dict_ok v" "dict_ok w" "canonical_document v = Inr b" "canonical_document w = Inr b"
  shows "sort_json v = sort_json w"
proof -
  have rt: "json_loads (json_dumps True x) = Inr (sort_json x)" "\<forall>c \<in> set (json_dumps True x). scalar c"
    if "dict_ok x" "canonical_document x = Inr b" for x
  proof -
    from that have "ccj_leaves x" by (simp add: canonical_document_Inr)
    then show "json_loads (json_dumps True x) = Inr (sort_json x)"
      using that(1) by (simp add: json_loads_dumps ccj_leaves_plain)
    show "\<forall>c \<in> set (json_dumps True x). scalar c"
      using \<open>ccj_leaves x\<close> that(1) dumps_scalar [of "sort_json x"]
      by (simp add: json_dumps_sorted sort_json_dict_ok)
  qed
  have "json_dumps True v = json_dumps True w"
    using assms rt(2) by (intro utf8_encode_inj) (auto simp: canonical_document_Inr)
  then show ?thesis using rt(1) [OF assms(1,3)] rt(1) [OF assms(2,4)] by simp
qed

lemma canonical_bytes_update_sig [simp]:
  "canonical_bytes (AList.update (lit ''sig'') s (without (lit ''sig'') r)) = canonical_bytes r"
  by (simp add: canonical_bytes_def)

lemma canonical_bytes_without [simp]: "canonical_bytes (without (lit ''sig'') r) = canonical_bytes r"
  by (simp add: canonical_bytes_def)


section \<open>Signing and verifying\<close>

lemma strip_prefix_append [simp]: "strip_prefix p (p @ s) = Some s"
  by (simp add: strip_prefix_def)

lemma parse_public_pinned:
  assumes "ed25519_ok E"
  shows "parse_public_key (public_pinned E k) = Inr (ed_public E k)"
  using assms by (simp add: parse_public_key_def public_pinned_def ed25519_ok_def)

lemma parse_public_key_canonical:
  assumes "parse_public_key p = Inr raw"
  shows "length raw = 32"
    and "p = b64encode raw \<or> p = lit ''ed25519:'' @ b64encode raw"
  using assms
  by (auto simp: parse_public_key_def Let_def strip_prefix_def split: option.splits sum.splits if_splits)
    (metis append_take_drop_id)+

lemma verify_sign:
  assumes "ed25519_ok E"
  shows "verify E (public_pinned E k) m (sign E k m)"
  using assms by (simp add: verify_def parse_public_pinned sign_def) (simp add: ed25519_ok_def)

lemma sign_record_Inr:
  "sign_record E k body = Inr r \<longleftrightarrow>
    (\<exists>m. canonical_bytes body = Inr m \<and>
      r = AList.update (lit ''sig'')
            (JObj [(lit ''key_id'', JStr (key_id E k)),
                   (lit ''algorithm'', JStr (lit ''ed25519'')),
                   (lit ''signature'', JStr (sign E k m))]) (without (lit ''sig'') body))"
  by (auto simp: sign_record_def bindE_Inr_iff)

lemma verify_signed_sign_record:
  assumes "ed25519_ok E" "sign_record E k body = Inr r"
  shows "verify_signed E (public_pinned E k) r"
proof -
  from assms(2) obtain m where m: "canonical_bytes body = Inr m"
    and r: "r = AList.update (lit ''sig'')
            (JObj [(lit ''key_id'', JStr (key_id E k)),
                   (lit ''algorithm'', JStr (lit ''ed25519'')),
                   (lit ''signature'', JStr (sign E k m))]) (without (lit ''sig'') body)"
    by (auto simp: sign_record_Inr)
  have "canonical_bytes r = Inr m" using m by (simp add: r)
  with assms(1) show ?thesis
    by (auto simp: verify_signed_def r update_conv' parse_public_pinned verify_sign key_id_def sig_fields_def)
qed

text \<open>A verified record carries an Ed25519 signature over exactly its canonical bytes.\<close>

lemma verify_Inr:
  assumes "verify E pinned m s" "parse_public_key pinned = Inr public"
  shows "\<exists>signature. s = b64encode signature \<and> length signature = 64 \<and> ed_verify E public signature m"
  using assms by (auto simp: verify_def split: sum.splits if_splits)

lemma verify_signedD:
  assumes "verify_signed E pinned r"
  obtains public canonical sig signature where
    "parse_public_key pinned = Inr public"
    "canonical_bytes r = Inr canonical"
    "map_of r (lit ''sig'') = Some (JObj sig)"
    "map_of sig (lit ''key_id'') = Some (JStr (take 16 (sha256_hex public)))"
    "map_of sig (lit ''signature'') = Some (JStr (b64encode signature))"
    "length signature = 64"
    "ed_verify E public signature canonical"
proof -
  obtain sig where sig: "map_of r (lit ''sig'') = Some (JObj sig)"
    using assms by (auto simp: verify_signed_def split: option.splits json.splits)
  obtain public where p: "parse_public_key pinned = Inr public"
    using assms sig by (cases "parse_public_key pinned") (auto simp: verify_signed_def split: if_splits)
  obtain c where c: "canonical_bytes r = Inr c"
    using assms sig p by (cases "canonical_bytes r") (auto simp: verify_signed_def split: if_splits)
  have k: "map_of sig (lit ''key_id'') = Some (JStr (take 16 (sha256_hex public)))"
    using assms sig p c by (auto simp: verify_signed_def split: if_splits)
  obtain s where s: "map_of sig (lit ''signature'') = Some (JStr s)" "verify E pinned c s"
    using assms sig p c by (auto simp: verify_signed_def split: if_splits option.splits json.splits)
  from verify_Inr [OF s(2) p] that [OF p c sig k] s(1) show thesis by auto
qed

end
