(* ===== verification/Protocol.thy ===== *)
theory Protocol
  imports Signing
begin

text \<open>
  \<open>protocol.py\<close>: the depth scan and the parser for protocol JSON, and the validators for
  audit records, signature envelopes, snapshots and portable paths. \<open>RecursionError\<close> has no
  counterpart: the model's parser has no stack limit, and what the sources map it to,
  \<open>JSONDepthError\<close>, is what the canonical depth check raises for the same documents.
\<close>


section \<open>Depth scan\<close>

text \<open>
  \<open>_check_json_depth\<close> runs the same automaton over the bytes or the characters of the text;
  its state is the depth and the two flags \<open>in_string\<close> and \<open>escaped\<close>.
\<close>

fun check_json_depth :: "nat \<Rightarrow> bool \<Rightarrow> bool \<Rightarrow> nat list \<Rightarrow> unit res" where
  "check_json_depth depth in_string escaped [] = Inr ()"
| "check_json_depth depth in_string escaped (c # raw) =
    (if in_string then
       (if escaped then check_json_depth depth True False raw
        else if c = 0x5C then check_json_depth depth True True raw
        else if c = 0x22 then check_json_depth depth False False raw
        else check_json_depth depth True False raw)
     else if c = 0x22 then check_json_depth depth True escaped raw
     else if c = 0x7B \<or> c = 0x5B then
       (if depth + 1 > MAX_JSON_DEPTH then Inl JSONDepthError
        else check_json_depth (depth + 1) False escaped raw)
     else if c = 0x7D \<or> c = 0x5D then check_json_depth (depth - 1) False escaped raw
     else check_json_depth depth False escaped raw)"


section \<open>Text of a document\<close>

text \<open>
  \<open>json.loads\<close> on bytes decodes them first, in the encoding \<open>json.detect_encoding\<close> guesses,
  with the error handler \<open>surrogatepass\<close>.
\<close>

fun units16 :: "bool \<Rightarrow> bytes \<Rightarrow> nat list res" where
  "units16 le [] = Inr []"
| "units16 le [a] = Inl UnicodeError"
| "units16 le (a # b # r) =
    bindE (units16 le r) (\<lambda>us. Inr ((if le then unat a + 256 * unat b else 256 * unat a + unat b) # us))"

fun join_surrogates :: "nat list \<Rightarrow> str" where
  "join_surrogates [] = []"
| "join_surrogates [u] = [u]"
| "join_surrogates (u # v # r) =
    (if 0xD800 \<le> u \<and> u \<le> 0xDBFF \<and> 0xDC00 \<le> v \<and> v \<le> 0xDFFF
     then (0x10000 + (u - 0xD800) * 1024 + (v - 0xDC00)) # join_surrogates r
     else u # join_surrogates (v # r))"

fun utf32_decode :: "bool \<Rightarrow> bytes \<Rightarrow> str res" where
  "utf32_decode le [] = Inr []"
| "utf32_decode le (a # b # c # d # r) =
    (let u = (if le then unat a + 256 * unat b + 65536 * unat c + 16777216 * unat d
              else 16777216 * unat a + 65536 * unat b + 256 * unat c + unat d)
     in if 0x110000 \<le> u then Inl UnicodeError
        else bindE (utf32_decode le r) (\<lambda>s. Inr (u # s)))"
| "utf32_decode le r = Inl UnicodeError"

definition utf16_decode :: "bool \<Rightarrow> bytes \<Rightarrow> str res" where
  "utf16_decode le b = bindE (units16 le b) (\<lambda>us. Inr (join_surrogates us))"

definition decode_document :: "bytes \<Rightarrow> str res" where
  "decode_document b =
    (let z = (\<lambda>i. i < length b \<and> b ! i = 0)
     in if take 4 b = [0, 0, 0xFE, 0xFF] then utf32_decode False (drop 4 b)
        else if take 4 b = [0xFF, 0xFE, 0, 0] then utf32_decode True (drop 4 b)
        else if take 2 b = [0xFE, 0xFF] then utf16_decode False (drop 2 b)
        else if take 2 b = [0xFF, 0xFE] then utf16_decode True (drop 2 b)
        else if take 3 b = [0xEF, 0xBB, 0xBF] then utf8_decode (drop 3 b)
        else if 4 \<le> length b \<and> z 0 then
          (if z 1 then utf32_decode False b else utf16_decode False b)
        else if 4 \<le> length b \<and> z 1 then
          (if z 2 \<and> z 3 then utf32_decode True b else utf16_decode True b)
        else if length b = 2 \<and> z 0 then utf16_decode False b
        else if length b = 2 \<and> z 1 then utf16_decode True b
        else utf8_decode b)"


section \<open>Protocol JSON\<close>

text \<open>The hook \<open>object_pairs\<close> refuses a repeated key; \<open>parse_integer\<close> refuses \<open>-0\<close> and unsafe integers.\<close>

fun object_pairs_hook :: "obj \<Rightarrow> (str \<times> json) list \<Rightarrow> json res" where
  "object_pairs_hook result [] = Inr (JObj result)"
| "object_pairs_hook result ((key, v) # pairs) =
    (if key \<in> keys_of result then Inl (ProtocolError ''duplicate JSON object key'')
     else object_pairs_hook (AList.update key v result) pairs)"

definition parse_integer :: "str \<Rightarrow> json res" where
  "parse_integer t =
    bindE (int_of_text t) (\<lambda>v.
      if t = lit ''-0'' \<or> \<not> (- MAX_SAFE_INTEGER \<le> v \<and> v \<le> MAX_SAFE_INTEGER)
      then Inl (ProtocolError ''JSON integer is not shortest-form or safe'')
      else Inr (JInt v))"

definition reject_number :: "str \<Rightarrow> json res" where
  "reject_number t = Inl (ProtocolError ''registry JSON does not allow non-integer number'')"

definition protocol_hooks :: hooks where
  "protocol_hooks =
    \<lparr>parse_int = parse_integer, parse_float = reject_number,
     parse_constant = reject_number, object_pairs = object_pairs_hook []\<rparr>"

text \<open>The \<open>except\<close> clauses of \<open>load_json\<close>, in order.\<close>

definition load_error :: "exc \<Rightarrow> exc" where
  "load_error e =
    (if e = JSONDepthError then JSONDepthError
     else if e = CanonicalDepthError then JSONDepthError
     else if is_ProtocolError e then e
     else if is_ValueError e then ProtocolError ''invalid protocol JSON''
     else e)"

definition except :: "(exc \<Rightarrow> exc) \<Rightarrow> 'a res \<Rightarrow> 'a res" where
  "except h m = (case m of Inl e \<Rightarrow> Inl (h e) | Inr v \<Rightarrow> Inr v)"

lemma except_simps [simp]:
  "except h (Inl e) = Inl (h e)"
  "except h (Inr v) = Inr v"
  "except h m = Inr v \<longleftrightarrow> m = Inr v"
  "except h m = Inl e \<longleftrightarrow> (\<exists>e'. m = Inl e' \<and> e = h e')"
  by (auto simp: except_def split: sum.splits)

definition load_json :: "bytes \<Rightarrow> json res" where
  "load_json raw =
    (if take 3 raw = [0xEF, 0xBB, 0xBF]
     then Inl (ProtocolError ''protocol JSON must not contain a byte-order mark'')
     else except load_error
       (bindE (check_json_depth 0 False False (map unat raw)) (\<lambda>_.
        bindE (decode_document raw) (\<lambda>t.
        bindE (json_decode protocol_hooks t) (\<lambda>v.
        bindE (canonical_document v) (\<lambda>_. Inr v))))))"

definition load_json_text :: "str \<Rightarrow> json res" where
  "load_json_text raw =
    (if take 1 raw = [0xFEFF]
     then Inl (ProtocolError ''protocol JSON must not contain a byte-order mark'')
     else except load_error
       (bindE (check_json_depth 0 False False raw) (\<lambda>_.
        bindE (json_decode protocol_hooks raw) (\<lambda>v.
        bindE (canonical_document v) (\<lambda>_. Inr v)))))"

definition canonicalize_validated :: "json \<Rightarrow> unit res" where
  "canonicalize_validated v =
    except (\<lambda>e. if e = CanonicalDepthError then JSONDepthError else e)
      (bindE (canonical_document v) (\<lambda>_. Inr ()))"


section \<open>Patterns\<close>

definition is_lower :: "nat \<Rightarrow> bool" where "is_lower c \<longleftrightarrow> 97 \<le> c \<and> c \<le> 122"
definition is_upper :: "nat \<Rightarrow> bool" where "is_upper c \<longleftrightarrow> 65 \<le> c \<and> c \<le> 90"
definition is_hex :: "nat \<Rightarrow> bool" where "is_hex c \<longleftrightarrow> is_digit c \<or> (97 \<le> c \<and> c \<le> 102)"

definition IDENTIFIER :: "str \<Rightarrow> bool" where
  "IDENTIFIER s \<longleftrightarrow>
    s \<noteq> [] \<and> (is_lower (hd s) \<or> is_upper (hd s) \<or> is_digit (hd s)) \<and>
    (\<forall>c \<in> set (tl s). is_lower c \<or> is_upper c \<or> is_digit c \<or> c \<in> set (lit ''._-''))"

definition HOST :: "str \<Rightarrow> bool" where
  "HOST s \<longleftrightarrow>
    s \<noteq> [] \<and> (is_lower (hd s) \<or> is_digit (hd s)) \<and>
    (\<forall>c \<in> set (tl s). is_lower c \<or> is_digit c \<or> c \<in> set (lit ''.-''))"

definition COMMIT :: "str \<Rightarrow> bool" where
  "COMMIT s \<longleftrightarrow> (length s = 40 \<or> length s = 64) \<and> (\<forall>c \<in> set s. is_hex c)"

definition HEX256 :: "str \<Rightarrow> bool" where
  "HEX256 s \<longleftrightarrow> length s = 64 \<and> (\<forall>c \<in> set s. is_hex c)"

definition SHA256 :: "str \<Rightarrow> bool" where
  "SHA256 s \<longleftrightarrow> (case strip_prefix (lit ''sha256:'') s of Some r \<Rightarrow> HEX256 r | None \<Rightarrow> False)"

definition KEY_ID :: "str \<Rightarrow> bool" where
  "KEY_ID s \<longleftrightarrow> length s = 16 \<and> (\<forall>c \<in> set s. is_hex c)"

definition shape_char :: "nat \<Rightarrow> nat \<Rightarrow> bool" where
  "shape_char p c \<longleftrightarrow> (if p = 48 then is_digit c else c = p)"

definition TIMESTAMP :: "str \<Rightarrow> bool" where
  "TIMESTAMP s \<longleftrightarrow> list_all2 shape_char (lit ''0000-00-00T00:00:00Z'') s"

definition STATUSES :: "str set" where
  "STATUSES = {lit ''audited'', lit ''revoked'', lit ''deprecated'', lit ''pending''}"

definition WINDOWS_RESERVED :: "str set" where
  "WINDOWS_RESERVED =
    {lit ''con'', lit ''prn'', lit ''aux'', lit ''nul''} \<union>
    (\<Union>d \<in> set (lit ''123456789''). {lit ''com'' @ [d], lit ''lpt'' @ [d]})"

text \<open>
  \<open>casefold\<close> lowers ASCII letters; no other character folds to text in the letters of the
  reserved names alone, so lowering ASCII decides membership exactly. Category \<open>Cc\<close> is
  the C0 and C1 controls and DEL; \<open>isspace\<close> is the closed list below.
\<close>

definition ascii_lower :: "nat \<Rightarrow> nat" where
  "ascii_lower c = (if is_upper c then c + 32 else c)"

definition is_Cc :: "nat \<Rightarrow> bool" where
  "is_Cc c \<longleftrightarrow> c < 32 \<or> (127 \<le> c \<and> c \<le> 159)"

definition isspace :: "nat \<Rightarrow> bool" where
  "isspace c \<longleftrightarrow>
    (9 \<le> c \<and> c \<le> 13) \<or> (28 \<le> c \<and> c \<le> 32) \<or> c \<in> {133, 160, 5760} \<or>
    (8192 \<le> c \<and> c \<le> 8202) \<or> c \<in> {8232, 8233, 8239, 8287, 12288}"

fun split_on :: "nat \<Rightarrow> str \<Rightarrow> str list" where
  "split_on c [] = [[]]"
| "split_on c (x # s) =
    (if x = c then [] # split_on c s
     else case split_on c s of [] \<Rightarrow> [[x]] | w # ws \<Rightarrow> (x # w) # ws)"

definition portable_component :: "str \<Rightarrow> bool" where
  "portable_component v \<longleftrightarrow>
    \<not> (v = [] \<or> v \<in> {lit ''.'', lit ''..''} \<or> last v \<in> {32, 46} \<or>
       (\<exists>separator \<in> {58, 47, 92}. separator \<in> set v)) \<and>
    \<not> (\<exists>c \<in> set v. is_Cc c) \<and>
    map ascii_lower (takeWhile (\<lambda>c. c \<noteq> 46) v) \<notin> WINDOWS_RESERVED"

definition portable_path :: "str \<Rightarrow> bool" where
  "portable_path v \<longleftrightarrow>
    (if v = [] \<or> length v > 4096 \<or> hd v = 47 \<or> 92 \<in> set v then False
     else list_all portable_component (split_on 47 v))"


section \<open>Validators\<close>

definition validate_source_identity :: "json \<Rightarrow> str res" where
  "validate_source_identity v =
    (case v of
       JStr s \<Rightarrow>
        (if length s > 4096 then Inl (ProtocolError ''source_identity must be canonical'')
         else let host = takeWhile (\<lambda>c. c \<noteq> 47) s; rest = dropWhile (\<lambda>c. c \<noteq> 47) s; path = tl rest
         in if rest = [] \<or> \<not> HOST host \<or> \<not> portable_path path \<or>
               (\<exists>c \<in> set path. isspace c \<or> c \<in> set (lit ''%?#''))
            then Inl (ProtocolError ''source_identity must be canonical'')
            else Inr s)
     | _ \<Rightarrow> Inl (ProtocolError ''source_identity must be canonical''))"

definition validate_signature :: "json \<Rightarrow> unit res" where
  "validate_signature v =
    (case v of
       JObj sig \<Rightarrow>
        bindE (guardE (keys_of sig = sig_fields) (ProtocolError ''signature envelope is malformed'')) (\<lambda>_.
        bindE (guardE (map_of sig (lit ''algorithm'') = Some (JStr (lit ''ed25519'')))
                 (ProtocolError ''signature algorithm must be ed25519'')) (\<lambda>_.
        bindE (guardE (case get_str sig (lit ''key_id'') of Some k \<Rightarrow> KEY_ID k | None \<Rightarrow> False)
                 (ProtocolError ''signature key_id is malformed'')) (\<lambda>_.
        case get_str sig (lit ''signature'') of
          None \<Rightarrow> Inl (ProtocolError ''signature value is malformed'')
        | Some signature \<Rightarrow>
           (case b64decode signature of
              Inl e \<Rightarrow> Inl (ProtocolError ''signature value is malformed'')
            | Inr raw \<Rightarrow> guardE (length raw = 64 \<and> b64encode raw = signature)
                 (ProtocolError ''signature value is malformed'')))))
     | _ \<Rightarrow> Inl (ProtocolError ''signature envelope is malformed''))"

definition validate_hash_version :: "obj \<Rightarrow> unit res" where
  "validate_hash_version record =
    (case (case map_of record (lit ''schema_version'') of None \<Rightarrow> JInt 1 | Some v \<Rightarrow> v) of
       JInt schema \<Rightarrow>
        (if schema \<notin> {1, 2} then Inl (ProtocolError ''audit record schema_version must be 1 or 2'')
         else if (schema = 1 \<and> lit ''hash_version'' \<in> keys_of record) \<or>
                 (schema = 2 \<and> map_of record (lit ''hash_version'') \<noteq> Some (JInt 2))
         then Inl (ProtocolError ''hash_version_mismatch: framing version disagrees with audit record schema'')
         else Inr ())
     | _ \<Rightarrow> Inl (ProtocolError ''audit record schema_version must be 1 or 2''))"

definition record_fields :: "str set" where
  "record_fields =
    {lit ''schema_version'', lit ''hash_version'', lit ''name'', lit ''source_identity'',
     lit ''commit'', lit ''content_sha256'', lit ''status'', lit ''audit'',
     lit ''endorsements'', lit ''sig''}"

text \<open>
  \<open>record.get("status") not in STATUSES\<close> hashes the value: an array or an object there
  raises \<open>TypeError\<close>.
\<close>

definition check_status :: "json \<Rightarrow> unit res" where
  "check_status v =
    (case v of
       JStr s \<Rightarrow> guardE (s \<in> STATUSES) (ProtocolError ''audit record status is unsupported'')
     | JArr xs \<Rightarrow> Inl TypeError
     | JObj kvs \<Rightarrow> Inl TypeError
     | _ \<Rightarrow> Inl (ProtocolError ''audit record status is unsupported''))"

definition validate_endorsement :: "json \<Rightarrow> unit res" where
  "validate_endorsement v =
    (case v of
       JObj endorsement \<Rightarrow>
        bindE (guardE (keys_of endorsement = {lit ''endorser'', lit ''sig''})
                 (ProtocolError ''audit record endorsement is malformed'')) (\<lambda>_.
        bindE (guardE (case get_str endorsement (lit ''endorser'') of
                         Some s \<Rightarrow> s \<noteq> [] \<and> length s \<le> 8192 | None \<Rightarrow> False)
                 (ProtocolError ''audit record endorsement requires an endorser'')) (\<lambda>_.
        validate_signature (case map_of endorsement (lit ''sig'') of Some s \<Rightarrow> s | None \<Rightarrow> JNull)))
     | _ \<Rightarrow> Inl (ProtocolError ''audit record endorsement is malformed''))"

abbreviation get_or :: "obj \<Rightarrow> string \<Rightarrow> json \<Rightarrow> json" where
  "get_or d k v \<equiv> (case map_of d (lit k) of Some x \<Rightarrow> x | None \<Rightarrow> v)"

definition valid_name :: "str \<Rightarrow> bool" where
  "valid_name name \<longleftrightarrow> length name \<le> 128 \<and> IDENTIFIER name \<and> portable_component name"

definition validate_record :: "json \<Rightarrow> obj res" where
  "validate_record v =
    (case v of
       JObj record \<Rightarrow>
        bindE (guardE (keys_of record \<subseteq> record_fields)
                 (ProtocolError ''audit record contains unknown fields'')) (\<lambda>_.
        bindE (validate_hash_version record) (\<lambda>_.
        bindE (guardE (case get_str record (lit ''name'') of Some name \<Rightarrow> valid_name name | None \<Rightarrow> False)
                 (ProtocolError ''audit record name must be a portable identifier'')) (\<lambda>_.
        bindE (validate_source_identity (get_or record ''source_identity'' JNull)) (\<lambda>_.
        bindE (guardE (case get_str record (lit ''commit'') of Some c \<Rightarrow> COMMIT c | None \<Rightarrow> False)
                 (ProtocolError ''audit record commit must be a full lowercase object id'')) (\<lambda>_.
        bindE (guardE (case get_str record (lit ''content_sha256'') of Some h \<Rightarrow> SHA256 h | None \<Rightarrow> False)
                 (ProtocolError ''audit record content_sha256 is malformed'')) (\<lambda>_.
        bindE (check_status (get_or record ''status'' JNull)) (\<lambda>_.
        bindE (guardE (case get_or record ''audit'' (JObj []) of JObj a \<Rightarrow> True | _ \<Rightarrow> False)
                 (ProtocolError ''audit record audit must be an object'')) (\<lambda>_.
        bindE (validate_signature (get_or record ''sig'' JNull)) (\<lambda>_.
        bindE (case get_or record ''endorsements'' (JArr []) of
                 JArr endorsements \<Rightarrow> eachE validate_endorsement endorsements
               | _ \<Rightarrow> Inl (ProtocolError ''audit record endorsements must be an array'')) (\<lambda>_.
        bindE (canonicalize_validated (JObj record)) (\<lambda>_.
        Inr record)))))))))))
     | _ \<Rightarrow> Inl (ProtocolError ''audit record must be an object''))"

definition snapshot_fields :: "str set" where
  "snapshot_fields =
    {lit ''schema_version'', lit ''merkle_root'', lit ''log_size'', lit ''head'',
     lit ''version'', lit ''created_at'', lit ''sig''}"

definition validate_snapshot :: "json \<Rightarrow> obj res" where
  "validate_snapshot v =
    (case v of
       JObj snapshot \<Rightarrow>
        bindE (guardE (keys_of snapshot = snapshot_fields \<and>
                       (case map_of snapshot (lit ''schema_version'') of
                          Some s \<Rightarrow> py_eq_int s 1 | None \<Rightarrow> False))
                 (ProtocolError ''snapshot fields are malformed'')) (\<lambda>_.
        bindE (guardE (\<forall>field \<in> {lit ''merkle_root'', lit ''head''}.
                        (case get_str snapshot field of Some h \<Rightarrow> HEX256 h | None \<Rightarrow> False))
                 (ProtocolError ''snapshot hashes are malformed'')) (\<lambda>_.
        bindE (guardE (case (get_int snapshot (lit ''log_size''), get_int snapshot (lit ''version'')) of
                         (Some log_size, Some version) \<Rightarrow>
                           0 \<le> log_size \<and> log_size \<le> version \<and> version \<le> MAX_SAFE_INTEGER
                       | _ \<Rightarrow> False)
                 (ProtocolError ''snapshot sizes are malformed'')) (\<lambda>_.
        bindE (guardE (case get_str snapshot (lit ''created_at'') of Some t \<Rightarrow> TIMESTAMP t | None \<Rightarrow> False)
                 (ProtocolError ''snapshot timestamp is malformed'')) (\<lambda>_.
        bindE (validate_signature (get_or snapshot ''sig'' JNull)) (\<lambda>_.
        bindE (canonicalize_validated v) (\<lambda>_.
        Inr snapshot))))))
     | _ \<Rightarrow> Inl (ProtocolError ''snapshot must be an object''))"


section \<open>The depth scan measures nesting\<close>

abbreviation scan_from :: "nat \<Rightarrow> nat list \<Rightarrow> unit res" where
  "scan_from d \<equiv> check_json_depth d False False"

lemma scan_string_body:
  "check_json_depth d True False (concat (map esc_char s) @ 34 # r) = scan_from d r"
proof (induction s)
  case (Cons c s)
  have "check_json_depth d True False (esc_char c @ t) = check_json_depth d True False t" for t
    by (auto simp: esc_char_def hex_digit_def)
  with Cons show ?case by simp
qed simp

lemma scan_quote [simp]: "scan_from d (quote s @ r) = scan_from d r"
  by (simp add: quote_def scan_string_body)

definition inert :: "str \<Rightarrow> bool" where
  "inert s \<longleftrightarrow> (\<forall>c \<in> set s. c \<notin> {0x22, 0x7B, 0x5B, 0x7D, 0x5D})"

lemma scan_inert: "inert s \<Longrightarrow> scan_from d (s @ r) = scan_from d r"
  by (induction s) (auto simp: inert_def)

lemma inert_int_text: "inert (int_text i)"
  by (auto simp: inert_def int_text_def is_digit_def dest!: nat_text_digits split: if_splits)

lemma scan_join:
  assumes "\<And>x r. x \<in> set xs \<Longrightarrow> scan_from d (f x @ r) = (if bad x then Inl JSONDepthError else scan_from d r)"
  shows "scan_from d (join (map f xs) @ r) = (if \<exists>x \<in> set xs. bad x then Inl JSONDepthError else scan_from d r)"
  using assms
proof (induction xs)
  case (Cons x xs)
  then show ?case by (cases xs) simp_all
qed simp

lemma depth_room: "d \<le> M \<Longrightarrow> (M :: nat) < d + n \<longleftrightarrow> \<not> n \<le> M - d"
  by linarith

lemma json_depth_room:
  assumes "d \<le> M"
  shows "M < d + json_depth (JArr xs) \<longleftrightarrow> M < Suc d \<or> (\<exists>x \<in> set xs. M < Suc d + json_depth x)"
    and "M < d + json_depth (JObj kvs) \<longleftrightarrow> M < Suc d \<or> (\<exists>x \<in> set kvs. M < Suc d + json_depth (snd x))"
proof -
  have "(M < d + json_depth (JArr xs) \<longleftrightarrow> M < Suc d \<or> (\<exists>x \<in> set xs. M < Suc d + json_depth x))
    \<and> (M < d + json_depth (JObj kvs) \<longleftrightarrow> M < Suc d \<or> (\<exists>x \<in> set kvs. M < Suc d + json_depth (snd x)))"
  proof (cases "Suc d \<le> M")
    case True
    then show ?thesis
      unfolding depth_room [OF True] depth_room [OF assms] json_depth_JArr_le json_depth_JObj_le by fastforce
  next
    case False
    with assms show ?thesis by (simp add: json_depth.simps)
  qed
  then show "M < d + json_depth (JArr xs) \<longleftrightarrow> M < Suc d \<or> (\<exists>x \<in> set xs. M < Suc d + json_depth x)"
    "M < d + json_depth (JObj kvs) \<longleftrightarrow> M < Suc d \<or> (\<exists>x \<in> set kvs. M < Suc d + json_depth (snd x))"
    by blast+
qed

lemma scan_dumps:
  assumes "plain v" "d \<le> MAX_JSON_DEPTH"
  shows "scan_from d (dumps v @ r) =
    (if d + json_depth v > MAX_JSON_DEPTH then Inl JSONDepthError else scan_from d r)"
  using assms
proof (induction v arbitrary: d r)
  case (JArr xs)
  have "scan_from (Suc d) (join (map dumps xs) @ 93 # r) =
      (if \<exists>x \<in> set xs. Suc d + json_depth x > MAX_JSON_DEPTH then Inl JSONDepthError
       else scan_from (Suc d) (93 # r))" if "Suc d \<le> MAX_JSON_DEPTH"
    using JArr that by (intro scan_join) auto
  moreover have "d + json_depth (JArr xs) > MAX_JSON_DEPTH \<longleftrightarrow>
      Suc d > MAX_JSON_DEPTH \<or> (\<exists>x \<in> set xs. Suc d + json_depth x > MAX_JSON_DEPTH)"
    by (rule json_depth_room(1) [OF JArr.prems(2)])
  ultimately show ?case by auto
next
  case (JObj kvs)
  have "scan_from (Suc d) (join (map member_text kvs) @ 125 # r) =
      (if \<exists>x \<in> set kvs. Suc d + json_depth (snd x) > MAX_JSON_DEPTH then Inl JSONDepthError
       else scan_from (Suc d) (125 # r))" if "Suc d \<le> MAX_JSON_DEPTH"
    using JObj that by (intro scan_join) (fastforce simp: member_text_def)
  moreover have "d + json_depth (JObj kvs) > MAX_JSON_DEPTH \<longleftrightarrow>
      Suc d > MAX_JSON_DEPTH \<or> (\<exists>x \<in> set kvs. Suc d + json_depth (snd x) > MAX_JSON_DEPTH)"
    by (rule json_depth_room(2) [OF JObj.prems(2)])
  ultimately show ?case unfolding dumps_JObj by auto
next
  case (JBool b)
  then show ?case by (cases b) (auto simp: lit_def)
next
  case JNull
  then show ?case by (auto simp: lit_def)
next
  case (JInt i)
  then show ?case by (simp add: scan_inert inert_int_text)
qed simp_all

text \<open>Bytes of a multi-byte character never open or close anything, so both scans agree.\<close>

lemma scan_high:
  assumes "\<forall>b \<in> set bs. 128 \<le> b" "bs \<noteq> []"
  shows "check_json_depth d i e (bs @ r) = check_json_depth d i (\<not> i \<and> e) r"
  using assms
proof (induction bs arbitrary: e)
  case (Cons b bs)
  then show ?case by (cases "bs = []") auto
qed simp

lemma utf8_char_high: "128 \<le> c \<Longrightarrow> scalar c \<Longrightarrow> b \<in> set (utf8_char c) \<Longrightarrow> 128 \<le> unat b"
  by (auto simp: utf8_char_def scalar_def less_mult_imp_div_less split: if_splits)

lemma utf8_char_not_Nil [simp]: "utf8_char c \<noteq> []"
  by (simp add: utf8_char_def)

lemma scan_utf8:
  "\<forall>c \<in> set s. scalar c \<Longrightarrow>
   check_json_depth d i e (map unat (concat (map utf8_char s))) = check_json_depth d i e s"
proof (induction s arbitrary: d i e)
  case (Cons c s)
  show ?case
  proof (cases "c < 128")
    case True
    then have "map unat (concat (map utf8_char (c # s))) = c # map unat (concat (map utf8_char s))"
      by (simp add: utf8_char_def)
    with Cons show ?thesis by simp
  next
    case False
    with Cons utf8_char_high [of c] have "check_json_depth d i e (map unat (concat (map utf8_char (c # s))))
        = check_json_depth d i (\<not> i \<and> e) (map unat (concat (map utf8_char s)))"
      by (simp add: scan_high)
    with Cons False show ?thesis by auto
  qed
qed simp


section \<open>Reading canonical bytes back\<close>

lemma join_nonzero: "\<forall>x \<in> set xs. 0 \<notin> set x \<Longrightarrow> 0 \<notin> set (join xs)"
  by (induction xs rule: join.induct) auto

lemma hex_digit_nonzero [simp]: "0 < hex_digit n"
  by (simp add: hex_digit_def)

lemma quote_nonzero: "0 \<notin> set (quote k)"
proof -
  have "0 \<notin> set (esc_char c)" for c
    using hex_digit_nonzero by (simp add: esc_char_def)
  then show ?thesis by (simp add: quote_def)
qed

lemma dumps_nonzero: "plain v \<Longrightarrow> 0 \<notin> set (dumps v)"
proof (induction v)
  case (JArr xs)
  then show ?case using join_nonzero [of "map dumps xs"] by auto
next
  case (JObj kvs)
  have "0 \<notin> set (member_text kv)" if "kv \<in> set kvs" for kv
    using JObj.IH [OF that, of "snd kv"] JObj.prems that quote_nonzero
    by (cases kv) (auto simp: member_text_def)
  with JObj show ?case
    using join_nonzero [of "map member_text kvs"] unfolding dumps_JObj by auto
next
  case (JBool b)
  then show ?case by (cases b) (auto simp: lit_def)
next
  case (JInt i)
  then show ?case by (auto simp: int_text_def is_digit_def dest!: nat_text_digits split: if_splits)
next
  case (JStr s)
  then show ?case by (simp add: quote_nonzero)
qed (auto simp: lit_def)

lemma dumps_ascii_first: "plain v \<Longrightarrow> \<exists>c cs. dumps v = c # cs \<and> c < 128"
proof -
  have "\<exists>c cs. int_text i = c # cs \<and> c < 128" for i
    using int_text_first [of i] by (cases "int_text i") (auto simp: is_digit_def, auto simp: int_text_def split: if_splits)
  moreover have "\<exists>c cs. dumps (JBool b) = c # cs \<and> c < 128" for b
    by (cases b) (auto simp: lit_def)
  ultimately show "plain v \<Longrightarrow> ?thesis"
    by (cases v) (auto simp: lit_def quote_def Let_def)
qed

lemma utf8_char_nonzero: "scalar c \<Longrightarrow> c \<noteq> 0 \<Longrightarrow> 0 \<notin> set (utf8_char c)"
proof (cases "c < 128")
  case True
  moreover assume "c \<noteq> 0"
  ultimately have "unat (byte_of c) \<noteq> 0" by simp
  then have "byte_of c \<noteq> 0" by force
  with True show ?thesis by (simp add: utf8_char_def)
next
  case False
  moreover assume "scalar c"
  ultimately show ?thesis using utf8_char_high [of c 0] by fastforce
qed

lemma decode_document_utf8:
  assumes "s = c # cs" "c < 128" "0 \<notin> set s" "\<forall>c \<in> set s. scalar c"
  shows "decode_document (concat (map utf8_char s)) = Inr s"
    and "take 3 (concat (map utf8_char s)) \<noteq> [0xEF, 0xBB, 0xBF]"
proof -
  let ?b = "concat (map utf8_char s)"
  have nz: "0 \<notin> set ?b" using assms(3,4) utf8_char_nonzero by fastforce
  then have z: "\<not> (i < length ?b \<and> ?b ! i = 0)" for i by (metis nth_mem)
  have hd: "?b = byte_of c # concat (map utf8_char cs)" using assms(1,2) by (simp add: utf8_char_def)
  have "unat (byte_of c) < 128" using assms(2) by simp
  then have ne: "byte_of c \<noteq> 0xFF" "byte_of c \<noteq> 0xFE" "byte_of c \<noteq> 0xEF" by auto
  have "byte_of c \<noteq> 0" using nz by (auto simp: hd)
  then have "take 4 ?b \<noteq> [0, 0, 0xFE, 0xFF]" "take 4 ?b \<noteq> [0xFF, 0xFE, 0, 0]"
    "take 2 ?b \<noteq> [0xFE, 0xFF]" "take 2 ?b \<noteq> [0xFF, 0xFE]" and t3: "take 3 ?b \<noteq> [0xEF, 0xBB, 0xBF]"
    using ne by (auto simp: hd numeral_eq_Suc)
  with z have "decode_document ?b = utf8_decode ?b" by (simp only: decode_document_def Let_def if_False simp_thms)
  then show "decode_document ?b = Inr s" using utf8_decode_concat [OF assms(4)] by simp
  show "take 3 ?b \<noteq> [0xEF, 0xBB, 0xBF]" by (rule t3)
qed

lemma int_text_not_neg_zero: "int_text i \<noteq> lit ''-0''"
proof
  assume eq: "int_text i = lit ''-0''"
  then have neg: "i < 0" using int_text_first [of i]
    by (auto simp: int_text_def lit_def is_digit_def dest: arg_cong [of _ _ length] split: if_splits)
      (metis is_digit_def hd_nat_text list.sel(1) not_less numeral_le_iff semiring_norm)
  with eq have "nat_text (nat (- i)) = [48]" by (simp add: int_text_def lit_def)
  then have "nat_of_digits (nat_text (nat (- i))) = 0" by (simp add: nat_of_digits_def)
  with neg show False by simp
qed

lemma object_pairs_hook_distinct:
  "distinct (map fst (d @ kvs)) \<Longrightarrow> object_pairs_hook d kvs = Inr (JObj (d @ kvs))"
proof (induction kvs arbitrary: d)
  case (Cons kv kvs)
  obtain k v where kv: "kv = (k, v)" by force
  with Cons.prems have "k \<notin> fst ` set d" by auto
  then have "k \<notin> keys_of d" "AList.update k v d = d @ [(k, v)]" by (simp_all add: keys_of_def update_fresh)
  with Cons kv show ?case by simp
qed simp

lemma printable_protocol: "dict_ok v \<Longrightarrow> ccj_leaves v \<Longrightarrow> printable protocol_hooks v"
proof (induction v)
  case (JInt i)
  then show ?case
    using int_of_text_int_text [of i] safe_int_text [of i] int_text_not_neg_zero [of i]
    by (auto simp: protocol_hooks_def parse_integer_def)
next
  case (JObj kvs)
  then have "object_pairs protocol_hooks kvs = Inr (JObj kvs)"
    by (simp add: protocol_hooks_def object_pairs_hook_distinct)
  with JObj show ?case by (fastforce simp: list_all_iff ccj_iffs)
qed (fastforce simp: list_all_iff ccj_iffs)+

lemma load_canonical:
  assumes "dict_ok v" "canonical_document v = Inr b"
  shows "load_json b = Inr (sort_json v)"
proof -
  let ?t = "dumps (sort_json v)"
  have v: "json_depth v \<le> MAX_JSON_DEPTH" "ccj_leaves v"
    using assms by (simp_all add: canonical_document_Inr)
  have b: "b = concat (map utf8_char ?t)"
    using assms canonical_document_defined [OF assms(1) v] by (simp add: json_dumps_sorted)
  have ok: "dict_ok (sort_json v)" using assms(1) by (rule sort_json_dict_ok)
  have sc: "\<forall>c \<in> set ?t. scalar c" using dumps_scalar [OF ok] v by simp
  have pl: "plain (sort_json v)" using v by (simp add: ccj_leaves_plain)
  obtain c cs where "?t = c # cs" "c < 128" using dumps_ascii_first [OF pl] by blast
  from decode_document_utf8 [OF this dumps_nonzero [OF pl] sc]
  have dec: "decode_document b = Inr ?t" "take 3 b \<noteq> [0xEF, 0xBB, 0xBF]" by (simp_all add: b)
  have "check_json_depth 0 False False (map unat b) = Inr ()"
    using scan_utf8 [OF sc] scan_dumps [OF pl, of 0 "[]"] v by (simp add: b)
  moreover have "json_decode protocol_hooks ?t = Inr (sort_json v)"
    by (rule json_decode_dumps) (simp add: printable_protocol ok v)
  moreover have "\<exists>b'. canonical_document (sort_json v) = Inr b'"
    using canonical_document_defined [OF ok] v by simp
  ultimately show ?thesis using dec by (auto simp: load_json_def)
qed


section \<open>Parse failures are protocol errors\<close>

text \<open>Computations whose only failure is a decoding error, closed under the combinators used.\<close>

definition only_unicode :: "'a res \<Rightarrow> bool" where
  "only_unicode m \<longleftrightarrow> (\<forall>e. m = Inl e \<longrightarrow> e = UnicodeError)"

lemma only_unicode_intros:
  "only_unicode (Inl UnicodeError)"
  "only_unicode (Inr x)"
  "only_unicode m \<Longrightarrow> (\<And>x. only_unicode (f x)) \<Longrightarrow> only_unicode (bindE m f)"
  "only_unicode p \<Longrightarrow> only_unicode q \<Longrightarrow> only_unicode (if c then p else q)"
  by (auto simp: only_unicode_def bindE_Inl_iff)

lemma units16_error: "only_unicode (units16 le b)"
  by (induction le b rule: units16.induct) (auto intro: only_unicode_intros)

lemma utf32_decode_error: "only_unicode (utf32_decode le b)"
  by (induction le b rule: utf32_decode.induct) (auto simp: Let_def intro!: only_unicode_intros)

lemma utf8_decode_error: "only_unicode (utf8_decode b)"
proof (induction b rule: length_induct)
  case (1 b)
  then have IH: "only_unicode (utf8_decode r)" if "length r < length b" for r using that by blast
  show ?case
  proof (cases b)
    case (Cons x bs)
    consider "bs = []" | c1 where "bs = [c1]" | c1 c2 where "bs = [c1, c2]"
      | c1 c2 c3 r where "bs = c1 # c2 # c3 # r"
      by (metis list.exhaust)
    then show ?thesis
      by cases (simp add: Cons Let_def del: utf8_decode.simps(2);
        subst utf8_decode.simps(2);
        simp only: Let_def list.case;
        intro only_unicode_intros IH;
        simp add: Cons)+
  qed (simp add: only_unicode_def)
qed

lemma decode_document_error: "only_unicode (decode_document b)"
  unfolding decode_document_def utf16_decode_def Let_def
  by (intro only_unicode_intros units16_error utf32_decode_error utf8_decode_error)

lemma check_json_depth_error: "check_json_depth d i s raw = Inl e \<Longrightarrow> e = JSONDepthError"
  by (induction d i s raw rule: check_json_depth.induct) (auto split: if_splits)

definition hooks_raise :: "(exc \<Rightarrow> bool) \<Rightarrow> hooks \<Rightarrow> bool" where
  "hooks_raise P H \<longleftrightarrow>
    (\<forall>t e. parse_int H t = Inl e \<or> parse_float H t = Inl e \<or> parse_constant H t = Inl e \<longrightarrow> P e)
    \<and> (\<forall>ps e. object_pairs H ps = Inl e \<longrightarrow> P e) \<and> P JSONDecodeError \<and> P OutOfFuel"

lemma scan_string_error: "scan_string n s = Inl e \<Longrightarrow> e = JSONDecodeError \<or> e = OutOfFuel"
  by (induction n s rule: scan_string.induct)
    (auto simp: bindE_Inl_iff scan_escape_def Let_def split: if_splits option.splits list.splits)

lemma scan_scalar_error: "hooks_raise P H \<Longrightarrow> scan_scalar H s = Inl e \<Longrightarrow> P e"
  unfolding scan_scalar_def hooks_raise_def
  by (auto simp: bindE_Inl_iff split: option.splits if_splits)

lemma scan_error:
  assumes "hooks_raise P H"
  shows "scan_once H n s = Inl e \<Longrightarrow> P e"
    and "scan_members H n s = Inl e \<Longrightarrow> P e"
    and "scan_elements H n s = Inl e \<Longrightarrow> P e"
proof (induction n arbitrary: s e)
  case (Suc n)
  note H = assms [unfolded hooks_raise_def] and str = scan_string_error scan_scalar_error [OF assms]
  {
    case 1
    then show ?case using Suc H by (auto simp: bindE_Inl_iff split: if_splits dest: str)
  next
    case 2
    then show ?case using Suc H by (auto simp: bindE_Inl_iff split: if_splits dest: str)
  next
    case 3
    then show ?case using Suc H by (auto simp: bindE_Inl_iff split: if_splits)
  }
qed (use assms in \<open>simp_all add: hooks_raise_def\<close>)

lemma hooks_raise_protocol: "hooks_raise (\<lambda>e. is_ValueError e \<or> e = OutOfFuel) protocol_hooks"
proof -
  have "object_pairs_hook d ps = Inl e \<Longrightarrow> is_ValueError e" for d ps e
    by (induction d ps rule: object_pairs_hook.induct) (auto split: if_splits)
  then show ?thesis
    by (auto simp: hooks_raise_def protocol_hooks_def parse_integer_def reject_number_def
        int_of_text_def bindE_Inl_iff Let_def split: if_splits list.splits)
qed

lemma json_decode_protocol_error:
  assumes "json_decode protocol_hooks t = Inl e"
  shows "is_ValueError e"
proof -
  have "fuel_free protocol_hooks"
  proof -
    have "object_pairs_hook d ps \<noteq> Inl OutOfFuel" for d ps
      by (induction d ps rule: object_pairs_hook.induct) (auto split: if_splits)
    then show ?thesis
      by (auto simp: fuel_free_def protocol_hooks_def parse_integer_def reject_number_def
          int_of_text_def bindE_Inl_iff Let_def split: if_splits list.splits)
  qed
  then have "e \<noteq> OutOfFuel" using assms json_decode_fuel by blast
  moreover have "is_ValueError e \<or> e = OutOfFuel"
    using assms scan_error(1) [OF hooks_raise_protocol]
    by (auto simp: json_decode_def bindE_Inl_iff simp del: scan_once.simps split: if_splits)
  ultimately show ?thesis by simp
qed

lemma validate_ccj_error: "validate_ccj v d = Inl e \<Longrightarrow> is_ValueError e"
proof (induction v d rule: validate_ccj.induct)
  case (6 xs d)
  then show ?case by (auto dest!: eachE_Inl split: if_splits)
next
  case (7 kvs d)
  then show ?case by (auto simp: bindE_Inl_iff dest!: eachE_Inl split: if_splits)
qed auto

lemma canonical_document_error: "canonical_document v = Inl e \<Longrightarrow> is_ValueError e"
  by (auto simp: canonical_document_def bindE_Inl_iff utf8_encode_def split: if_splits dest: validate_ccj_error)

lemma load_error_protocol: "is_ValueError e \<Longrightarrow> is_ProtocolError (load_error e)"
  by (simp add: load_error_def)

lemma load_json_error:
  assumes "load_json raw = Inl e"
  shows "is_ProtocolError e"
proof (cases "take 3 raw = [0xEF, 0xBB, 0xBF]")
  case False
  with assms show ?thesis
    using decode_document_error [of raw]
    by (auto simp: load_json_def bindE_Inl_iff only_unicode_def
        intro!: load_error_protocol dest: check_json_depth_error json_decode_protocol_error canonical_document_error)
qed (use assms in \<open>auto simp: load_json_def\<close>)

lemma load_json_canonical:
  "load_json raw = Inr v \<Longrightarrow> \<exists>b. canonical_document v = Inr b"
  by (auto simp: load_json_def bindE_Inr_iff split: if_splits)


section \<open>What the validators establish\<close>

lemma bindE_unit_Inr_iff: "bindE (m :: 'e + unit) f = Inr y \<longleftrightarrow> m = Inr () \<and> f () = Inr y"
  by (auto simp: bindE_Inr_iff)

lemma validate_record_Inr:
  "validate_record v = Inr record \<longleftrightarrow>
    v = JObj record \<and> keys_of record \<subseteq> record_fields \<and> validate_hash_version record = Inr () \<and>
    (case get_str record (lit ''name'') of Some name \<Rightarrow> valid_name name | None \<Rightarrow> False) \<and>
    (\<exists>s. validate_source_identity (get_or record ''source_identity'' JNull) = Inr s) \<and>
    (case get_str record (lit ''commit'') of Some c \<Rightarrow> COMMIT c | None \<Rightarrow> False) \<and>
    (case get_str record (lit ''content_sha256'') of Some h \<Rightarrow> SHA256 h | None \<Rightarrow> False) \<and>
    check_status (get_or record ''status'' JNull) = Inr () \<and>
    (case get_or record ''audit'' (JObj []) of JObj a \<Rightarrow> True | _ \<Rightarrow> False) \<and>
    validate_signature (get_or record ''sig'' JNull) = Inr () \<and>
    (case get_or record ''endorsements'' (JArr []) of
       JArr endorsements \<Rightarrow> \<forall>e \<in> set endorsements. validate_endorsement e = Inr () | _ \<Rightarrow> False) \<and>
    (\<exists>b. canonical_document (JObj record) = Inr b)"
proof (cases v)
  case (JObj r)
  have "(case x of JArr es \<Rightarrow> eachE validate_endorsement es | _ \<Rightarrow> Inl e) = Inr () \<longleftrightarrow>
      (case x of JArr es \<Rightarrow> \<forall>e \<in> set es. validate_endorsement e = Inr () | _ \<Rightarrow> False)" for x e
    by (cases x) simp_all
  moreover have "canonicalize_validated (JObj record) = Inr () \<longleftrightarrow> (\<exists>b. canonical_document (JObj record) = Inr b)"
    by (simp add: canonicalize_validated_def bindE_Inr_iff)
  ultimately show ?thesis
    unfolding JObj validate_record_def json.case
    by (simp only: bindE_unit_Inr_iff guardE_Inr_iff bindE_Inr_iff sum.inject json.inject) blast
qed (simp_all add: validate_record_def)

lemma get_str_Some [simp]: "get_str d k = Some s \<longleftrightarrow> map_of d k = Some (JStr s)"
  by (auto simp: get_str_def split: option.splits json.splits)

lemma get_int_Some [simp]: "get_int d k = Some s \<longleftrightarrow> map_of d k = Some (JInt s)"
  by (auto simp: get_int_def split: option.splits json.splits)

lemma get_or_Some: "get_or d k JNull = x \<Longrightarrow> x \<noteq> JNull \<Longrightarrow> map_of d (lit k) = Some x"
  by (auto split: option.splits)

lemma validate_source_identity_Inr:
  "validate_source_identity v = Inr s \<longleftrightarrow>
    v = JStr s \<and> length s \<le> 4096 \<and>
    (\<exists>host path. s = host @ 47 # path \<and> 47 \<notin> set host \<and> HOST host \<and> portable_path path \<and>
      (\<forall>c \<in> set path. \<not> isspace c \<and> c \<notin> set (lit ''%?#'')))"
proof (cases v)
  case (JStr t)
  have split: "t = takeWhile (\<lambda>c. c \<noteq> 47) t @ dropWhile (\<lambda>c. c \<noteq> 47) t" by simp
  have rest: "dropWhile (\<lambda>c. c \<noteq> 47) t = [] \<or> dropWhile (\<lambda>c. c \<noteq> 47) t = 47 # tl (dropWhile (\<lambda>c. c \<noteq> 47) t)"
    by (metis (mono_tags, lifting) hd_dropWhile list.collapse)
  have uniq: "takeWhile (\<lambda>c. c \<noteq> 47) (host @ 47 # path) = host" "dropWhile (\<lambda>c. c \<noteq> 47) (host @ 47 # path) = 47 # path"
    if "47 \<notin> set host" for host path :: str
    using that by (induction host) auto
  show ?thesis
  proof
    assume "validate_source_identity v = Inr s"
    then have "t = s" "length t \<le> 4096" "dropWhile (\<lambda>c. c \<noteq> 47) t \<noteq> []" "HOST (takeWhile (\<lambda>c. c \<noteq> 47) t)"
      "portable_path (tl (dropWhile (\<lambda>c. c \<noteq> 47) t))"
      "\<forall>c \<in> set (tl (dropWhile (\<lambda>c. c \<noteq> 47) t)). \<not> isspace c \<and> c \<notin> set (lit ''%?#'')"
      by (auto simp: validate_source_identity_def JStr Let_def split: if_splits)
    moreover from this rest split have "t = takeWhile (\<lambda>c. c \<noteq> 47) t @ 47 # tl (dropWhile (\<lambda>c. c \<noteq> 47) t)"
      by metis
    moreover have "47 \<notin> set (takeWhile (\<lambda>c. c \<noteq> 47) t)" by (metis (mono_tags) set_takeWhileD)
    ultimately show "v = JStr s \<and> length s \<le> 4096 \<and>
      (\<exists>host path. s = host @ 47 # path \<and> 47 \<notin> set host \<and> HOST host \<and> portable_path path \<and>
        (\<forall>c \<in> set path. \<not> isspace c \<and> c \<notin> set (lit ''%?#'')))"
      using JStr by blast
  qed (auto simp: validate_source_identity_def uniq)
qed (simp_all add: validate_source_identity_def)

lemma validate_recordD:
  assumes "validate_record v = Inr record"
  shows "v = JObj record"
    and "\<exists>name. map_of record (lit ''name'') = Some (JStr name) \<and> valid_name name"
    and "\<exists>s. map_of record (lit ''source_identity'') = Some (JStr s) \<and> validate_source_identity (JStr s) = Inr s"
    and "\<exists>c. map_of record (lit ''commit'') = Some (JStr c) \<and> COMMIT c"
    and "\<exists>h. map_of record (lit ''content_sha256'') = Some (JStr h) \<and> SHA256 h"
    and "\<exists>s. map_of record (lit ''status'') = Some (JStr s) \<and> s \<in> STATUSES"
    and "\<exists>s. map_of record (lit ''sig'') = Some s \<and> validate_signature s = Inr ()"
    and "\<exists>b. canonical_document (JObj record) = Inr b"
proof -
  note r = assms [unfolded validate_record_Inr]
  from r show "v = JObj record" "\<exists>b. canonical_document (JObj record) = Inr b" by blast+
  from r show "\<exists>name. map_of record (lit ''name'') = Some (JStr name) \<and> valid_name name"
    "\<exists>c. map_of record (lit ''commit'') = Some (JStr c) \<and> COMMIT c"
    "\<exists>h. map_of record (lit ''content_sha256'') = Some (JStr h) \<and> SHA256 h"
    by (simp_all split: option.splits)
  from r obtain s where s: "validate_source_identity (get_or record ''source_identity'' JNull) = Inr s" by blast
  then have "get_or record ''source_identity'' JNull = JStr s" by (simp add: validate_source_identity_Inr)
  with s get_or_Some [OF this]
  show "\<exists>s. map_of record (lit ''source_identity'') = Some (JStr s) \<and> validate_source_identity (JStr s) = Inr s"
    by simp
  from r have "check_status (get_or record ''status'' JNull) = Inr ()" by blast
  then show "\<exists>s. map_of record (lit ''status'') = Some (JStr s) \<and> s \<in> STATUSES"
    by (auto simp: check_status_def split: json.splits option.splits)
  from r have "validate_signature (get_or record ''sig'' JNull) = Inr ()" by blast
  then show "\<exists>s. map_of record (lit ''sig'') = Some s \<and> validate_signature s = Inr ()"
    by (auto simp: validate_signature_def split: option.splits)
qed


section \<open>Portable paths\<close>

lemma split_on_not_Nil [simp]: "split_on c s \<noteq> []"
  by (induction s) (auto split: list.splits)

lemma split_on_none: "c \<notin> set w \<Longrightarrow> split_on c w = [w]"
  by (induction w) auto

lemma split_on_append: "split_on c (a @ c # b) = split_on c a @ split_on c b"
proof (induction a)
  case (Cons x a)
  then show ?case by (cases "split_on c a") auto
qed simp

lemma segment_of_path:
  assumes "host @ 47 # path @ [47] = pre @ 47 # w @ 47 # post" "47 \<notin> set host" "47 \<notin> set w"
  shows "w \<in> set (split_on 47 path)"
proof -
  have "split_on 47 (host @ 47 # path @ [47]) = host # split_on 47 path @ [[]]"
    using split_on_append [of 47 host "path @ [47]"] split_on_append [of 47 path "[]"]
    by (simp add: split_on_none assms(2))
  moreover have "split_on 47 (pre @ 47 # w @ 47 # post) = split_on 47 pre @ w # split_on 47 post"
    using split_on_append [of 47 pre "w @ 47 # post"] split_on_append [of 47 w post]
    by (simp add: split_on_none assms(3))
  ultimately have eq: "host # split_on 47 path @ [[]] = split_on 47 pre @ w # split_on 47 post"
    by (simp only: assms(1))
  obtain p ps where "split_on 47 pre = p # ps" by (cases "split_on 47 pre") simp_all
  moreover obtain qs q where "split_on 47 post = qs @ [q]" by (cases "split_on 47 post" rule: rev_cases) simp_all
  ultimately show ?thesis using eq by simp
qed

lemma source_identity_segments:
  assumes "validate_source_identity v = Inr s" "w \<in> {[], lit ''.'', lit ''..''}"
  shows "s @ [47] \<noteq> pre @ 47 # w @ 47 # post"
proof
  assume eq: "s @ [47] = pre @ 47 # w @ 47 # post"
  from assms(1) obtain host path where s: "s = host @ 47 # path" "47 \<notin> set host" "portable_path path"
    by (auto simp: validate_source_identity_Inr)
  have "47 \<notin> set w" using assms(2) by (auto simp: lit_def)
  with eq s have "w \<in> set (split_on 47 path)" by (intro segment_of_path [of host path pre w post]) simp_all
  then have "portable_component w" using s(3) by (auto simp: portable_path_def list_all_iff split: if_splits)
  then show False using assms(2) by (auto simp: portable_component_def)
qed


section \<open>Signing keeps a record valid\<close>

lemma hex_is_hex: "c \<in> set (hex b) \<Longrightarrow> is_hex c"
  using hex_chars [of c b] by (auto simp: is_hex_def is_digit_def)

lemma KEY_ID_key_id: "KEY_ID (key_id E k)"
  using hex_is_hex by (auto simp: KEY_ID_def key_id_def sha256_hex_def dest: in_set_takeD)

definition sig_envelope :: "'k ed25519 \<Rightarrow> 'k \<Rightarrow> bytes \<Rightarrow> json" where
  "sig_envelope E k m =
    JObj [(lit ''key_id'', JStr (key_id E k)), (lit ''algorithm'', JStr (lit ''ed25519'')),
          (lit ''signature'', JStr (sign E k m))]"

lemma sign_record_envelope:
  "sign_record E k body = Inr r \<longleftrightarrow>
    (\<exists>m. canonical_bytes body = Inr m \<and>
      r = AList.update (lit ''sig'') (sig_envelope E k m) (without (lit ''sig'') body))"
  by (simp add: sign_record_Inr sig_envelope_def)

lemma validate_signature_envelope:
  "ed25519_ok E \<Longrightarrow> validate_signature (sig_envelope E k m) = Inr ()"
  by (auto simp: validate_signature_def sig_envelope_def sig_fields_def get_str_def KEY_ID_key_id sign_def
      ed25519_ok_def insert_commute)

lemma key_id_ascii: "c \<in> set (key_id E k) \<Longrightarrow> c < 128"
  by (auto simp: key_id_def sha256_hex_def dest!: in_set_takeD hex_chars)

definition clean :: "str \<Rightarrow> bool" where
  "clean s \<longleftrightarrow> str_ok s \<and> (\<forall>c \<in> set s. \<not> surrogate c)"

lemma clean_low: "\<forall>c \<in> set s. c < 256 \<Longrightarrow> clean s"
  by (force simp: clean_def str_ok_def surrogate_def)

lemma clean_lit [simp]: "clean (lit x)"
  by (rule clean_low) (auto simp: lit_def nat_of_char_less_256)

lemma sig_envelope_clean: "clean (key_id E k)" "clean (sign E k m)"
  by (rule clean_low; force simp: sign_def dest!: key_id_ascii b64encode_ascii)+

lemma sig_envelope_ccj: "ccj_leaves (sig_envelope E k m)" "dict_ok (sig_envelope E k m)" "json_depth (sig_envelope E k m) = 1"
  using sig_envelope_clean [of E k] clean_lit
  by (simp_all add: sig_envelope_def ccj_leaves_JObj json_depth.simps clean_def)

lemma set_update_without:
  "set (AList.update k v (without k d)) = insert (k, v) {kv \<in> set d. fst kv \<noteq> k}"
proof -
  have "k \<notin> fst ` set (without k d)" by (auto simp: without_def)
  then show ?thesis by (auto simp: update_fresh) (auto simp: without_def)
qed

lemma map_fst_update_without:
  "distinct (map fst d) \<Longrightarrow> distinct (map fst (AList.update k v (without k d)))"
  by (simp add: distinct_update)

lemma validate_sign_record:
  assumes "ed25519_ok E" "dict_ok (JObj body)" "validate_record (JObj body) = Inr body" "sign_record E k body = Inr r"
  shows "validate_record (JObj r) = Inr r"
proof -
  from assms(4) obtain m where r: "r = AList.update (lit ''sig'') (sig_envelope E k m) (without (lit ''sig'') body)"
    by (auto simp: sign_record_envelope)
  have get: "map_of r (lit x) = (if x = ''sig'' then Some (sig_envelope E k m) else map_of body (lit x))" for x
    by (simp add: r update_conv')
  have keys: "keys_of r = insert (lit ''sig'') (keys_of body)" by (auto simp: r)
  have ccj: "json_depth (JObj body) \<le> MAX_JSON_DEPTH" "ccj_leaves (JObj body)"
    using validate_recordD(8) [OF assms(3)] assms(2) by (auto simp: canonical_document_Inr)
  have "dict_ok (JObj r)"
    using assms(2) map_fst_update_without [of body "lit ''sig''"] sig_envelope_ccj(2) [of E k m]
    by (auto simp: r set_update_without)
  moreover have "json_depth (JObj r) \<le> MAX_JSON_DEPTH" "ccj_leaves (JObj r)"
    using ccj sig_envelope_ccj [of E k m] clean_lit [of "''sig''"]
    by (auto simp: r json_depth_JObj_le ccj_leaves_JObj set_update_without clean_def MAX_JSON_DEPTH_def)
  ultimately have "\<exists>b. canonical_document (JObj r) = Inr b" using canonical_document_defined by blast
  moreover have "lit ''hash_version'' \<in> keys_of r \<longleftrightarrow> lit ''hash_version'' \<in> keys_of body"
    by (simp add: keys)
  then have "validate_hash_version r = validate_hash_version body"
    by (simp only: validate_hash_version_def get) simp
  ultimately show ?thesis
    using assms(3) validate_signature_envelope [OF assms(1), of k m]
    unfolding validate_record_Inr by (simp add: get get_str_def keys record_fields_def)
qed

end
