(* ===== verification/Merkle.thy ===== *)
theory Merkle
  imports Signing
begin

text \<open>
  The Merkle functions of \<open>store.py\<close>: the reference root over a whole log, the incremental
  frontier that an append updates with one node per level, and the recomputation of every
  prefix root. The reference tree doubles the last node of a level of odd length. The
  locale \<open>incremental\<close> states what an incremental accumulator owes its reference; the
  frontier is its instance, so \<open>_recompute_prefix\<close> inherits the prefix law.
\<close>


section \<open>Reference root\<close>

definition GENESIS :: str where
  "GENESIS = replicate 64 48"

definition merkle_pair_hash :: "bytes \<Rightarrow> bytes \<Rightarrow> bytes" where
  "merkle_pair_hash left right = sha256 (left @ right)"

text \<open>One pass of the \<open>for\<close> loop: the next level.\<close>

fun next_level :: "bytes list \<Rightarrow> bytes list" where
  "next_level [] = []"
| "next_level [left] = [merkle_pair_hash left left]"
| "next_level (left # right # level) = merkle_pair_hash left right # next_level level"

lemma length_next_level [simp]: "length (next_level xs) = (length xs + 1) div 2"
  by (induction xs rule: next_level.induct) auto

function merkle_reduce :: "bytes list \<Rightarrow> bytes list" where
  "merkle_reduce level = (if length level > 1 then merkle_reduce (next_level level) else level)"
  by pat_completeness auto
termination by (relation "measure length") auto

declare merkle_reduce.simps [simp del]

definition at0 :: "'a list \<Rightarrow> 'a res" where
  "at0 xs = (case xs of [] \<Rightarrow> Inl IndexError | x # _ \<Rightarrow> Inr x)"

definition merkle_root :: "str list \<Rightarrow> str res" where
  "merkle_root entry_hashes =
    (if entry_hashes = [] then Inr GENESIS
     else bindE (mapE fromhex entry_hashes) (\<lambda>level.
       bindE (at0 (merkle_reduce level)) (\<lambda>root. Inr (hex root))))"


section \<open>Frontier\<close>

record frontier_level =
  fl_length :: nat
  fl_tail :: "bytes list"

text \<open>
  \<open>climb\<close> is the \<open>while\<close> loop of \<open>_frontier_append\<close> at \<open>level_index\<close>: it returns the new
  \<open>frontier[level_index:]\<close> from the old one.
\<close>

fun climb :: "nat \<Rightarrow> nat \<Rightarrow> bytes list \<Rightarrow> frontier_level list \<Rightarrow> frontier_level list res" where
  "climb level_index lower_new_length lower_new_tail [] =
    (if lower_new_length \<le> 1 then Inr []
     else let upper_new_length = (lower_new_length + 1) div 2 in
       bindE (from_end (if lower_new_length mod 2 = 1 then 1 else 2) lower_new_tail) (\<lambda>left.
       bindE (from_end 1 lower_new_tail) (\<lambda>right.
         let new_last = merkle_pair_hash left right in
         if upper_new_length \<noteq> 1 then Inl (StoreIntegrityError ''merkle frontier is inconsistent'')
         else Inr [\<lparr>fl_length = 1, fl_tail = [new_last]\<rparr>])))"
| "climb level_index lower_new_length lower_new_tail (upper_old # upper) =
    (if lower_new_length \<le> 1 then Inr []
     else let upper_new_length = (lower_new_length + 1) div 2 in
       bindE (from_end (if lower_new_length mod 2 = 1 then 1 else 2) lower_new_tail) (\<lambda>left.
       bindE (from_end 1 lower_new_tail) (\<lambda>right.
         let new_last = merkle_pair_hash left right in
         if fl_length upper_old \<ge> 2 \<and> length (fl_tail upper_old) \<noteq> 2
         then Inl (StoreIntegrityError ''merkle frontier tail is incomplete'')
         else bindE
           (if upper_new_length = fl_length upper_old then
              (if fl_length upper_old = 1 then Inr [new_last]
               else bindE (from_end 2 (fl_tail upper_old)) (\<lambda>x. Inr [x, new_last]))
            else if upper_new_length = fl_length upper_old + 1 then
              (if upper_new_length = 1 then Inr [new_last]
               else bindE (from_end 1 (fl_tail upper_old)) (\<lambda>x. Inr [x, new_last]))
            else Inl (StoreIntegrityError ''merkle frontier is inconsistent'')) (\<lambda>new_tail.
              let entry = \<lparr>fl_length = upper_new_length, fl_tail = new_tail\<rparr> in
              if upper_new_length = 1 then Inr [entry]
              else if level_index + 1 > 64
              then Inl (StoreIntegrityError ''merkle frontier exceeds maximum depth'')
              else bindE (climb (level_index + 1) upper_new_length new_tail upper) (\<lambda>r.
                     Inr (entry # r))))))"

definition frontier_root :: "frontier_level list \<Rightarrow> bytes res" where
  "frontier_root frontier =
    (if frontier = [] then fromhex GENESIS else from_end 1 (fl_tail (last frontier)))"

definition frontier_append ::
  "frontier_level list \<Rightarrow> bytes \<Rightarrow> (frontier_level list \<times> bytes) res" where
  "frontier_append frontier leaf =
    (case frontier of
       [] \<Rightarrow> Inr ([\<lparr>fl_length = 1, fl_tail = [leaf]\<rparr>], leaf)
     | first # upper \<Rightarrow>
        bindE (if fl_length first = 1 then at0 (fl_tail first)
               else from_end 1 (fl_tail first)) (\<lambda>x.
          let lower_new_tail = [x, leaf]; n = fl_length first + 1 in
          bindE (climb 1 n lower_new_tail upper) (\<lambda>upper'.
            let frontier' = \<lparr>fl_length = n, fl_tail = lower_new_tail\<rparr> # upper' in
            bindE (from_end 1 (fl_tail (last frontier'))) (\<lambda>root. Inr (frontier', root)))))"

text \<open>\<open>leaves\<close> is \<open>(entry_hash, created_at)\<close> per sequence; the result carries \<open>(head, root, created_at)\<close>.\<close>

fun recompute_from ::
  "(str \<times> str \<times> str) list \<Rightarrow> frontier_level list \<Rightarrow> (str \<times> str) list \<Rightarrow>
   ((str \<times> str \<times> str) list \<times> frontier_level list) res" where
  "recompute_from expected frontier [] = Inr (expected, frontier)"
| "recompute_from expected frontier ((entry_hash, created_at) # leaves) =
    bindE (fromhex entry_hash) (\<lambda>leaf.
    bindE (frontier_append frontier leaf) (\<lambda>(frontier', root).
      recompute_from (expected @ [(entry_hash, hex root, created_at)]) frontier' leaves))"

definition recompute_prefix ::
  "(str \<times> str) list \<Rightarrow> ((str \<times> str \<times> str) list \<times> frontier_level list) res" where
  "recompute_prefix leaves = recompute_from [] [] leaves"


section \<open>Levels of the reference tree\<close>

text \<open>The specification: all levels of the tree over the leaves, and their lengths and last two nodes.\<close>

function tree_levels :: "bytes list \<Rightarrow> bytes list list" where
  "tree_levels xs = (if length xs > 1 then xs # tree_levels (next_level xs) else if xs = [] then [] else [xs])"
  by pat_completeness auto
termination by (relation "measure length") auto

declare tree_levels.simps [simp del]

definition level_summary :: "bytes list \<Rightarrow> frontier_level" where
  "level_summary level = \<lparr>fl_length = length level, fl_tail = last2 level\<rparr>"

definition frontier_of :: "bytes list \<Rightarrow> frontier_level list" where
  "frontier_of xs = map level_summary (tree_levels xs)"

definition root_of :: "bytes list \<Rightarrow> bytes" where
  "root_of xs = hd (merkle_reduce xs)"

lemma tree_single [simp]:
  "merkle_reduce [x] = [x]" "tree_levels [x] = [[x]]" "tree_levels [] = []"
  by (simp_all add: merkle_reduce.simps [of "[x]"] tree_levels.simps)

lemma next_level_not_Nil [simp]: "next_level xs = [] \<longleftrightarrow> xs = []"
  by (cases xs rule: next_level.cases) auto

lemma short_cases: "\<not> Suc 0 < length xs \<Longrightarrow> xs \<noteq> [] \<Longrightarrow> \<exists>x. xs = [x]"
  by (cases xs) auto

lemma merkle_reduce_length: "xs \<noteq> [] \<Longrightarrow> length (merkle_reduce xs) = 1"
proof (induction xs rule: merkle_reduce.induct)
  case (1 xs)
  then show ?case
    by (cases "length xs > 1") (auto simp: merkle_reduce.simps [of xs] dest: short_cases)
qed

lemma merkle_reduce_root: "xs \<noteq> [] \<Longrightarrow> merkle_reduce xs = [root_of xs]"
  using merkle_reduce_length [of xs] by (cases "merkle_reduce xs") (auto simp: root_of_def)

lemma last_tree_levels: "xs \<noteq> [] \<Longrightarrow> tree_levels xs \<noteq> [] \<and> last (tree_levels xs) = [root_of xs]"
proof (induction xs rule: tree_levels.induct)
  case (1 xs)
  show ?case
  proof (cases "length xs > 1")
    case True
    with 1 show ?thesis by (simp add: tree_levels.simps [of xs] root_of_def merkle_reduce.simps [of xs])
  qed (use 1 in \<open>auto simp: root_of_def dest: short_cases\<close>)
qed

lemma merkle_root_hex:
  assumes "xs \<noteq> []"
  shows "merkle_root (map hex xs) = Inr (hex (root_of xs))"
proof -
  have "mapE fromhex (map hex xs) = Inr (map (the_inv hex) (map hex xs))"
    by (rule mapE_map) (auto simp: the_inv_f_f inj_def)
  then have "mapE fromhex (map hex xs) = Inr xs"
    by (simp add: comp_def the_inv_f_f inj_def)
  with assms show ?thesis by (simp add: merkle_root_def merkle_reduce_root at0_def)
qed


section \<open>The frontier follows the tree\<close>

text \<open>
  One append changes a level by adding a node at its end or by replacing its last node;
  \<open>grows\<close> is that relation, and \<open>next_level\<close> preserves it.
\<close>

definition grows :: "bytes list \<Rightarrow> bytes list \<Rightarrow> bool" where
  "grows old new \<longleftrightarrow> old \<noteq> [] \<and> (\<exists>ys x. new = ys @ [x] \<and> (old = ys \<or> (\<exists>y. old = ys @ [y])))"

lemma next_level_even: "even (length xs) \<Longrightarrow> next_level (xs @ ys) = next_level xs @ next_level ys"
  by (induction xs rule: next_level.induct) auto

lemma next_level_snoc_even: "even (length xs) \<Longrightarrow> next_level (xs @ [x]) = next_level xs @ [merkle_pair_hash x x]"
  by (simp add: next_level_even)

lemma next_level_snoc_odd:
  "even (length xs) \<Longrightarrow> next_level (xs @ [y, x]) = next_level xs @ [merkle_pair_hash y x]"
  by (simp add: next_level_even)

lemma grows_next_level: "grows old new \<Longrightarrow> grows (next_level old) (next_level new)"
proof -
  assume "grows old new"
  then obtain ys x where old: "old \<noteq> []" and new: "new = ys @ [x]" and c: "old = ys \<or> (\<exists>y. old = ys @ [y])"
    by (auto simp: grows_def)
  show ?thesis
  proof (cases "even (length ys)")
    case True
    with c new old show ?thesis by (auto simp: grows_def next_level_snoc_even)
  next
    case False
    then obtain zs z where ys: "ys = zs @ [z]" by (cases ys rule: rev_cases) auto
    with False have "even (length zs)" by simp
    with c new old ys show ?thesis
      by (auto simp: grows_def next_level_snoc_even next_level_snoc_odd)
  qed
qed

lemma last_next_level:
  assumes "length new > 1"
  obtains left right where
    "from_end (if length new mod 2 = 1 then 1 else 2) (last2 new) = Inr left"
    "from_end 1 (last2 new) = Inr right"
    "merkle_pair_hash left right = last (next_level new)"
proof -
  from assms obtain ys y x where new: "new = ys @ [y, x]" by (cases new rule: last_two_cases) auto
  show ?thesis
  proof (cases "even (length ys)")
    case True
    then show ?thesis by (intro that [of y x]) (simp_all add: new next_level_snoc_odd from_end_def)
  next
    case False
    then have "next_level new = next_level (ys @ [y]) @ [merkle_pair_hash x x]"
      using next_level_snoc_even [of "ys @ [y]" x] by (simp add: new)
    with False show ?thesis
      by (intro that [of x x]) (simp_all add: new from_end_def odd_iff_mod_2_eq_one)
  qed
qed

lemma frontier_of_long: "length xs > 1 \<Longrightarrow> frontier_of xs = level_summary xs # frontier_of (next_level xs)"
  by (simp add: frontier_of_def tree_levels.simps [of xs])

lemma frontier_of_short [simp]: "frontier_of [] = []" "frontier_of [x] = [\<lparr>fl_length = 1, fl_tail = [x]\<rparr>]"
  by (simp_all add: frontier_of_def level_summary_def)

lemma frontier_of_Cons: "xs \<noteq> [] \<Longrightarrow> frontier_of xs = level_summary xs # tl (frontier_of xs)"
  by (cases "length xs > 1") (auto simp: frontier_of_long level_summary_def dest: short_cases)

lemma new_tail:
  assumes "grows old new"
  shows "(if length new = length old then
            (if length old = 1 then Inr [last new] else bindE (from_end 2 (last2 old)) (\<lambda>x. Inr [x, last new]))
          else if length new = length old + 1 then
            (if length new = 1 then Inr [last new] else bindE (from_end 1 (last2 old)) (\<lambda>x. Inr [x, last new]))
          else Inl e) = Inr (last2 new)"
proof -
  from assms obtain ys x where old: "old \<noteq> []" and new: "new = ys @ [x]" and c: "old = ys \<or> (\<exists>y. old = ys @ [y])"
    by (auto simp: grows_def)
  show ?thesis
  proof (cases ys rule: rev_cases)
    case Nil
    with c new old show ?thesis by auto
  next
    case ys: (snoc zs z)
    have "from_end (Suc 0) (last2 (zs @ [z])) = Inr z" by (simp add: from_end_last)
    with c show ?thesis by (elim disjE exE) (simp_all add: new ys from_end_def)
  qed
qed

lemma climb_step:
  assumes "grows old new" "length new > 1"
  shows "climb li (length new) (last2 new) (level_summary (next_level old) # up) =
    (if length (next_level new) = 1 then Inr [level_summary (next_level new)]
     else if li + 1 > 64 then Inl (StoreIntegrityError ''merkle frontier exceeds maximum depth'')
     else bindE (climb (li + 1) (length (next_level new)) (last2 (next_level new)) up)
            (\<lambda>r. Inr (level_summary (next_level new) # r)))"
proof -
  let ?P = "next_level old" and ?Q = "next_level new"
  obtain left right where lr: "from_end (if length new mod 2 = 1 then 1 else 2) (last2 new) = Inr left"
    "from_end 1 (last2 new) = Inr right" "merkle_pair_hash left right = last ?Q"
    using last_next_level [OF assms(2)] .
  have len: "(length new + 1) div 2 = length ?Q" by simp
  have two: "\<not> (fl_length (level_summary ?P) \<ge> 2 \<and> length (fl_tail (level_summary ?P)) \<noteq> 2)"
    by (simp add: level_summary_def last2_def)
  have sel: "fl_length (level_summary ?P) = length ?P" "fl_tail (level_summary ?P) = last2 ?P"
    by (simp_all add: level_summary_def)
  have "\<not> length new \<le> 1" using assms(2) by simp
  then show ?thesis
    by (simp only: climb.simps Let_def if_False len lr bindE_simps two;
        simp only: sel new_tail [OF grows_next_level [OF assms(1)]] bindE_simps;
        simp only: level_summary_def)
qed

lemma climb_frontier:
  assumes "grows old new" "length new \<le> 2 ^ k" "li + k = 65"
  shows "climb li (length new) (last2 new) (tl (frontier_of old)) = Inr (tl (frontier_of new))"
  using assms
proof (induction k arbitrary: li old new)
  case 0
  then have "length new \<le> 1" by simp
  moreover from 0 have "length old \<le> length new" by (auto simp: grows_def)
  ultimately have "tl (frontier_of old) = []" "tl (frontier_of new) = []"
    using 0 short_cases [of old] short_cases [of new] by (auto simp: grows_def)
  then show ?case using \<open>length new \<le> 1\<close> by simp
next
  case (Suc k)
  let ?P = "next_level old" and ?Q = "next_level new"
  have g: "grows ?P ?Q" by (rule grows_next_level [OF Suc.prems(1)])
  have ne: "new \<noteq> []" "old \<noteq> []" using Suc.prems(1) by (auto simp: grows_def)
  consider "length new \<le> 1" | "length new > 1" "length old \<le> 1" | "length new > 1" "length old > 1" by linarith
  then show ?case
  proof cases
    case 1
    then show ?thesis using ne short_cases [of new] by (cases "tl (frontier_of old)") auto
  next
    case 2
    then obtain x where x: "old = [x]" using ne short_cases [of old] by auto
    then have two: "length new = 2" using Suc.prems(1) 2 by (auto simp: grows_def)
    then obtain q where q: "?Q = [q]" using length_next_level [of new] by (cases ?Q) auto
    obtain left right where lr: "from_end (if length new mod 2 = 1 then 1 else 2) (last2 new) = Inr left"
      "from_end 1 (last2 new) = Inr right" "merkle_pair_hash left right = q"
      using last_next_level [OF 2(1)] q by auto
    then show ?thesis using 2 two q x by (simp add: frontier_of_long)
  next
    case 3
    let ?fP = "tl (frontier_of ?P)" and ?fQ = "tl (frontier_of ?Q)"
    have IH: "climb (li + 1) (length ?Q) (last2 ?Q) ?fP = Inr ?fQ"
      using Suc.prems 3 by (intro Suc.IH [OF g]) auto
    have li: "\<not> 64 < li + 1" if "length ?Q \<noteq> 1" using that Suc.prems 3 by (cases k) auto
    have Q: "frontier_of ?Q = level_summary ?Q # ?fQ" and P: "frontier_of ?P = level_summary ?P # ?fP"
      using ne by (intro frontier_of_Cons; simp)+
    have "?fQ = []" if "length ?Q = 1"
      using that ne short_cases [of ?Q] by (auto simp: level_summary_def simp del: length_next_level)
    then have "climb li (length new) (last2 new) (level_summary ?P # ?fP) = Inr (level_summary ?Q # ?fQ)"
      using li unfolding climb_step [OF Suc.prems(1) 3(1)] IH bindE_simps by (auto simp del: length_next_level)
    moreover have "tl (frontier_of old) = level_summary ?P # ?fP" using 3 P by (simp only: frontier_of_long list.sel)
    moreover have "tl (frontier_of new) = level_summary ?Q # ?fQ" using 3 Q by (simp only: frontier_of_long list.sel)
    ultimately show ?thesis by (simp only:)
  qed
qed

lemma last_frontier_of:
  "xs \<noteq> [] \<Longrightarrow> frontier_of xs \<noteq> [] \<and> from_end 1 (fl_tail (last (frontier_of xs))) = Inr (root_of xs)"
  using last_tree_levels [of xs]
  by (simp add: frontier_of_def last_map level_summary_def from_end_def)

theorem frontier_append_snoc:
  assumes "length xs < 2 ^ 64"
  shows "frontier_append (frontier_of xs) x = Inr (frontier_of (xs @ [x]), root_of (xs @ [x]))"
proof (cases "xs = []")
  case True
  then show ?thesis by (simp add: frontier_append_def root_of_def)
next
  case False
  then have g: "grows xs (xs @ [x])" by (auto simp: grows_def)
  have "climb 1 (length (xs @ [x])) (last2 (xs @ [x])) (tl (frontier_of xs)) = Inr (tl (frontier_of (xs @ [x])))"
    by (rule climb_frontier [OF g, of 64]) (use assms in auto)
  moreover have "(if length xs = 1 then at0 (last2 xs) else from_end 1 (last2 xs)) = Inr (last xs)"
    by (rule last_two_cases [of xs]) (use False in \<open>auto simp: at0_def from_end_def\<close>)
  moreover have "last2 (xs @ [x]) = [last xs, x]"
    using False by (cases xs rule: rev_cases) simp_all
  moreover obtain fs where "frontier_of xs = level_summary xs # fs" using frontier_of_Cons [OF False] by blast
  moreover obtain fs' where "frontier_of (xs @ [x]) = level_summary (xs @ [x]) # fs'"
    using frontier_of_Cons [of "xs @ [x]"] by blast
  ultimately show ?thesis
    using last_frontier_of [of "xs @ [x]"]
    by (cases "length xs = 1") (simp_all add: frontier_append_def level_summary_def)
qed


section \<open>Incremental accumulators\<close>

text \<open>
  The contract between an incremental accumulator and its reference: pushing one item onto
  the state of a list gives the state of the extended list and the result for it, as long
  as the extended length stays within the accumulator's capacity.
\<close>

locale incremental =
  fixes push :: "'s \<Rightarrow> 'x \<Rightarrow> ('s \<times> 'r) res"
    and start :: 's
    and state_of :: "'x list \<Rightarrow> 's"
    and result_of :: "'x list \<Rightarrow> 'r"
    and capacity :: nat
  assumes state_start: "state_of [] = start"
    and push_state: "length xs < capacity \<Longrightarrow> push (state_of xs) x = Inr (state_of (xs @ [x]), result_of (xs @ [x]))"
begin

fun pushes :: "'s \<Rightarrow> 'x list \<Rightarrow> ('r list \<times> 's) res" where
  "pushes s [] = Inr ([], s)"
| "pushes s (x # xs) = bindE (push s x) (\<lambda>(s', r). bindE (pushes s' xs) (\<lambda>(rs, s''). Inr (r # rs, s'')))"

lemma pushes_from:
  "length (xs @ ys) \<le> capacity \<Longrightarrow>
   pushes (state_of xs) ys = Inr (map (\<lambda>i. result_of (take i (xs @ ys))) [length xs + 1..<length (xs @ ys) + 1], state_of (xs @ ys))"
proof (induction ys arbitrary: xs)
  case (Cons y ys)
  have "pushes (state_of (xs @ [y])) ys =
      Inr (map (\<lambda>i. result_of (take i (xs @ y # ys))) [length xs + 2..<length (xs @ y # ys) + 1], state_of (xs @ y # ys))"
    using Cons.IH [of "xs @ [y]"] Cons.prems by simp
  moreover have "push (state_of xs) y = Inr (state_of (xs @ [y]), result_of (xs @ [y]))"
    using Cons.prems by (intro push_state) simp
  moreover have "[length xs + 1..<length (xs @ y # ys) + 1] = (length xs + 1) # [length xs + 2..<length (xs @ y # ys) + 1]"
    by (simp add: upt_rec)
  ultimately show ?case by simp
qed simp

lemma pushes_all:
  "length ys \<le> capacity \<Longrightarrow>
   pushes start ys = Inr (map (\<lambda>i. result_of (take i ys)) [1..<length ys + 1], state_of ys)"
  using pushes_from [of "[]" ys] by (simp add: state_start)

end

interpretation merkle: incremental frontier_append "[]" frontier_of root_of "2 ^ 64"
  by unfold_locales (simp_all add: frontier_append_snoc)

lemma recompute_from_pushes:
  "recompute_from expected frontier (zip (map hex xs) ts) =
    bindE (merkle.pushes frontier (take (length ts) xs)) (\<lambda>(rs, frontier').
      Inr (expected @ zip (map hex xs) (zip (map hex rs) ts), frontier'))"
proof (induction xs arbitrary: expected frontier ts)
  case (Cons x xs)
  show ?case
  proof (cases ts)
    case (Cons t ts')
    show ?thesis
      by (cases "frontier_append frontier x")
        (auto simp: Cons Cons.IH bindE_assoc case_prod_beta split: sum.splits)
  qed simp
qed simp

theorem recompute_prefix_roots:
  assumes "length xs \<le> 2 ^ 64" "length ts = length xs"
  shows "recompute_prefix (zip (map hex xs) ts) =
    Inr (map (\<lambda>i. (hex (xs ! i), hex (root_of (take (i + 1) xs)), ts ! i)) [0..<length xs], frontier_of xs)"
proof -
  have "zip (map hex xs) (zip (map hex (map (\<lambda>i. root_of (take i xs)) [1..<length xs + 1])) ts) =
      map (\<lambda>i. (hex (xs ! i), hex (root_of (take (i + 1) xs)), ts ! i)) [0..<length xs]"
    by (rule nth_equalityI) (simp_all add: assms(2) nth_append del: upt_Suc)
  then show ?thesis
    unfolding recompute_prefix_def recompute_from_pushes
    using merkle.pushes_all [OF assms(1)] by (simp add: assms(2))
qed

end
