(* ===== verification/StoreState.thy ===== *)
theory StoreState
  imports Protocol Merkle
begin

text \<open>
  The state of \<open>store.py\<close>: the SQLite tables as typed records, the in-memory health verdict,
  and the primitives every operation uses (transactions, the integrity latch, the stored
  Merkle frontier, timestamps, import fingerprints).

  A table is the list of its rows in rowid order. \<open>log.seq\<close>, \<open>boundaries.log_size\<close> and
  \<open>merkle_frontier.level\<close> are integer primary keys, hence rowids: \<open>ORDER BY\<close> them is the
  identity on the list. Text columns hold strings and integer columns integers, the types
  the code reads back through \<open>str\<close> and \<open>int\<close>. The monotonic clock is a rational number that
  each operation receives once.
\<close>


section \<open>Rows and values\<close>

record log_row =
  l_seq :: int
  l_entry_hash :: str
  l_prev_hash :: str
  l_name :: str
  l_source_identity :: str
  l_commit_hash :: str
  l_content_sha256 :: str
  l_status :: str
  l_record_json :: str
  l_created_at :: str

record frontier_row =
  f_level :: int
  f_len :: int
  f_tail :: str

record boundary_row =
  b_log_size :: int
  b_head :: str
  b_merkle_root :: str
  b_created_at :: str

record idempotency_row =
  i_auditor_id :: str
  i_key :: str
  i_body_sha256 :: str
  i_response_json :: str
  i_seq :: int
  i_expires_at :: int

record imported_row =
  m_fingerprint :: str
  m_imported_at :: str
  m_seq :: "int option"

record upstream_high_water =
  hw_key_id :: str
  hw_version :: int
  hw_log_size :: int
  hw_head :: str
  hw_merkle_root :: str
  hw_updated_at :: str

text \<open>\<open>db_log_sequence\<close> is the row of \<open>log\<close> in \<open>sqlite_sequence\<close>, the \<open>AUTOINCREMENT\<close> counter.\<close>

record db =
  db_log :: "log_row list"
  db_log_sequence :: int
  db_metadata :: "str dict"
  db_imported :: "imported_row list"
  db_boundaries :: "boundary_row list"
  db_frontier :: "frontier_row list"
  db_high_water :: "upstream_high_water list"
  db_idempotency :: "idempotency_row list"

record log_entry =
  e_seq :: int
  e_entry_hash :: str
  e_prev_hash :: str
  e_record :: obj

record snapshot_boundary =
  sb_version :: int
  sb_log_size :: int
  sb_head :: str
  sb_merkle_root :: str
  sb_created_at :: str

definition boundary_as_dict :: "snapshot_boundary \<Rightarrow> obj" where
  "boundary_as_dict b =
    [(lit ''version'', JInt (sb_version b)), (lit ''log_size'', JInt (sb_log_size b)),
     (lit ''head'', JStr (sb_head b)), (lit ''merkle_root'', JStr (sb_merkle_root b)),
     (lit ''created_at'', JStr (sb_created_at b))]"

definition hex256 :: "str \<Rightarrow> bool" where
  "hex256 v \<longleftrightarrow> length v = 64 \<and> (\<forall>c \<in> set v. c \<in> set (lit ''0123456789abcdef''))"

definition boundary_from_dict :: "json \<Rightarrow> snapshot_boundary res" where
  "boundary_from_dict v =
    (case v of
       JObj d \<Rightarrow>
        (if keys_of d \<noteq> {lit ''version'', lit ''log_size'', lit ''head'', lit ''merkle_root'', lit ''created_at''}
         then Inl (ValueError ''snapshot boundary is malformed'')
         else case (get_int d (lit ''version''), get_int d (lit ''log_size''), get_str d (lit ''head''),
                    get_str d (lit ''merkle_root''), get_str d (lit ''created_at'')) of
           (Some version, Some log_size, Some head, Some mroot, Some created_at) \<Rightarrow>
             (if version \<noteq> log_size \<or> version < 0 \<or> \<not> hex256 head \<or> \<not> hex256 mroot \<or> created_at = []
              then Inl (ValueError ''snapshot boundary is malformed'')
              else Inr \<lparr>sb_version = version, sb_log_size = log_size, sb_head = head,
                        sb_merkle_root = mroot, sb_created_at = created_at\<rparr>)
         | _ \<Rightarrow> Inl (ValueError ''snapshot boundary is malformed''))
     | _ \<Rightarrow> Inl (ValueError ''snapshot boundary is malformed''))"

definition high_water_as_dict :: "upstream_high_water \<Rightarrow> obj" where
  "high_water_as_dict w =
    [(lit ''key_id'', JStr (hw_key_id w)), (lit ''version'', JInt (hw_version w)),
     (lit ''log_size'', JInt (hw_log_size w)), (lit ''head'', JStr (hw_head w)),
     (lit ''merkle_root'', JStr (hw_merkle_root w)), (lit ''updated_at'', JStr (hw_updated_at w))]"

definition upstream_offer_diagnostic :: "upstream_high_water \<Rightarrow> upstream_high_water \<Rightarrow> string option" where
  "upstream_offer_diagnostic current offered =
    (if hw_version offered < hw_version current then Some ''import_upstream_rollback''
     else if hw_version offered = hw_version current \<and>
             (hw_head offered \<noteq> hw_head current \<or> hw_merkle_root offered \<noteq> hw_merkle_root current \<or>
              hw_log_size offered \<noteq> hw_log_size current)
     then Some ''import_upstream_inconsistent''
     else None)"

datatype import_outcome = advanced | noop | accepted_older

record upstream_import_result =
  r_imported :: nat
  r_persisted :: "upstream_high_water option"
  r_outcome :: import_outcome


section \<open>Health\<close>

text \<open>
  A problem the verification reports: its fixed text and the sequence or size it names. The
  cached error is one latched message or the list of problems that \<open>"; ".join\<close> prints.
\<close>

datatype issue = Issue string "int option"

datatype health_error = Message string | Issues "issue list"

record verdict =
  v_ready :: bool
  v_head :: str
  v_log_size :: int
  v_at :: str
  v_error :: "health_error option"
  v_code :: string

record store =
  st_db :: db
  health_ready :: bool
  health_verified_head :: str
  health_verified_log_size :: int
  health_verified_at :: str
  health_error :: "health_error option"
  health_code :: string
  health_last_refresh :: rat
  integrity_failed :: bool
  health_verify_interval :: rat

definition health_stale :: "store \<Rightarrow> rat \<Rightarrow> bool" where
  "health_stale s now \<longleftrightarrow> now - health_last_refresh s > health_verify_interval s * 2"

definition health_verdict :: "rat \<Rightarrow> store \<Rightarrow> verdict" where
  "health_verdict now s =
    (let base = \<lparr>v_ready = False, v_head = health_verified_head s, v_log_size = health_verified_log_size s,
                 v_at = health_verified_at s, v_error = health_error s, v_code = health_code s\<rparr>
     in if \<not> health_ready s then base
        else if health_stale s now
        then base\<lparr>v_error := Some (Message ''registry integrity verification is stale''), v_code := ''not_ready''\<rparr>
        else base\<lparr>v_ready := True, v_error := None, v_code := ''not_ready''\<rparr>)"

definition require_writes_allowed :: "rat \<Rightarrow> store \<Rightarrow> unit res" where
  "require_writes_allowed now s =
    (if integrity_failed s \<or> \<not> health_ready s
     then Inl (StoreIntegrityError ''registry integrity verification failed; restart to re-verify'')
     else if health_stale s now then Inl (StoreIntegrityError ''registry integrity verification is stale'')
     else Inr ())"

definition latch_integrity_failure :: "rat \<Rightarrow> string \<Rightarrow> store \<Rightarrow> store" where
  "latch_integrity_failure now error s =
    (if integrity_failed s then s
     else s\<lparr>integrity_failed := True, health_ready := False,
            health_error := Some (Message error), health_last_refresh := now\<rparr>)"


section \<open>Transactions\<close>

text \<open>
  The body of a write transaction either returns a value and the new tables, raises, or
  fails an append: \<open>_fail_append_locked\<close> latches the failure in memory before it raises.
  Either way the tables roll back, while the latch stays.
\<close>

datatype abort = Raise exc | FailAppend string

type_synonym 'a tx = "abort + 'a \<times> db"

definition raising :: "'a res \<Rightarrow> abort + 'a" where
  "raising m = (case m of Inl e \<Rightarrow> Inl (Raise e) | Inr x \<Rightarrow> Inr x)"

text \<open>\<open>except StoreIntegrityError as exc: self._fail_append_locked(str(exc))\<close>\<close>

definition failing :: "'a res \<Rightarrow> abort + 'a" where
  "failing m =
    (case m of
       Inl (StoreIntegrityError message) \<Rightarrow> Inl (FailAppend message)
     | Inl e \<Rightarrow> Inl (Raise e)
     | Inr x \<Rightarrow> Inr x)"

definition write_transaction :: "rat \<Rightarrow> (db \<Rightarrow> 'a tx) \<Rightarrow> store \<Rightarrow> 'a res \<times> store" where
  "write_transaction now body s =
    (case body (st_db s) of
       Inr (x, d) \<Rightarrow> (Inr x, s\<lparr>st_db := d\<rparr>)
     | Inl (Raise e) \<Rightarrow> (Inl e, s)
     | Inl (FailAppend error) \<Rightarrow> (Inl (StoreIntegrityError error), latch_integrity_failure now error s))"

lemma raising_simps [simp]:
  "raising (Inl e) = Inl (Raise e)"
  "raising (Inr x) = Inr x"
  "raising m = Inr y \<longleftrightarrow> m = Inr y"
  by (auto simp: raising_def split: sum.splits)

lemma failing_simps [simp]:
  "failing (Inr x) = Inr x"
  "failing m = Inr y \<longleftrightarrow> m = Inr y"
  by (auto simp: failing_def split: sum.splits exc.splits)


section \<open>Text checks\<close>

definition days_in_month :: "nat \<Rightarrow> nat \<Rightarrow> nat" where
  "days_in_month y m =
    (if m = 2 then (if y mod 4 = 0 \<and> (y mod 100 \<noteq> 0 \<or> y mod 400 = 0) then 29 else 28)
     else if m \<in> {4, 6, 9, 11} then 30 else 31)"

text \<open>
  \<open>strptime\<close> with \<open>%Y-%m-%dT%H:%M:%SZ\<close>, followed by the comparison with \<open>isoformat()\<close>: the fixed
  digit layout with a date of the Gregorian calendar in the years 1 to 9999.
\<close>

definition timestamp :: "str \<Rightarrow> bool" where
  "timestamp v \<longleftrightarrow>
    TIMESTAMP v \<and>
    (let field = (\<lambda>i n. nat_of_digits (take n (drop i v)));
         y = field 0 4; mo = field 5 2; d = field 8 2; h = field 11 2; mi = field 14 2; s = field 17 2
     in 1 \<le> y \<and> 1 \<le> mo \<and> mo \<le> 12 \<and> 1 \<le> d \<and> d \<le> days_in_month y mo \<and> h \<le> 23 \<and> mi \<le> 59 \<and> s \<le> 59)"

text \<open>The first \<open>upstream-import\<close> endorsement with a textual signature.\<close>

fun import_signature :: "json list \<Rightarrow> json" where
  "import_signature [] = JNull"
| "import_signature (e # es) =
    (case e of
       JObj endorsement \<Rightarrow>
        (if map_of endorsement (lit ''endorser'') \<noteq> Some (JStr (lit ''upstream-import''))
         then import_signature es
         else case map_of endorsement (lit ''sig'') of
           Some (JObj envelope) \<Rightarrow>
            (case map_of envelope (lit ''signature'') of
               Some (JStr s) \<Rightarrow> JStr s | _ \<Rightarrow> import_signature es)
         | _ \<Rightarrow> import_signature es)
     | _ \<Rightarrow> import_signature es)"

definition nonempty_text :: "json \<Rightarrow> bool" where
  "nonempty_text v \<longleftrightarrow> (case v of JStr s \<Rightarrow> s \<noteq> [] | _ \<Rightarrow> False)"

definition import_fingerprint :: "json \<Rightarrow> str option res" where
  "import_fingerprint v =
    (case v of
       JObj record \<Rightarrow>
        (case map_of record (lit ''endorsements'') of
           Some (JArr endorsements) \<Rightarrow>
            (let fields = [get_or record ''source_identity'' JNull, get_or record ''commit'' JNull,
                           get_or record ''content_sha256'' JNull, get_or record ''status'' JNull,
                           import_signature endorsements]
             in if \<not> list_all nonempty_text fields then Inr None
                else bindE (utf8_encode (json_dumps False (JArr fields))) (\<lambda>payload.
                       Inr (Some (sha256_hex payload))))
         | _ \<Rightarrow> Inr None)
     | _ \<Rightarrow> Inr None)"


section \<open>The stored frontier\<close>

definition tail_text :: "bytes list \<Rightarrow> str" where
  "tail_text t = json_dumps False (JArr (map (\<lambda>item. JStr (hex item)) t))"

definition save_frontier :: "frontier_level list \<Rightarrow> db \<Rightarrow> db" where
  "save_frontier frontier d =
    d\<lparr>db_frontier := map (\<lambda>(level, entry).
         \<lparr>f_level = int level, f_len = int (fl_length entry), f_tail = tail_text (fl_tail entry)\<rparr>)
       (enumerate 0 frontier)\<rparr>"

definition tail_items :: "json \<Rightarrow> str list option" where
  "tail_items v =
    (case v of
       JArr items \<Rightarrow>
        (if 1 \<le> length items \<and> length items \<le> 2 \<and>
            list_all (\<lambda>i. case i of JStr s \<Rightarrow> hex256 s | _ \<Rightarrow> False) items
         then Some (map (\<lambda>i. case i of JStr s \<Rightarrow> s | _ \<Rightarrow> []) items) else None)
     | _ \<Rightarrow> None)"

definition load_level :: "nat \<times> frontier_row \<Rightarrow> frontier_level res" where
  "load_level = (\<lambda>(index, row).
    (if f_level row \<noteq> int index then Inl (StoreIntegrityError ''merkle frontier levels are not contiguous'')
     else case json_loads (f_tail row) of
       Inl JSONDecodeError \<Rightarrow> Inl (StoreIntegrityError ''merkle frontier encoding is invalid'')
     | Inl e \<Rightarrow> Inl e
     | Inr v \<Rightarrow>
        (case tail_items v of
           None \<Rightarrow> Inl (StoreIntegrityError ''merkle frontier encoding is invalid'')
         | Some tail_hex \<Rightarrow>
            (if f_len row < 1 \<or> int (length tail_hex) > f_len row
             then Inl (StoreIntegrityError ''merkle frontier length is invalid'')
             else bindE (mapE fromhex tail_hex) (\<lambda>items.
                    Inr \<lparr>fl_length = nat (f_len row), fl_tail = items\<rparr>)))))"

definition load_frontier :: "db \<Rightarrow> frontier_level list res" where
  "load_frontier d = mapE load_level (enumerate 0 (db_frontier d))"

lemma hex_alphabet: "c \<in> set (lit ''0123456789abcdef'') \<longleftrightarrow> is_hex c"
proof -
  have "lit ''0123456789abcdef'' = [48..<58] @ [97..<103]" by code_simp
  then show ?thesis by (simp only: set_append set_upt Un_iff atLeastLessThan_iff is_hex_def is_digit_def) linarith
qed

lemma hex256_HEX256: "hex256 v \<longleftrightarrow> HEX256 v"
  by (simp only: hex256_def HEX256_def hex_alphabet)

lemma hex256_sha256_hex [simp]: "hex256 (sha256_hex m)"
  unfolding hex256_HEX256 using hex_is_hex by (auto simp: HEX256_def sha256_hex_def)

lemma load_level_saved:
  assumes "t \<noteq> []" "length t \<le> 2" "length t \<le> n" "\<forall>b \<in> set t. length b = 32"
  shows "load_level (i, \<lparr>f_level = int i, f_len = int n, f_tail = tail_text t\<rparr>) =
    Inr \<lparr>fl_length = n, fl_tail = t\<rparr>"
proof -
  have hex256: "hex256 (hex b)" if "length b = 32" for b
    using that by (auto simp: hex256_def hex_alphabet hex_is_hex)
  have sok: "str_ok (hex b)" for b using hex_chars [of _ b] by (fastforce simp: str_ok_def)
  have loads: "json_loads (tail_text t) = Inr (JArr (map (\<lambda>item. JStr (hex item)) t))"
    unfolding tail_text_def by (rule json_loads_dumps_unsorted) (auto simp: sok)
  have "mapE fromhex (map hex t) = Inr t" by (induction t) simp_all
  moreover have "tail_items (JArr (map (\<lambda>item. JStr (hex item)) t)) = Some (map hex t)"
    using assms hex256 by (cases t) (auto simp: tail_items_def list_all_iff comp_def)
  moreover have "1 \<le> n" using assms by (cases t) auto
  ultimately show ?thesis using assms loads by (simp add: load_level_def)
qed

definition level_ok :: "frontier_level \<Rightarrow> bool" where
  "level_ok l \<longleftrightarrow> fl_tail l \<noteq> [] \<and> length (fl_tail l) \<le> 2 \<and> length (fl_tail l) \<le> fl_length l \<and>
    (\<forall>b \<in> set (fl_tail l). length b = 32)"

theorem load_save_frontier:
  assumes "\<forall>l \<in> set frontier. level_ok l"
  shows "load_frontier (save_frontier frontier d) = Inr frontier"
proof -
  have "mapE load_level (enumerate k (map (\<lambda>(level, entry).
         \<lparr>f_level = int level, f_len = int (fl_length entry), f_tail = tail_text (fl_tail entry)\<rparr>)
       (enumerate k frontier))) = Inr frontier" for k
    using assms by (induction frontier arbitrary: k) (auto simp: level_ok_def load_level_saved)
  then show ?thesis by (simp add: load_frontier_def save_frontier_def)
qed

end
