(* ===== verification/StoreAppend.thy ===== *)
theory StoreAppend
  imports StoreState
begin

text \<open>
  Appending to the log: \<open>_append_locked\<close> with its anchor checks, the public \<open>append\<close>, the
  idempotent submission \<open>append_idempotent\<close>, and the two import batches with the upstream
  high-water comparison. Each body runs inside one write transaction; the cached verdict
  moves only after the transaction committed.
\<close>


section \<open>Anchors\<close>

definition last_log_row :: "db \<Rightarrow> (int \<times> str) option" where
  "last_log_row d = (if db_log d = [] then None else Some (l_seq (last (db_log d)), l_entry_hash (last (db_log d))))"

definition log_row_at :: "db \<Rightarrow> int \<Rightarrow> log_row option" where
  "log_row_at d n = find (\<lambda>r. l_seq r = n) (db_log d)"

definition boundary_at :: "db \<Rightarrow> int \<Rightarrow> boundary_row option" where
  "boundary_at d n = find (\<lambda>b. b_log_size b = n) (db_boundaries d)"

text \<open>The walk over \<open>zip(frontier, frontier[1:])\<close>.\<close>

fun check_links :: "frontier_level list \<Rightarrow> abort + unit" where
  "check_links (lower # upper # rest) =
    bindE (guardE (\<not> (fl_length lower \<ge> 2 \<and> length (fl_tail lower) < 2))
             (FailAppend ''merkle frontier tail is incomplete'')) (\<lambda>_.
    bindE (raising (from_end (if fl_length lower mod 2 = 1 then 1 else 2) (fl_tail lower))) (\<lambda>left.
    bindE (raising (from_end 1 (fl_tail lower))) (\<lambda>right.
    bindE (raising (from_end 1 (fl_tail upper))) (\<lambda>upper_last.
    bindE (guardE (upper_last = merkle_pair_hash left right)
             (FailAppend ''merkle frontier disagrees with the committed log'')) (\<lambda>_.
      check_links (upper # rest))))))"
| "check_links frontier = Inr ()"

definition check_level_zero :: "db \<Rightarrow> int \<Rightarrow> str \<Rightarrow> bytes list \<Rightarrow> abort + unit" where
  "check_level_zero d previous_seq prev_hash level_zero =
    (if previous_seq = 1 then
       (if length level_zero \<noteq> 1 then Inl (FailAppend ''merkle frontier disagrees with the committed log'')
        else bindE (raising (fromhex prev_hash)) (\<lambda>h.
          guardE (level_zero = [h]) (FailAppend ''merkle frontier disagrees with the committed log'')))
     else case log_row_at d (previous_seq - 1) of
       None \<Rightarrow> Inl (FailAppend ''log sequence is not contiguous'')
     | Some second \<Rightarrow>
        bindE (raising (fromhex (l_entry_hash second))) (\<lambda>h1.
        bindE (raising (fromhex prev_hash)) (\<lambda>h2.
          guardE (level_zero = [h1, h2]) (FailAppend ''merkle frontier disagrees with the committed log''))))"

definition validate_append_anchors :: "db \<Rightarrow> int \<Rightarrow> str \<Rightarrow> frontier_level list \<Rightarrow> abort + unit" where
  "validate_append_anchors d previous_seq prev_hash frontier =
    (if (case frontier of [] \<Rightarrow> 0 | first # _ \<Rightarrow> int (fl_length first)) \<noteq> previous_seq
     then Inl (FailAppend ''merkle frontier does not match the log head'')
     else if previous_seq = 0 then
       guardE (frontier = []) (FailAppend ''merkle frontier does not match the log head'')
     else case boundary_at d previous_seq of
       None \<Rightarrow> Inl (FailAppend ''snapshot boundary cache is missing log size'')
     | Some boundary \<Rightarrow>
        bindE (guardE (b_head boundary = prev_hash)
                 (FailAppend ''log head does not match the snapshot boundary'')) (\<lambda>_.
        bindE (raising (at0 frontier)) (\<lambda>first.
        bindE (check_level_zero d previous_seq prev_hash (fl_tail first)) (\<lambda>_.
        bindE (check_links frontier) (\<lambda>_.
        bindE (raising (frontier_root frontier)) (\<lambda>top.
          guardE (hex top = b_merkle_root boundary)
            (FailAppend ''merkle frontier disagrees with the committed log'')))))))"


section \<open>Append\<close>

text \<open>\<open>str.encode("ascii")\<close>.\<close>

definition ascii_encode :: "str \<Rightarrow> bytes res" where
  "ascii_encode s = (if \<forall>c \<in> set s. c < 128 then Inr (map byte_of s) else Inl UnicodeError)"

definition indexed_fields :: "string list" where
  "indexed_fields = [''name'', ''source_identity'', ''commit'', ''content_sha256'', ''status'']"

definition require_fields :: "obj \<Rightarrow> unit res" where
  "require_fields record =
    eachE (\<lambda>key. guardE (nonempty_text (get_or record key JNull))
                   (ValueError ''record requires a non-empty string'')) indexed_fields"

definition field_text :: "obj \<Rightarrow> string \<Rightarrow> str" where
  "field_text record key = (case get_str record (lit key) of Some s \<Rightarrow> s | None \<Rightarrow> [])"

text \<open>Binding text parameters of a statement encodes them as UTF-8, which a lone surrogate fails.\<close>

definition bind_texts :: "str list \<Rightarrow> unit res" where
  "bind_texts ts = guardE (\<not> (\<exists>t \<in> set ts. \<exists>c \<in> set t. surrogate c)) UnicodeError"

text \<open>An integer parameter has to fit SQLite's 64-bit signed integers.\<close>

definition bind_ints :: "int list \<Rightarrow> unit res" where
  "bind_ints ns = guardE (\<forall>n \<in> set ns. - (2 ^ 63) \<le> n \<and> n < 2 ^ 63) OverflowError"

text \<open>
  \<open>INSERT INTO log\<close>: the \<open>AUTOINCREMENT\<close> rowid is one above the counter and every rowid in
  use. The indexed columns come from the canonicalised part of the record.
\<close>

definition next_seq :: "db \<Rightarrow> int" where
  "next_seq d = 1 + fold max (map l_seq (db_log d)) (max 0 (db_log_sequence d))"

definition insert_log :: "str \<Rightarrow> str \<Rightarrow> obj \<Rightarrow> str \<Rightarrow> db \<Rightarrow> (int \<times> db) res" where
  "insert_log entry_hash prev_hash record created_at d =
    (let record_json = json_dumps True (JObj record); seq = next_seq d;
         row = \<lparr>l_seq = seq, l_entry_hash = entry_hash, l_prev_hash = prev_hash,
                l_name = field_text record ''name'',
                l_source_identity = field_text record ''source_identity'',
                l_commit_hash = field_text record ''commit'',
                l_content_sha256 = field_text record ''content_sha256'',
                l_status = field_text record ''status'',
                l_record_json = record_json, l_created_at = created_at\<rparr>
     in bindE (bind_texts [record_json, created_at]) (\<lambda>_.
          Inr (seq, d\<lparr>db_log := db_log d @ [row], db_log_sequence := seq\<rparr>)))"

definition insert_boundary :: "int \<Rightarrow> str \<Rightarrow> str \<Rightarrow> str \<Rightarrow> db \<Rightarrow> abort + db" where
  "insert_boundary seq head merkle created_at d =
    (if boundary_at d seq \<noteq> None then Inl (FailAppend ''snapshot boundary cache is inconsistent'')
     else Inr (d\<lparr>db_boundaries := db_boundaries d @
       [\<lparr>b_log_size = seq, b_head = head, b_merkle_root = merkle, b_created_at = created_at\<rparr>]\<rparr>))"

definition append_locked :: "obj \<Rightarrow> str \<Rightarrow> db \<Rightarrow> log_entry tx" where
  "append_locked record created_at d =
    bindE (raising (require_fields record)) (\<lambda>_.
    bindE (raising (validate_hash_version record)) (\<lambda>_.
    bindE (raising (canonical_bytes record)) (\<lambda>record_bytes.
      let (previous_seq, prev_hash) = (case last_log_row d of Some r \<Rightarrow> r | None \<Rightarrow> (0, GENESIS)) in
    bindE (failing (load_frontier d)) (\<lambda>frontier.
    bindE (validate_append_anchors d previous_seq prev_hash frontier) (\<lambda>_.
    bindE (raising (ascii_encode prev_hash)) (\<lambda>prev_bytes.
      let entry_hash = sha256_hex (prev_bytes @ record_bytes) in
    bindE (raising (insert_log entry_hash prev_hash record created_at d)) (\<lambda>(seq, d1).
    bindE (guardE (seq = previous_seq + 1) (FailAppend ''log sequence is not contiguous'')) (\<lambda>_.
    bindE (raising (fromhex entry_hash)) (\<lambda>leaf.
    bindE (failing (frontier_append frontier leaf)) (\<lambda>(frontier', new_root).
    bindE (insert_boundary seq entry_hash (hex new_root) created_at (save_frontier frontier' d1)) (\<lambda>d2.
      Inr (\<lparr>e_seq = seq, e_entry_hash = entry_hash, e_prev_hash = prev_hash, e_record = record\<rparr>, d2))))))))))))"

definition publish :: "log_entry \<Rightarrow> store \<Rightarrow> store" where
  "publish entry s =
    s\<lparr>health_verified_head := e_entry_hash entry, health_verified_log_size := e_seq entry\<rparr>"

definition append :: "rat \<Rightarrow> obj \<Rightarrow> str \<Rightarrow> store \<Rightarrow> log_entry res \<times> store" where
  "append now record created_at s =
    (case write_transaction now (\<lambda>d.
            bindE (raising (require_writes_allowed now s)) (\<lambda>_. append_locked record created_at d)) s of
       (Inr entry, s') \<Rightarrow> (Inr entry, publish entry s')
     | (Inl e, s') \<Rightarrow> (Inl e, s'))"


section \<open>Idempotent submission\<close>

definition find_idempotency :: "str \<Rightarrow> str \<Rightarrow> db \<Rightarrow> idempotency_row option" where
  "find_idempotency auditor_id key d =
    find (\<lambda>r. i_auditor_id r = auditor_id \<and> i_key r = key) (db_idempotency d)"

definition entry_response :: "log_entry \<Rightarrow> obj" where
  "entry_response entry =
    [(lit ''seq'', JInt (e_seq entry)), (lit ''entry_hash'', JStr (e_entry_hash entry))]"

datatype submission = Replayed obj | Appended obj log_entry

definition append_idempotent_locked ::
  "obj \<Rightarrow> str \<Rightarrow> str \<Rightarrow> str \<Rightarrow> str \<Rightarrow> int \<Rightarrow> int \<Rightarrow> db \<Rightarrow> submission tx" where
  "append_idempotent_locked record auditor_id key body_sha256 created_at now ttl_seconds d0 =
    (let d = d0\<lparr>db_idempotency := filter (\<lambda>r. \<not> i_expires_at r \<le> now) (db_idempotency d0)\<rparr> in
     bindE (raising (bind_texts [auditor_id, key])) (\<lambda>_.
     case find_idempotency auditor_id key d of
       Some existing \<Rightarrow>
        (if i_body_sha256 existing \<noteq> body_sha256 then Inl (Raise IdempotencyConflict)
         else bindE (raising (json_loads (i_response_json existing))) (\<lambda>response.
           case response of
             JObj r \<Rightarrow> Inr (Replayed r, d)
           | _ \<Rightarrow> Inl (Raise (StoreIntegrityError ''stored idempotency response is invalid''))))
     | None \<Rightarrow>
        bindE (append_locked record created_at d) (\<lambda>(entry, d1).
          let response = entry_response entry;
              row = \<lparr>i_auditor_id = auditor_id, i_key = key, i_body_sha256 = body_sha256,
                     i_response_json = json_dumps False (JObj response), i_seq = e_seq entry,
                     i_expires_at = now + ttl_seconds\<rparr>
          in Inr (Appended response entry, d1\<lparr>db_idempotency := db_idempotency d1 @ [row]\<rparr>))))"

definition printable_key :: "str \<Rightarrow> bool" where
  "printable_key key \<longleftrightarrow> 1 \<le> length key \<and> length key \<le> 256 \<and> (\<forall>c \<in> set key. 0x21 \<le> c \<and> c \<le> 0x7E)"

definition append_idempotent ::
  "rat \<Rightarrow> obj \<Rightarrow> str \<Rightarrow> str \<Rightarrow> str \<Rightarrow> str \<Rightarrow> int \<Rightarrow> int \<Rightarrow> store \<Rightarrow> (obj \<times> bool) res \<times> store" where
  "append_idempotent instant record auditor_id key body_sha256 created_at now ttl_seconds s =
    (if auditor_id = [] then (Inl (ValueError ''auditor_id must be non-empty''), s)
     else if \<not> printable_key key then (Inl (ValueError ''idempotency key is malformed''), s)
     else if \<not> hex256 body_sha256 then (Inl (ValueError ''idempotency body digest is malformed''), s)
     else if ttl_seconds < 24 * 3600
     then (Inl (ValueError ''idempotency retention must be at least 24 hours''), s)
     else case write_transaction instant (\<lambda>d.
            bindE (raising (require_writes_allowed instant s)) (\<lambda>_.
              append_idempotent_locked record auditor_id key body_sha256 created_at now ttl_seconds d)) s of
       (Inr (Replayed r), s') \<Rightarrow> (Inr (r, True), s')
     | (Inr (Appended r entry), s') \<Rightarrow> (Inr (r, False), publish entry s')
     | (Inl e, s') \<Rightarrow> (Inl e, s'))"


section \<open>Import batches\<close>

definition get_upstream_high_water :: "db \<Rightarrow> str \<Rightarrow> upstream_high_water option" where
  "get_upstream_high_water d k = find (\<lambda>w. hw_key_id w = k) (db_high_water d)"

text \<open>\<open>INSERT OR REPLACE\<close>: the row with the same primary key goes, the new one is added.\<close>

definition put_high_water :: "upstream_high_water \<Rightarrow> db \<Rightarrow> abort + db" where
  "put_high_water w d =
    bindE (raising (bind_texts [hw_key_id w, hw_head w, hw_merkle_root w, hw_updated_at w])) (\<lambda>_.
      Inr (d\<lparr>db_high_water := filter (\<lambda>v. hw_key_id v \<noteq> hw_key_id w) (db_high_water d) @ [w]\<rparr>))"

fun import_records ::
  "str \<Rightarrow> (str \<times> obj) list \<Rightarrow> nat \<Rightarrow> log_entry option \<Rightarrow> db \<Rightarrow> (nat \<times> log_entry option) tx" where
  "import_records created_at [] imported last_entry d = Inr ((imported, last_entry), d)"
| "import_records created_at ((fingerprint, record) # records) imported last_entry d =
    bindE (raising (bind_texts [fingerprint])) (\<lambda>_.
     if \<exists>m \<in> set (db_imported d). m_fingerprint m = fingerprint
     then import_records created_at records imported last_entry d
     else bindE (append_locked record created_at d) (\<lambda>(entry, d1).
       import_records created_at records (imported + 1) (Some entry)
         (d1\<lparr>db_imported := db_imported d1 @
            [\<lparr>m_fingerprint = fingerprint, m_imported_at = created_at, m_seq = Some (e_seq entry)\<rparr>]\<rparr>)))"

definition publish_last :: "log_entry option \<Rightarrow> store \<Rightarrow> store" where
  "publish_last last_entry s = (case last_entry of Some entry \<Rightarrow> publish entry s | None \<Rightarrow> s)"

definition append_imports_locked ::
  "(str \<times> obj) list \<Rightarrow> str \<Rightarrow> upstream_high_water option \<Rightarrow> db \<Rightarrow> (nat \<times> log_entry option) tx" where
  "append_imports_locked records created_at offered d =
    bindE (case offered of
             None \<Rightarrow> Inr ()
           | Some w \<Rightarrow>
              (case get_upstream_high_water d (hw_key_id w) of
                 None \<Rightarrow> Inr ()
               | Some current \<Rightarrow>
                  (case upstream_offer_diagnostic current w of
                     None \<Rightarrow> Inr ()
                   | Some diagnostic \<Rightarrow> Inl (Raise (UpstreamHighWaterConflict diagnostic))))) (\<lambda>_.
    bindE (import_records created_at records 0 None d) (\<lambda>(r, d1).
    bindE (case offered of None \<Rightarrow> Inr d1 | Some w \<Rightarrow> put_high_water w d1) (\<lambda>d2.
      Inr (r, d2))))"

definition append_imports ::
  "rat \<Rightarrow> (str \<times> obj) list \<Rightarrow> str \<Rightarrow> upstream_high_water option \<Rightarrow> store \<Rightarrow> nat res \<times> store" where
  "append_imports now records created_at offered s =
    (case write_transaction now (\<lambda>d.
            bindE (raising (require_writes_allowed now s)) (\<lambda>_.
              append_imports_locked records created_at offered d)) s of
       (Inr (imported, last_entry), s') \<Rightarrow> (Inr imported, publish_last last_entry s')
     | (Inl e, s') \<Rightarrow> (Inl e, s'))"

definition import_decision ::
  "upstream_high_water option \<Rightarrow> upstream_high_water \<Rightarrow> bool \<Rightarrow> import_outcome res" where
  "import_decision current offered accept_older_upstream =
    (case current of
       None \<Rightarrow> Inr advanced
     | Some c \<Rightarrow>
        (case upstream_offer_diagnostic c offered of
           Some diagnostic \<Rightarrow>
            (if diagnostic = ''import_upstream_rollback'' \<and> accept_older_upstream then Inr accepted_older
             else Inl (UpstreamHighWaterConflict diagnostic))
         | None \<Rightarrow> (if hw_version offered = hw_version c then Inr noop else Inr advanced)))"

definition append_upstream_import_locked ::
  "(str \<times> obj) list \<Rightarrow> str \<Rightarrow> upstream_high_water \<Rightarrow> bool \<Rightarrow> db \<Rightarrow>
   (upstream_import_result \<times> log_entry option) tx" where
  "append_upstream_import_locked records created_at offered accept_older d =
    (let current = get_upstream_high_water d (hw_key_id offered) in
     bindE (raising (import_decision current offered accept_older)) (\<lambda>outcome.
     bindE (import_records created_at records 0 None d) (\<lambda>((imported, last_entry), d1).
     bindE (if outcome = advanced then put_high_water offered d1 else Inr d1) (\<lambda>d2.
       Inr ((\<lparr>r_imported = imported, r_persisted = current, r_outcome = outcome\<rparr>, last_entry), d2)))))"

definition append_upstream_import ::
  "rat \<Rightarrow> (str \<times> obj) list \<Rightarrow> str \<Rightarrow> upstream_high_water \<Rightarrow> bool \<Rightarrow> store \<Rightarrow>
   upstream_import_result res \<times> store" where
  "append_upstream_import now records created_at offered accept_older s =
    (case write_transaction now (\<lambda>d.
            bindE (raising (require_writes_allowed now s)) (\<lambda>_.
              append_upstream_import_locked records created_at offered accept_older d)) s of
       (Inr (r, last_entry), s') \<Rightarrow> (Inr r, publish_last last_entry s')
     | (Inl e, s') \<Rightarrow> (Inl e, s'))"

end
