(* ===== verification/StoreSpec.thy ===== *)
theory StoreSpec
  imports StoreAppend
begin

text \<open>
  What the store promises. The abstract log is a list of entries, a record with its commit
  time; \<open>leaves\<close>, \<open>rows_of\<close>, \<open>boundaries_of\<close> and the frontier of the leaves are the tables that
  list determines. \<open>db_ok d es\<close> says the tables of \<open>d\<close> are exactly those of \<open>es\<close> and the ledgers
  refer to them. The refinement lemma \<open>append_locked_spec\<close> gives the outcome of an append on
  such a database on every branch: the client error the record deserves, or the tables of
  \<open>es @ [(record, created_at)]\<close>; an intact database never fails the anchor checks.
\<close>


section \<open>The abstract log\<close>

type_synonym entry = "obj \<times> str"

definition chain_bytes :: "obj \<Rightarrow> bytes" where
  "chain_bytes r = (case canonical_bytes r of Inr b \<Rightarrow> b | Inl e \<Rightarrow> [])"

definition leaf_hash :: "str \<Rightarrow> obj \<Rightarrow> bytes" where
  "leaf_hash prev r = sha256 (map byte_of prev @ chain_bytes r)"

definition head_of :: "bytes list \<Rightarrow> str" where
  "head_of ls = (if ls = [] then GENESIS else hex (last ls))"

definition leaves :: "entry list \<Rightarrow> bytes list" where
  "leaves es = foldl (\<lambda>ls e. ls @ [leaf_hash (head_of ls) (fst e)]) [] es"

lemma leaves_Nil [simp]: "leaves [] = []"
  by (simp add: leaves_def)

lemma leaves_snoc [simp]: "leaves (es @ [e]) = leaves es @ [leaf_hash (head_of (leaves es)) (fst e)]"
  by (simp add: leaves_def)

lemma length_leaves [simp]: "length (leaves es) = length es"
  by (induction es rule: rev_induct) simp_all

lemma leaves_prefix: "\<exists>ls. leaves (xs @ ys) = leaves xs @ ls"
proof (induction ys rule: rev_induct)
  case (snoc y ys)
  then show ?case using leaves_snoc [of "xs @ ys" y] by (metis append.assoc)
qed simp

lemma leaves_take: "leaves (take n es) = take n (leaves es)"
proof (cases "n \<le> length es")
  case True
  obtain ls where "leaves es = leaves (take n es) @ ls"
    using leaves_prefix [of "take n es" "drop n es"] by auto
  moreover have "length (leaves (take n es)) = n" using True by simp
  ultimately show ?thesis by (metis append_eq_conv_conj)
qed simp

lemma leaves_32: "b \<in> set (leaves es) \<Longrightarrow> length b = 32"
  by (induction es rule: rev_induct) (auto simp: leaf_hash_def)

definition mk_row :: "nat \<Rightarrow> str \<Rightarrow> bytes \<Rightarrow> entry \<Rightarrow> log_row" where
  "mk_row n prev leaf e =
    \<lparr>l_seq = int n, l_entry_hash = hex leaf, l_prev_hash = prev,
     l_name = field_text (fst e) ''name'', l_source_identity = field_text (fst e) ''source_identity'',
     l_commit_hash = field_text (fst e) ''commit'', l_content_sha256 = field_text (fst e) ''content_sha256'',
     l_status = field_text (fst e) ''status'', l_record_json = json_dumps True (JObj (fst e)),
     l_created_at = snd e\<rparr>"

definition row_at :: "entry list \<Rightarrow> nat \<Rightarrow> log_row" where
  "row_at es i = mk_row (i + 1) (head_of (take i (leaves es))) (leaves es ! i) (es ! i)"

definition rows_of :: "entry list \<Rightarrow> log_row list" where
  "rows_of es = map (row_at es) [0..<length es]"

definition boundary_of :: "entry list \<Rightarrow> nat \<Rightarrow> boundary_row" where
  "boundary_of es i =
    \<lparr>b_log_size = int (i + 1), b_head = hex (leaves es ! i),
     b_merkle_root = hex (root_of (take (i + 1) (leaves es))), b_created_at = snd (es ! i)\<rparr>"

definition boundaries_of :: "entry list \<Rightarrow> boundary_row list" where
  "boundaries_of es = map (boundary_of es) [0..<length es]"

lemma row_at_snoc: "i < length es \<Longrightarrow> row_at (es @ [e]) i = row_at es i"
  by (simp add: row_at_def nth_append)

lemma rows_of_snoc:
  "rows_of (es @ [e]) =
    rows_of es @ [mk_row (length es + 1) (head_of (leaves es)) (leaf_hash (head_of (leaves es)) (fst e)) e]"
proof -
  have "map (row_at (es @ [e])) [0..<length es] = map (row_at es) [0..<length es]"
    by (rule map_cong) (simp_all add: row_at_snoc)
  moreover have "row_at (es @ [e]) (length es) =
      mk_row (length es + 1) (head_of (leaves es)) (leaf_hash (head_of (leaves es)) (fst e)) e"
    using nth_append_length [of "leaves es"] by (simp add: row_at_def)
  ultimately show ?thesis by (simp add: rows_of_def)
qed

lemma boundaries_of_snoc:
  "boundaries_of (es @ [e]) = boundaries_of es @
    [\<lparr>b_log_size = int (length es + 1), b_head = hex (leaf_hash (head_of (leaves es)) (fst e)),
      b_merkle_root = hex (root_of (leaves (es @ [e]))), b_created_at = snd e\<rparr>]"
proof -
  have "map (boundary_of (es @ [e])) [0..<length es] = map (boundary_of es) [0..<length es]"
    by (rule map_cong) (simp_all add: boundary_of_def nth_append)
  moreover have "boundary_of (es @ [e]) (length es) =
     \<lparr>b_log_size = int (length es + 1), b_head = hex (leaf_hash (head_of (leaves es)) (fst e)),
      b_merkle_root = hex (root_of (leaves (es @ [e]))), b_created_at = snd e\<rparr>"
    using nth_append_length [of "leaves es"] by (simp add: boundary_of_def)
  ultimately show ?thesis by (simp add: boundaries_of_def)
qed

lemma length_rows_of [simp]: "length (rows_of es) = length es" "length (boundaries_of es) = length es"
  by (simp_all add: rows_of_def boundaries_of_def)

lemma rows_of_eq_Nil [simp]: "rows_of es = [] \<longleftrightarrow> es = []"
  by (simp add: rows_of_def)

lemma leaves_eq_Nil [simp]: "leaves es = [] \<longleftrightarrow> es = []"
  by (metis length_leaves length_0_conv)

lemma rows_of_Nil [simp]: "rows_of [] = []" "boundaries_of [] = []"
  by (simp_all add: rows_of_def boundaries_of_def)

lemma find_indexed:
  assumes "\<And>i. i < n \<Longrightarrow> key (f i) = int (i + 1)"
  shows "find (\<lambda>x. key x = k) (map f [0..<n]) = (if 1 \<le> k \<and> k \<le> int n then Some (f (nat k - 1)) else None)"
  using assms
proof (induction n)
  case (Suc n)
  then have "find (\<lambda>x. key x = k) (map f [0..<n]) = (if 1 \<le> k \<and> k \<le> int n then Some (f (nat k - 1)) else None)"
    by simp
  moreover have "find P (xs @ [x]) = (case find P xs of None \<Rightarrow> if P x then Some x else None | Some y \<Rightarrow> Some y)"
    for P and xs :: "'a list" and x
    by (induction xs) auto
  moreover have "k = int (n + 1) \<Longrightarrow> nat k - 1 = n" by simp
  ultimately show ?case using Suc.prems [of n] by (auto split: if_splits)
qed simp

lemma find_row:
  "find (\<lambda>r. l_seq r = k) (rows_of es) = (if 1 \<le> k \<and> k \<le> int (length es) then Some (row_at es (nat k - 1)) else None)"
  unfolding rows_of_def by (rule find_indexed) (simp add: row_at_def mk_row_def)

lemma find_boundary:
  "find (\<lambda>b. b_log_size b = k) (boundaries_of es) =
    (if 1 \<le> k \<and> k \<le> int (length es) then Some (boundary_of es (nat k - 1)) else None)"
  unfolding boundaries_of_def by (rule find_indexed) (simp add: boundary_of_def)


section \<open>Entries and intact tables\<close>

text \<open>The checks an append makes of the record itself, in order.\<close>

definition admit :: "obj \<Rightarrow> str \<Rightarrow> bytes res" where
  "admit record created_at =
    bindE (require_fields record) (\<lambda>_.
    bindE (validate_hash_version record) (\<lambda>_.
    bindE (canonical_bytes record) (\<lambda>record_bytes.
    bindE (bind_texts [json_dumps True (JObj record), created_at]) (\<lambda>_.
      Inr record_bytes))))"

definition entry_ok :: "entry \<Rightarrow> bool" where
  "entry_ok e \<longleftrightarrow>
    dict_ok (JObj (fst e)) \<and> plain (JObj (fst e)) \<and> timestamp (snd e) \<and> (\<exists>b. admit (fst e) (snd e) = Inr b)"

definition tables_ok :: "db \<Rightarrow> entry list \<Rightarrow> bool" where
  "tables_ok d es \<longleftrightarrow>
    (\<forall>e \<in> set es. entry_ok e) \<and>
    db_log d = rows_of es \<and>
    db_log_sequence d = int (length es) \<and>
    db_boundaries d = boundaries_of es \<and>
    db_frontier d = db_frontier (save_frontier (frontier_of (leaves es)) d)"

lemma level_ok_frontier:
  "(\<forall>b \<in> set xs. length b = 32) \<Longrightarrow> l \<in> set (frontier_of xs) \<Longrightarrow> level_ok l"
proof (induction xs rule: tree_levels.induct)
  case (1 xs)
  have 32: "\<forall>b \<in> set (next_level xs). length b = 32"
    by (induction xs rule: next_level.induct) (auto simp: merkle_pair_hash_def)
  have "level_ok (level_summary xs)" if "xs \<noteq> []"
    using that 1(2) last2_Nil_iff [of xs]
    by (auto simp: level_ok_def level_summary_def last2_def simp del: last2_Nil_iff dest: in_set_dropD)
  moreover have "l = level_summary xs \<or> (length xs > 1 \<and> l \<in> set (frontier_of (next_level xs)))" "xs \<noteq> []"
    using 1(3) by (cases "length xs > 1"; cases "xs = []"; auto simp: frontier_of_long level_summary_def dest!: short_cases)+
  ultimately show ?case using 1(1) 32 by blast
qed

lemma load_frontier_ok: "tables_ok d es \<Longrightarrow> load_frontier d = Inr (frontier_of (leaves es))"
proof -
  assume "tables_ok d es"
  then have "load_frontier d = load_frontier (save_frontier (frontier_of (leaves es)) d)"
    by (simp add: load_frontier_def tables_ok_def)
  also have "\<dots> = Inr (frontier_of (leaves es))"
    by (rule load_save_frontier) (use level_ok_frontier leaves_32 in blast)
  finally show ?thesis .
qed


section \<open>Anchor checks pass on intact tables\<close>

lemma check_links_frontier: "check_links (frontier_of xs) = Inr ()"
proof (induction xs rule: tree_levels.induct)
  case (1 xs)
  show ?case
  proof (cases "length xs > 1")
    case long: True
    let ?Q = "next_level xs"
    obtain left right where lr: "from_end (if length xs mod 2 = 1 then 1 else 2) (last2 xs) = Inr left"
      "from_end 1 (last2 xs) = Inr right" "merkle_pair_hash left right = last ?Q"
      using last_next_level [OF long] .
    have ne: "?Q \<noteq> []" using long by auto
    obtain fs where fs: "frontier_of ?Q = level_summary ?Q # fs" using frontier_of_Cons [OF ne] by blast
    have top: "from_end 1 (last2 ?Q) = Inr (last ?Q)" using ne by (simp add: from_end_last)
    have len: "\<not> (length xs \<ge> 2 \<and> length (last2 xs) < 2)" by (simp add: last2_def)
    have sel: "fl_length (level_summary ys) = length ys" "fl_tail (level_summary ys) = last2 ys" for ys
      by (simp_all add: level_summary_def)
    have "check_links (level_summary ?Q # fs) = Inr ()" using 1 long fs by simp
    then show ?thesis
      unfolding frontier_of_long [OF long] fs
      by (simp only: check_links.simps sel len lr top raising_simps bindE_simps guardE_simps simp_thms)
  next
    case False
    then show ?thesis by (cases "xs = []") (auto dest: short_cases)
  qed
qed

lemma last_leaves_hex:
  "es \<noteq> [] \<Longrightarrow> l_entry_hash (last (rows_of es)) = hex (last (leaves es)) \<and> l_seq (last (rows_of es)) = int (length es)"
  by (cases es rule: rev_cases) (simp_all add: rows_of_snoc mk_row_def)

lemma last_log_row_ok:
  "tables_ok d es \<Longrightarrow> (case last_log_row d of Some r \<Rightarrow> r | None \<Rightarrow> (0, GENESIS)) =
    (int (length es), head_of (leaves es))"
proof -
  assume "tables_ok d es"
  then have "db_log d = rows_of es" by (simp add: tables_ok_def)
  then show ?thesis using last_leaves_hex [of es]
    by (cases "es = []") (auto simp: last_log_row_def head_of_def)
qed

lemma check_level_zero_ok:
  assumes "tables_ok d es" "es \<noteq> []"
  shows "check_level_zero d (int (length es)) (head_of (leaves es)) (last2 (leaves es)) = Inr ()"
proof -
  consider x where "leaves es = [x]" | ys x y where "leaves es = ys @ [x, y]"
    by (rule last_two_cases [of "leaves es"]) (use assms(2) length_leaves [of es] in auto)
  then show ?thesis
  proof cases
    case 1
    then have "length es = 1" using length_leaves [of es] by simp
    then show ?thesis by (simp add: 1 check_level_zero_def head_of_def)
  next
    case 2
    then have n: "length es = length ys + 2" using length_leaves [of es] by simp
    have "log_row_at d (int (length es) - 1) = Some (row_at es (length ys))"
      using assms(1) by (simp add: log_row_at_def tables_ok_def find_row n nat_add_distrib)
    moreover have "l_entry_hash (row_at es (length ys)) = hex x"
      by (simp add: row_at_def mk_row_def 2)
    ultimately show ?thesis by (simp add: check_level_zero_def n head_of_def 2)
  qed
qed

lemma validate_append_anchors_ok:
  assumes "tables_ok d es"
  shows "validate_append_anchors d (int (length es)) (head_of (leaves es)) (frontier_of (leaves es)) = Inr ()"
proof (cases "es = []")
  case True
  then show ?thesis by (simp add: validate_append_anchors_def)
next
  case False
  then have ne: "leaves es \<noteq> []" using length_leaves [of es] by (metis length_0_conv)
  obtain fs where fs: "frontier_of (leaves es) = level_summary (leaves es) # fs"
    using frontier_of_Cons [OF ne] by blast
  have b: "boundary_at d (int (length es)) = Some (boundary_of es (length es - 1))"
    using assms False find_boundary [of "int (length es)" es]
    by (simp add: boundary_at_def tables_ok_def) (metis One_nat_def Suc_leI length_greater_0_conv nat_int of_nat_1 of_nat_le_iff)
  have "b_head (boundary_of es (length es - 1)) = head_of (leaves es)"
    using ne by (simp add: boundary_of_def head_of_def last_conv_nth)
  moreover have "b_merkle_root (boundary_of es (length es - 1)) = hex (root_of (leaves es))"
    using False by (simp add: boundary_of_def)
  moreover have "frontier_root (frontier_of (leaves es)) = Inr (root_of (leaves es))"
    using last_frontier_of [OF ne] by (simp add: frontier_root_def)
  moreover have "check_links (frontier_of (leaves es)) = Inr ()" by (rule check_links_frontier)
  moreover have "fl_tail (level_summary (leaves es)) = last2 (leaves es)"
    "fl_length (level_summary (leaves es)) = length es"
    by (simp_all add: level_summary_def)
  ultimately show ?thesis
    using b False check_level_zero_ok [OF assms False]
    by (simp add: validate_append_anchors_def fs at0_def)
qed

lemma GENESIS_ascii: "c \<in> set GENESIS \<Longrightarrow> c < 128"
  by (simp add: GENESIS_def)

lemma ascii_encode_head: "ascii_encode (head_of ls) = Inr (map byte_of (head_of ls))"
  using hex_chars [of _ "last ls"] by (fastforce simp: ascii_encode_def head_of_def dest: GENESIS_ascii)

lemma next_seq_ok: "tables_ok d es \<Longrightarrow> next_seq d = int (length es) + 1"
proof -
  assume t: "tables_ok d es"
  have "fold max (map l_seq (rows_of xs)) (int n) = int n" if "length xs \<le> n" for xs :: "entry list" and n
    using that
  proof (induction xs rule: rev_induct)
    case (snoc x xs)
    then show ?case by (simp add: rows_of_snoc mk_row_def)
  qed simp
  with t show ?thesis by (simp add: next_seq_def tables_ok_def)
qed


section \<open>Refinement of an append\<close>

definition entry_at :: "entry list \<Rightarrow> obj \<Rightarrow> log_entry" where
  "entry_at es r =
    \<lparr>e_seq = int (length es) + 1, e_entry_hash = hex (leaf_hash (head_of (leaves es)) r),
     e_prev_hash = head_of (leaves es), e_record = r\<rparr>"

definition extended :: "db \<Rightarrow> entry list \<Rightarrow> entry \<Rightarrow> db" where
  "extended d es e =
    save_frontier (frontier_of (leaves (es @ [e])))
      (d\<lparr>db_log := rows_of (es @ [e]), db_log_sequence := int (length es) + 1,
         db_boundaries := boundaries_of (es @ [e])\<rparr>)"

lemma insert_log_ok:
  assumes "tables_ok d es" "admit r t = Inr b"
  shows "insert_log (hex (leaf_hash (head_of (leaves es)) r)) (head_of (leaves es)) r t d =
    Inr (int (length es) + 1, d\<lparr>db_log := rows_of (es @ [(r, t)]), db_log_sequence := int (length es) + 1\<rparr>)"
proof -
  have "bind_texts [json_dumps True (JObj r), t] = Inr ()"
    using assms(2) by (auto simp: admit_def bindE_Inr_iff)
  then show ?thesis
    using assms(1) next_seq_ok [OF assms(1)]
    by (simp add: insert_log_def tables_ok_def rows_of_snoc mk_row_def Let_def add.commute)
qed

lemma insert_boundary_ok:
  assumes "tables_ok d es"
  shows "insert_boundary (int (length es) + 1) (hex (leaf_hash (head_of (leaves es)) (fst e)))
      (hex (root_of (leaves (es @ [e])))) (snd e)
      (save_frontier f (d\<lparr>db_log := l, db_log_sequence := n\<rparr>)) =
    Inr (save_frontier f (d\<lparr>db_log := l, db_log_sequence := n, db_boundaries := boundaries_of (es @ [e])\<rparr>))"
  using assms
  by (simp add: insert_boundary_def boundary_at_def save_frontier_def tables_ok_def find_boundary
      boundaries_of_snoc add.commute)

lemma append_locked_spec:
  assumes ok: "tables_ok d es" and cap: "length es < 2 ^ 64"
  shows "append_locked r t d =
    (case admit r t of Inl e \<Rightarrow> Inl (Raise e) | Inr b \<Rightarrow> Inr (entry_at es r, extended d es (r, t)))"
proof (cases "admit r t")
  case (Inr b)
  then have a: "require_fields r = Inr ()" "validate_hash_version r = Inr ()" "canonical_bytes r = Inr b"
    by (auto simp: admit_def bindE_Inr_iff)
  have hash: "sha256 (map byte_of (head_of (leaves es)) @ b) = leaf_hash (head_of (leaves es)) r"
    by (simp add: leaf_hash_def chain_bytes_def a)
  have fa: "frontier_append (frontier_of (leaves es)) x = Inr (frontier_of (leaves es @ [x]), root_of (leaves es @ [x]))" for x
    using cap by (intro frontier_append_snoc) simp
  have "append_locked r t d = Inr (entry_at es r, extended d es (r, t))"
    unfolding append_locked_def
    by (simp add: a last_log_row_ok [OF ok] load_frontier_ok [OF ok] validate_append_anchors_ok [OF ok]
        ascii_encode_head sha256_hex_def hash Let_def insert_log_ok [OF ok Inr] fa
        insert_boundary_ok [OF ok, of "(r, t)", simplified] entry_at_def extended_def)
  then show ?thesis by (simp add: Inr)
next
  case (Inl e)
  then consider "require_fields r = Inl e" | "require_fields r = Inr ()" "validate_hash_version r = Inl e"
    | "require_fields r = Inr ()" "validate_hash_version r = Inr ()" "canonical_bytes r = Inl e"
    | b where "require_fields r = Inr ()" "validate_hash_version r = Inr ()" "canonical_bytes r = Inr b"
        "bind_texts [json_dumps True (JObj r), t] = Inl e"
    by (auto simp: admit_def bindE_Inl_iff)
  then have "append_locked r t d = Inl (Raise e)"
    unfolding append_locked_def
    by cases (simp_all add: last_log_row_ok [OF ok] load_frontier_ok [OF ok] validate_append_anchors_ok [OF ok]
        ascii_encode_head insert_log_def)
  then show ?thesis by (simp add: Inl)
qed

lemma extend_tables_ok:
  assumes "tables_ok d es" "entry_ok e"
  shows "tables_ok (extended d es e) (es @ [e])"
  using assms by (auto simp: tables_ok_def extended_def save_frontier_def)

lemma extend_ledgers [simp]:
  "db_metadata (extended d es e) = db_metadata d"
  "db_imported (extended d es e) = db_imported d"
  "db_high_water (extended d es e) = db_high_water d"
  "db_idempotency (extended d es e) = db_idempotency d"
  by (simp_all add: extended_def save_frontier_def)

end
