(* ===== verification/JsonValues.thy ===== *)
theory JsonValues
  imports Json
begin

text \<open>
  What the JSON parser returns: on a text of valid code points, every parsed string is
  made of valid code points and every object has distinct keys. A value read from the
  database is therefore one the canonical form is injective on.
\<close>

lemma str_ok_simps [simp]:
  "str_ok []"
  "str_ok (c # s) \<longleftrightarrow> c < 0x110000 \<and> str_ok s"
  "str_ok (s @ t) \<longleftrightarrow> str_ok s \<and> str_ok t"
  by (auto simp: str_ok_def)

lemma str_ok_drop: "str_ok s \<Longrightarrow> str_ok (drop n s)" "str_ok s \<Longrightarrow> str_ok (dropWhile P s)"
  by (auto simp: str_ok_def dest: in_set_dropD set_dropWhileD)

lemma str_ok_skip_ws [simp]: "str_ok s \<Longrightarrow> str_ok (skip_ws s)"
  by (simp add: skip_ws_def str_ok_drop)

lemma str_ok_tl: "str_ok s \<Longrightarrow> str_ok (tl s)"
  by (cases s) simp_all

lemma hex_value_bound: "hex_value c = Some n \<Longrightarrow> n < 16"
  by (auto simp: hex_value_def split: if_splits)

lemma hex4_bound: "hex4 a b c d = Some u \<Longrightarrow> u < 65536"
  by (auto simp: hex4_def split: option.splits dest!: hex_value_bound)

lemma simple_escape_bound: "simple_escape e = Some x \<Longrightarrow> x < 128"
  by (auto simp: simple_escape_def split: if_splits)

lemma scan_escape_ok: "scan_escape s = Inr (x, r) \<Longrightarrow> str_ok s \<Longrightarrow> x < 0x110000 \<and> str_ok r"
  by (auto simp: scan_escape_def split: if_splits list.splits option.splits
      dest!: hex4_bound simple_escape_bound)

lemma scan_string_ok: "scan_string n s = Inr (t, r) \<Longrightarrow> str_ok s \<Longrightarrow> str_ok t \<and> str_ok r"
proof (induction n arbitrary: s t r)
  case (Suc n)
  then show ?case
    by (auto simp: bindE_Inr_iff split: if_splits dest!: scan_escape_ok)
qed simp

lemma strip_prefix_ok: "strip_prefix p s = Some r \<Longrightarrow> str_ok s \<Longrightarrow> str_ok r"
  by (auto simp: strip_prefix_def str_ok_drop split: if_splits)

lemma match_ok:
  "match_int s = Some (ds, r) \<Longrightarrow> str_ok s \<Longrightarrow> str_ok r"
  "match_frac s = (f, r) \<Longrightarrow> str_ok s \<Longrightarrow> str_ok r"
  "match_exp s = (f, r) \<Longrightarrow> str_ok s \<Longrightarrow> str_ok r"
  by (auto simp: match_int_def match_frac_def match_exp_def Let_def str_ok_drop split: list.splits if_splits prod.splits)

lemma match_number_ok: "match_number s = Some (ds, fe, r) \<Longrightarrow> str_ok s \<Longrightarrow> str_ok r"
  by (auto simp: match_number_def Let_def split: list.splits if_splits prod.splits option.splits dest!: match_ok)

text \<open>Hooks that turn good parts into good values.\<close>

definition hooks_ok :: "hooks \<Rightarrow> bool" where
  "hooks_ok H \<longleftrightarrow>
    (\<forall>t v. parse_int H t = Inr v \<or> parse_float H t = Inr v \<or> parse_constant H t = Inr v \<longrightarrow> dict_ok v) \<and>
    (\<forall>ps v. object_pairs H ps = Inr v \<longrightarrow> (\<forall>(k, x) \<in> set ps. str_ok k \<and> dict_ok x) \<longrightarrow> dict_ok v)"

lemma scan_scalar_ok:
  "hooks_ok H \<Longrightarrow> scan_scalar H s = Inr (v, r) \<Longrightarrow> str_ok s \<Longrightarrow> dict_ok v \<and> str_ok r"
  unfolding scan_scalar_def hooks_ok_def
  by (auto simp: bindE_Inr_iff split: option.splits if_splits dest: strip_prefix_ok match_number_ok)

lemma scan_members_Inr:
  assumes "scan_members H (Suc n) s = Inr (ps, r)"
  obtains cs k r1 ds v r2 e es ps' where
    "s = 34 # cs" "scan_string n cs = Inr (k, r1)" "skip_ws r1 = 58 # ds"
    "scan_once H n (skip_ws ds) = Inr (v, r2)" "skip_ws r2 = e # es" "ps = (k, v) # ps'"
    "(r = es \<and> ps' = []) \<or> scan_members H n (skip_ws es) = Inr (ps', r)"
  using assms by (auto simp: bindE_Inr_iff split: if_splits)

lemma scan_elements_Inr:
  assumes "scan_elements H (Suc n) s = Inr (vs, r)"
  obtains v r2 e es vs' where
    "scan_once H n s = Inr (v, r2)" "skip_ws r2 = e # es" "vs = v # vs'"
    "(r = es \<and> vs' = []) \<or> scan_elements H n (skip_ws es) = Inr (vs', r)"
  using assms by (auto simp: bindE_Inr_iff split: if_splits)

lemma skip_ws_ConsD: "skip_ws s = c # cs \<Longrightarrow> str_ok s \<Longrightarrow> str_ok cs"
  using str_ok_skip_ws [of s] by simp

lemma scan_ok:
  assumes H: "hooks_ok H"
  shows "scan_once H n s = Inr (v, r) \<Longrightarrow> str_ok s \<Longrightarrow> dict_ok v \<and> str_ok r"
    and "scan_members H n s = Inr (ps, r) \<Longrightarrow> str_ok s \<Longrightarrow> (\<forall>(k, x) \<in> set ps. str_ok k \<and> dict_ok x) \<and> str_ok r"
    and "scan_elements H n s = Inr (vs, r) \<Longrightarrow> str_ok s \<Longrightarrow> (\<forall>x \<in> set vs. dict_ok x) \<and> str_ok r"
proof (induction n arbitrary: s v r ps vs)
  case (Suc n)
  have pairs: "dict_ok v" if "object_pairs H ps = Inr v" "\<forall>(k, x) \<in> set ps. str_ok k \<and> dict_ok x" for ps v
    using H that unfolding hooks_ok_def by blast
  {
    case 1
    then obtain c cs where s: "s = c # cs" by (cases s) simp_all
    with 1 have ok: "str_ok cs" "str_ok (skip_ws cs)" "str_ok (tl (skip_ws cs))" by (simp_all add: str_ok_tl)
    show ?case
    proof -
      consider "c = 34" | "c = 123" | "c = 91" | "c \<notin> {34, 123, 91}" by blast
      then show ?thesis
      proof cases
        case 1
        then obtain t where "scan_string n cs = Inr (t, r)" "v = JStr t"
          using "1.prems"(1) s by (auto simp: bindE_Inr_iff)
        then show ?thesis using ok scan_string_ok by simp
      next
        case 2
        then consider "object_pairs H [] = Inr v" "r = tl (skip_ws cs)"
          | ps where "scan_members H n (skip_ws cs) = Inr (ps, r)" "object_pairs H ps = Inr v"
          using "1.prems"(1) s by (auto simp: bindE_Inr_iff split: if_splits)
        then show ?thesis using ok pairs [of "[]" v] pairs Suc.IH(2) [of "skip_ws cs" _ r] by cases auto
      next
        case 3
        then consider "v = JArr []" "r = tl (skip_ws cs)"
          | vs where "scan_elements H n (skip_ws cs) = Inr (vs, r)" "v = JArr vs"
          using "1.prems"(1) s by (auto simp: bindE_Inr_iff split: if_splits)
        then show ?thesis using ok Suc.IH(3) [of "skip_ws cs" _ r] by cases auto
      next
        case 4
        then show ?thesis using "1.prems" s scan_scalar_ok [OF H, of s v r] by simp
      qed
    qed
  next
    case 2
    from 2(1) show ?case
    proof (rule scan_members_Inr)
      fix cs k r1 ds v r2 e es ps'
      assume a: "s = 34 # cs" "scan_string n cs = Inr (k, r1)" "skip_ws r1 = 58 # ds"
        "scan_once H n (skip_ws ds) = Inr (v, r2)" "skip_ws r2 = e # es" "ps = (k, v) # ps'"
        and r: "(r = es \<and> ps' = []) \<or> scan_members H n (skip_ws es) = Inr (ps', r)"
      have k: "str_ok k \<and> str_ok r1" using scan_string_ok [OF a(2)] 2(2) a(1) by simp
      then have "str_ok ds" using skip_ws_ConsD [OF a(3)] by simp
      then have v: "dict_ok v \<and> str_ok r2" using Suc.IH(1) [OF a(4)] by simp
      then have "str_ok es" using skip_ws_ConsD [OF a(5)] by simp
      then have "(\<forall>(k, x) \<in> set ps'. str_ok k \<and> dict_ok x) \<and> str_ok r" using r Suc.IH(2) [of "skip_ws es" ps' r] by auto
      then show ?case using k v a(6) by simp
    qed
  next
    case 3
    from 3(1) show ?case
    proof (rule scan_elements_Inr)
      fix v r2 e es vs'
      assume a: "scan_once H n s = Inr (v, r2)" "skip_ws r2 = e # es" "vs = v # vs'"
        and r: "(r = es \<and> vs' = []) \<or> scan_elements H n (skip_ws es) = Inr (vs', r)"
      have v: "dict_ok v \<and> str_ok r2" using Suc.IH(1) [OF a(1)] 3(2) by simp
      then have "str_ok es" using skip_ws_ConsD [OF a(2)] by simp
      then have "(\<forall>x \<in> set vs'. dict_ok x) \<and> str_ok r" using r Suc.IH(3) [of "skip_ws es" vs' r] by auto
      then show ?case using v a(3) by simp
    qed
  }
qed simp_all

lemma json_decode_ok:
  assumes "hooks_ok H" "json_decode H s = Inr v" "str_ok s"
  shows "dict_ok v"
  using assms(2,3) scan_ok(1) [OF assms(1)]
  by (auto simp: json_decode_def bindE_Inr_iff simp del: scan_once.simps split: if_splits)

lemma dict_of_ok:
  "(\<forall>(k, x) \<in> set ps. str_ok k \<and> dict_ok x) \<Longrightarrow>
   distinct (map fst (dict_of ps)) \<and> (\<forall>(k, x) \<in> set (dict_of ps). str_ok k \<and> dict_ok x)"
proof (induction ps rule: rev_induct)
  case (snoc p ps)
  obtain k v where p: "p = (k, v)" by force
  have "set (AList.update k v d) \<subseteq> insert (k, v) (set d)" for d :: obj
    by (induction d) auto
  then have "x \<in> set (AList.update k v (dict_of ps)) \<Longrightarrow> x = (k, v) \<or> x \<in> set (dict_of ps)" for x by blast
  moreover have "dict_of (ps @ [p]) = AList.update k v (dict_of ps)" by (simp add: dict_of_def p)
  ultimately show ?case using snoc p by (fastforce simp: distinct_update)
qed (simp add: dict_of_def)

lemma hooks_ok_default: "hooks_ok default_hooks"
  using dict_of_ok by (auto simp: hooks_ok_def default_hooks_def bindE_Inr_iff)

lemma json_loads_ok: "json_loads s = Inr v \<Longrightarrow> str_ok s \<Longrightarrow> dict_ok v"
  unfolding json_loads_def by (rule json_decode_ok [OF hooks_ok_default])

end
