(* ===== verification/StoreIntegrity.thy ===== *)
theory StoreIntegrity
  imports StoreSpec JsonValues
begin

text \<open>
  The verification of the store: the chain-plus-ledgers walk \<open>_integrity_errors_on\<close>, the
  boundary cache comparison, the startup rebuild \<open>_ensure_boundaries\<close>, and their lemmas: the
  tables of every abstract log verify without a problem, a clean walk establishes the hash
  chain, and two clean logs with the same head hold the same records unless SHA-256 collides
  on the messages hashed.

  The outcome of \<open>PRAGMA integrity_check\<close>, SQLite's own page check, is an input. A JSON
  number with a fraction in a stored response counts as different from every integer.
\<close>


section \<open>Chain walk\<close>

text \<open>Every decoding failure of a record is reported and replaced by an empty object.\<close>

definition walked_record :: "str \<Rightarrow> (obj \<times> bytes) option" where
  "walked_record record_json =
    (case json_loads record_json of
       Inr (JObj record) \<Rightarrow>
        (case canonical_bytes record of Inr encoded \<Rightarrow> Some (record, encoded) | Inl e \<Rightarrow> None)
     | _ \<Rightarrow> None)"

definition column_issues :: "log_row \<Rightarrow> obj \<Rightarrow> issue list" where
  "column_issues row record =
    concat (map (\<lambda>(column, field).
        if map_of record (lit field) = Some (JStr (column row)) then []
        else [Issue ''log sequence has inconsistent column'' (Some (l_seq row))])
      [(l_name, ''name''), (l_source_identity, ''source_identity''), (l_commit_hash, ''commit''),
       (l_content_sha256, ''content_sha256''), (l_status, ''status'')])"

definition row_issues :: "bytes \<Rightarrow> str \<Rightarrow> int \<Rightarrow> log_row \<Rightarrow> issue list" where
  "row_issues prev_bytes previous expected_seq row =
    (let seq = l_seq row;
         (record, encoded) = (case walked_record (l_record_json row) of Some re \<Rightarrow> re | None \<Rightarrow> ([], []))
     in (if seq \<noteq> expected_seq then [Issue ''log sequence follows'' (Some seq)] else []) @
        (if walked_record (l_record_json row) = None
         then [Issue ''log sequence has invalid record JSON'' (Some seq)] else []) @
        (if l_prev_hash row \<noteq> previous then [Issue ''log sequence has wrong previous hash'' (Some seq)] else []) @
        (if l_entry_hash row \<noteq> sha256_hex (prev_bytes @ encoded)
         then [Issue ''log sequence has wrong entry hash'' (Some seq)] else []) @
        (if \<not> timestamp (l_created_at row)
         then [Issue ''log sequence has malformed creation time'' (Some seq)] else []) @
        column_issues row record)"

type_synonym walked_leaf = "int \<times> str \<times> str"

fun walk :: "str \<Rightarrow> int \<Rightarrow> log_row list \<Rightarrow> (issue list \<times> walked_leaf list) res" where
  "walk previous expected_seq [] = Inr ([], [])"
| "walk previous expected_seq (row # rows) =
    bindE (ascii_encode previous) (\<lambda>prev_bytes.
    bindE (walk (l_entry_hash row) (l_seq row + 1) rows) (\<lambda>(issues, walked).
      Inr (row_issues prev_bytes previous expected_seq row @ issues,
           (l_seq row, l_entry_hash row, l_created_at row) # walked)))"


section \<open>Ledgers\<close>

definition foreign_key_issues :: "db \<Rightarrow> issue list" where
  "foreign_key_issues d =
    [Issue ''foreign key violation in idempotency'' (Some (i_seq r)).
       r \<leftarrow> db_idempotency d, log_row_at d (i_seq r) = None] @
    concat (map (\<lambda>m. case m_seq m of
        None \<Rightarrow> []
      | Some n \<Rightarrow> (if log_row_at d n = None then [Issue ''foreign key violation in imported_records'' (Some n)] else []))
      (db_imported d))"

definition metadata_issues :: "db \<Rightarrow> issue list" where
  "metadata_issues d =
    (case map_of (db_metadata d) (lit ''created_at'') of
       Some v \<Rightarrow> (if timestamp v then [] else [Issue ''service creation metadata is missing or malformed'' None])
     | None \<Rightarrow> [Issue ''service creation metadata is missing or malformed'' None]) @
    (if map_of (db_metadata d) (lit ''schema_version'') = Some (lit ''4'') then []
     else [Issue ''database schema metadata is missing or malformed'' None])"

definition idempotency_issues :: "db \<Rightarrow> (int \<times> str) list \<Rightarrow> idempotency_row \<Rightarrow> issue list res" where
  "idempotency_issues d log_hashes row =
    bindE (case json_loads (i_response_json row) of
             Inr v \<Rightarrow> Inr v | Inl JSONDecodeError \<Rightarrow> Inr JNull | Inl e \<Rightarrow> Inl e) (\<lambda>response.
      let seq = i_seq row;
          expected = (case map_of log_hashes seq of
                        Some h \<Rightarrow> Some h | None \<Rightarrow> map_option l_entry_hash (log_row_at d seq));
          ok = (case response of
                  JObj r \<Rightarrow>
                    i_auditor_id row \<noteq> [] \<and> printable_key (i_key row) \<and>
                    keys_of r = {lit ''seq'', lit ''entry_hash''} \<and>
                    py_eq_int (get_or r ''seq'' JNull) seq \<and>
                    get_or r ''entry_hash'' JNull = (case expected of Some h \<Rightarrow> JStr h | None \<Rightarrow> JNull) \<and>
                    hex256 (i_body_sha256 row)
                | _ \<Rightarrow> False)
      in Inr (if ok then [] else [Issue ''idempotency entry is inconsistent'' (Some seq)]))"

definition imported_issues :: "db \<Rightarrow> imported_row \<Rightarrow> issue list res" where
  "imported_issues d row =
    (case m_seq row of
       None \<Rightarrow> Inr [Issue ''import fingerprint has no log sequence'' None]
     | Some seq \<Rightarrow>
        (case log_row_at d seq of
           None \<Rightarrow> Inr [Issue ''import fingerprint is orphaned'' (Some seq)]
         | Some record_row \<Rightarrow>
            bindE (case json_loads (l_record_json record_row) of
                     Inr v \<Rightarrow> Inr v | Inl JSONDecodeError \<Rightarrow> Inr JNull | Inl e \<Rightarrow> Inl e) (\<lambda>record.
            bindE (import_fingerprint record) (\<lambda>fingerprint.
              Inr (if fingerprint \<noteq> Some (m_fingerprint row)
                   then [Issue ''import fingerprint is inconsistent'' (Some seq)] else [])))))"

definition high_water_ok :: "upstream_high_water \<Rightarrow> bool" where
  "high_water_ok w \<longleftrightarrow>
    length (hw_key_id w) = 16 \<and> (\<forall>c \<in> set (hw_key_id w). c \<in> set (lit ''0123456789abcdef'')) \<and>
    0 \<le> hw_version w \<and> 0 \<le> hw_log_size w \<and> hw_log_size w \<le> hw_version w \<and>
    hex256 (hw_head w) \<and> hex256 (hw_merkle_root w) \<and> timestamp (hw_updated_at w)"

definition high_water_issues :: "upstream_high_water \<Rightarrow> issue list" where
  "high_water_issues w = (if high_water_ok w then [] else [Issue ''upstream high-water is malformed'' None])"

definition integrity_errors_on :: "string list \<Rightarrow> db \<Rightarrow> (issue list \<times> walked_leaf list) res" where
  "integrity_errors_on database_integrity d =
    bindE (walk GENESIS 1 (db_log d)) (\<lambda>(chain, walked).
    bindE (mapE (idempotency_issues d (rev (map (\<lambda>(seq, h, t). (seq, h)) walked))) (db_idempotency d)) (\<lambda>ledger.
    bindE (mapE (imported_issues d) (db_imported d)) (\<lambda>imports.
      Inr ((if database_integrity \<noteq> [''ok'']
            then map (\<lambda>message. Issue (''SQLite integrity check: '' @ message) None) database_integrity else []) @
           foreign_key_issues d @ metadata_issues d @ chain @ concat ledger @ concat imports @
           concat (map high_water_issues (db_high_water d)), walked))))"

definition verify_chain :: "string list \<Rightarrow> db \<Rightarrow> bool res" where
  "verify_chain database_integrity d =
    bindE (integrity_errors_on database_integrity d) (\<lambda>(errors, _). Inr (errors = []))"


section \<open>Boundary cache\<close>

type_synonym cached = "str \<times> str \<times> str"

definition stored_boundaries :: "db \<Rightarrow> (int \<times> cached) list" where
  "stored_boundaries d =
    map (\<lambda>b. (b_log_size b, b_head b, b_merkle_root b, b_created_at b)) (db_boundaries d)"

definition frontier_matches :: "frontier_level list \<Rightarrow> frontier_level list \<Rightarrow> bool" where
  "frontier_matches stored want \<longleftrightarrow>
    length stored = length want \<and>
    list_all (\<lambda>(a, w). fl_length a = fl_length w \<and> fl_tail a = fl_tail w) (zip stored want)"

definition boundary_cache_errors ::
  "cached list \<Rightarrow> (int \<times> cached) list \<Rightarrow> nat \<Rightarrow> int \<Rightarrow> int option \<Rightarrow>
   frontier_level list \<Rightarrow> frontier_level list \<Rightarrow> issue list" where
  "boundary_cache_errors expected stored walked_size live_size frontier_length stored_frontier recomputed_frontier =
    concat (map (\<lambda>(size, boundary).
        case map_of stored (int size) of
          None \<Rightarrow> [Issue ''snapshot boundary cache is missing log size'' (Some (int size))]
        | Some cached \<Rightarrow>
           (if cached \<noteq> boundary then [Issue ''snapshot boundary cache disagrees with the committed log'' None] else []))
      (enumerate 1 expected)) @
    concat (map (\<lambda>(size, _).
        if size < 1 then [Issue ''snapshot boundary cache references invalid log size'' (Some size)]
        else if size > live_size then [Issue ''snapshot boundary cache references uncommitted log size'' (Some size)]
        else []) stored) @
    (if \<not> (frontier_length = Some live_size \<or> (frontier_length = None \<and> live_size = 0))
     then [Issue ''merkle frontier does not match the log head'' None]
     else if live_size = int walked_size then
       (if frontier_matches stored_frontier recomputed_frontier then []
        else [Issue ''merkle frontier disagrees with the committed log'' None])
     else [])"

definition verify_boundary_cache_on :: "db \<Rightarrow> walked_leaf list \<Rightarrow> issue list res" where
  "verify_boundary_cache_on d walked =
    bindE (recompute_prefix (map (\<lambda>(seq, h, t). (h, t)) walked)) (\<lambda>(expected, recomputed).
      let frontier_len = map_option f_len (find (\<lambda>r. f_level r = 0) (db_frontier d));
          live_head = (if db_log d = [] then 0 else fold max (map l_seq (db_log d)) (l_seq (hd (db_log d))))
      in case load_frontier d of
           Inl (StoreIntegrityError m) \<Rightarrow> Inr [Issue (''merkle frontier encoding is invalid: '' @ m) None]
         | Inl e \<Rightarrow> Inl e
         | Inr stored_frontier \<Rightarrow>
            Inr (boundary_cache_errors expected (stored_boundaries d) (length walked) live_head
                  frontier_len stored_frontier recomputed))"

text \<open>
  \<open>_ensure_boundaries\<close> with no other writer: the loop repeats only when the log head moved
  between its reads.
\<close>

definition ensure_boundaries :: "db \<Rightarrow> db res" where
  "ensure_boundaries d =
    (let rows = db_log d; size = length rows in
     bindE (guardE (list_all (\<lambda>(index, row). l_seq row = int index) (enumerate 1 rows))
              (StoreIntegrityError ''log sequence is not contiguous'')) (\<lambda>_.
     bindE (recompute_prefix (map (\<lambda>row. (l_entry_hash row, l_created_at row)) rows)) (\<lambda>(expected, frontier).
       let stored = stored_boundaries d in
     bindE (guardE (list_all (\<lambda>(log_size, _). \<not> (log_size < 1 \<or> log_size > int size)) stored)
              (StoreIntegrityError ''snapshot boundary cache is inconsistent'')) (\<lambda>_.
     bindE (guardE (list_all (\<lambda>(index, boundary).
                     case map_of stored (int index) of None \<Rightarrow> True | Some cached \<Rightarrow> cached = boundary)
                   (enumerate 1 expected))
              (StoreIntegrityError ''snapshot boundary cache disagrees with the committed log'')) (\<lambda>_.
       let missing = filter (\<lambda>(index, _). map_of stored (int index) = None) (enumerate 1 expected) in
     bindE (case load_frontier d of
              Inr stored_frontier \<Rightarrow> Inr (frontier_matches stored_frontier frontier)
            | Inl (StoreIntegrityError m) \<Rightarrow> Inr False
            | Inl e \<Rightarrow> Inl e) (\<lambda>matches.
       Inr (if missing = [] \<and> matches then d
            else save_frontier frontier
              (d\<lparr>db_boundaries := sort_key b_log_size (db_boundaries d @
                   map (\<lambda>(index, head, merkle, created_at).
                     \<lparr>b_log_size = int index, b_head = head, b_merkle_root = merkle, b_created_at = created_at\<rparr>)
                   missing)\<rparr>))))))))"


section \<open>Records read back\<close>

lemma sort_key_idem: "sort_key f (sort_key f xs) = sort_key f xs"
  by (simp add: sort_key_id_if_sorted)

lemma sort_json_idem [simp]: "sort_json (sort_json v) = sort_json v"
proof (induction v)
  case (JObj kvs)
  then have "map (map_prod id sort_json) (map (map_prod id sort_json) kvs) = map (map_prod id sort_json) kvs"
    by (auto simp: map_prod_def)
  then show ?case by (simp only: sort_json.simps sort_key_map_prod [symmetric] sort_key_idem)
qed (auto simp: map_idI)

definition sorted_record :: "obj \<Rightarrow> obj" where
  "sorted_record r = sort_key fst (map (map_prod id sort_json) r)"

lemma sort_json_JObj: "sort_json (JObj r) = JObj (sorted_record r)"
  by (simp add: sorted_record_def)

lemma without_sorted_record: "without k (sorted_record r) = sorted_record (without k r)"
proof -
  have "without k (map (map_prod id sort_json) r) = map (map_prod id sort_json) (without k r)"
    by (induction r) (auto simp: without_def)
  then show ?thesis by (simp add: sorted_record_def without_def filter_sort)
qed

lemma canonical_document_sort:
  assumes "canonical_document v = Inr b"
  shows "canonical_document (sort_json v) = Inr b"
  using assms by (simp add: canonical_document_def bindE_Inr_iff validate_ccj_top json_dumps_sorted)

lemma canonical_bytes_sorted:
  "canonical_bytes r = Inr b \<Longrightarrow> canonical_bytes (sorted_record r) = Inr b"
  unfolding canonical_bytes_def Let_def without_sorted_record sort_json_JObj [symmetric]
  by (rule canonical_document_sort)

lemma map_of_sorted_record:
  assumes "dict_ok (JObj r)"
  shows "map_of (sorted_record r) k = map_option sort_json (map_of r k)"
proof -
  have "map fst (map (map_prod id sort_json) r) = map fst r" by simp
  then have "map_of (sorted_record r) k = map_of (map (map_prod id sort_json) r) k"
    using assms unfolding sorted_record_def by (subst sort_key_fst_map_of) (simp_all only: dict_ok_JObj)
  also have "\<dots> = map_option sort_json (map_of r k)" by (induction r) auto
  finally show ?thesis .
qed

lemma walked_record_dumps:
  assumes "dict_ok (JObj r)" "plain (JObj r)" "canonical_bytes r = Inr b"
  shows "walked_record (json_dumps True (JObj r)) = Some (sorted_record r, b)"
  using json_loads_dumps [OF assms(1,2)] canonical_bytes_sorted [OF assms(3)]
  by (simp only: walked_record_def sort_json_JObj sum.case json.case)

lemma sort_json_JStr [simp]: "sort_json v = JStr s \<longleftrightarrow> v = JStr s"
  by (cases v) auto

lemma sort_json_not_JStr: "(\<nexists>s. v = JStr s) \<Longrightarrow> (\<nexists>s. sort_json v = JStr s)"
  by simp

definition text_of :: "json option \<Rightarrow> str option" where
  "text_of v = (case v of Some (JStr s) \<Rightarrow> Some s | _ \<Rightarrow> None)"

lemma text_of_sort [simp]: "text_of (map_option sort_json v) = text_of v"
  by (cases v) (auto simp: text_of_def split: json.splits)

text \<open>The signature an endorsement contributes, or nothing.\<close>

definition endorsement_signature :: "json \<Rightarrow> str option" where
  "endorsement_signature e =
    (case e of JObj r \<Rightarrow>
      (if text_of (map_of r (lit ''endorser'')) = Some (lit ''upstream-import'') then
        (case map_of r (lit ''sig'') of
           Some (JObj envelope) \<Rightarrow> text_of (map_of envelope (lit ''signature'')) | _ \<Rightarrow> None)
       else None)
    | _ \<Rightarrow> None)"

lemma text_of_Some [simp]: "text_of v = Some s \<longleftrightarrow> v = Some (JStr s)"
  by (auto simp: text_of_def split: option.splits json.splits)

lemma import_signature_step:
  "import_signature (e # es) =
    (case endorsement_signature e of Some s \<Rightarrow> JStr s | None \<Rightarrow> import_signature es)"
proof (cases e)
  case (JObj r)
  show ?thesis
  proof (cases "map_of r (lit ''sig'')")
    case (Some s)
    then show ?thesis
      by (cases s) (auto simp: JObj endorsement_signature_def text_of_def split: option.splits json.splits)
  qed (simp add: JObj endorsement_signature_def)
qed (simp_all add: endorsement_signature_def)

lemma endorsement_signature_sort: "dict_ok e \<Longrightarrow> endorsement_signature (sort_json e) = endorsement_signature e"
proof (cases e)
  case (JObj r)
  assume "dict_ok e"
  then have r: "dict_ok (JObj r)" by (simp add: JObj)
  have e: "sort_json e = JObj (sorted_record r)" by (simp only: JObj sort_json_JObj)
  show ?thesis
  proof (cases "map_of r (lit ''sig'')")
    case (Some s)
    with r have "dict_ok s" by (auto dest!: map_of_SomeD)
    with Some show ?thesis
      by (cases s) (simp_all add: e JObj endorsement_signature_def map_of_sorted_record [OF r]
          sort_json_JObj map_of_sorted_record del: sort_json.simps(7))
  qed (simp add: e JObj endorsement_signature_def map_of_sorted_record [OF r] sort_json_JObj
        del: sort_json.simps(7))
qed (simp_all add: endorsement_signature_def)

lemma import_signature_sort:
  "\<forall>e \<in> set es. dict_ok e \<Longrightarrow> import_signature (map sort_json es) = import_signature es"
  by (induction es)
    (auto simp: import_signature_step endorsement_signature_sort simp del: import_signature.simps(2) split: option.splits)

lemma nonempty_text_sort [simp]: "nonempty_text (sort_json v) = nonempty_text v"
  by (cases v) (simp_all add: nonempty_text_def)

lemma get_or_sorted_record:
  "dict_ok (JObj r) \<Longrightarrow> get_or (sorted_record r) k JNull = sort_json (get_or r k JNull)"
  by (simp add: map_of_sorted_record split: option.splits)

lemma sort_json_text: "nonempty_text v \<Longrightarrow> sort_json v = v"
  by (cases v) (simp_all add: nonempty_text_def)

lemma import_fingerprint_sort:
  assumes "dict_ok (JObj r)"
  shows "import_fingerprint (sort_json (JObj r)) = import_fingerprint (JObj r)"
proof (cases "map_of r (lit ''endorsements'')")
  case (Some v)
  have "dict_ok v" using assms Some by (auto dest!: map_of_SomeD)
  note m = map_of_sorted_record [OF assms] get_or_sorted_record [OF assms]
  show ?thesis
  proof (cases v)
    case (JArr es)
    with \<open>dict_ok v\<close> have "import_signature (map sort_json es) = import_signature es"
      by (simp add: import_signature_sort)
    then show ?thesis
      unfolding sort_json_JObj import_fingerprint_def json.case m(2) Let_def
      using Some JArr by (simp add: m(1) sort_json_text)
  qed (use Some in \<open>simp_all add: sort_json_JObj import_fingerprint_def m del: sort_json.simps(7)\<close>)
qed (simp add: sort_json_JObj import_fingerprint_def map_of_sorted_record [OF assms] del: sort_json.simps(7))


section \<open>Intact tables verify\<close>

lemma entry_okD:
  assumes "entry_ok e"
  shows "canonical_bytes (fst e) = Inr (chain_bytes (fst e))"
    and "walked_record (json_dumps True (JObj (fst e))) = Some (sorted_record (fst e), chain_bytes (fst e))"
    and "key \<in> set indexed_fields \<Longrightarrow> map_of (fst e) (lit key) = Some (JStr (field_text (fst e) key))"
proof -
  from assms show c: "canonical_bytes (fst e) = Inr (chain_bytes (fst e))"
    by (auto simp: entry_ok_def admit_def bindE_Inr_iff chain_bytes_def)
  from assms have "dict_ok (JObj (fst e))" "plain (JObj (fst e))" by (simp_all add: entry_ok_def)
  from walked_record_dumps [OF this c]
  show "walked_record (json_dumps True (JObj (fst e))) = Some (sorted_record (fst e), chain_bytes (fst e))" .
  assume "key \<in> set indexed_fields"
  with assms have "nonempty_text (get_or (fst e) key JNull)"
    by (auto simp: entry_ok_def admit_def bindE_Inr_iff require_fields_def)
  then show "map_of (fst e) (lit key) = Some (JStr (field_text (fst e) key))"
    by (auto simp: nonempty_text_def field_text_def get_str_def split: option.splits json.splits)
qed

lemma leaves_nth: "i < length es \<Longrightarrow> leaves es ! i = leaf_hash (head_of (take i (leaves es))) (fst (es ! i))"
proof -
  assume i: "i < length es"
  have "take (Suc i) (leaves es) = leaves (take i es @ [es ! i])"
    using i by (simp add: leaves_take [symmetric] take_Suc_conv_app_nth)
  also have "\<dots> = take i (leaves es) @ [leaf_hash (head_of (take i (leaves es))) (fst (es ! i))]"
    by (simp add: leaves_take)
  finally show ?thesis using i by (simp add: take_Suc_conv_app_nth)
qed

lemma row_issues_ok:
  assumes "i < length es" "entry_ok (es ! i)"
  shows "row_issues (map byte_of (head_of (take i (leaves es)))) (head_of (take i (leaves es))) (int (i + 1)) (row_at es i) = []"
proof -
  note e = entry_okD [OF assms(2)]
  have d: "dict_ok (JObj (fst (es ! i)))" and t: "timestamp (snd (es ! i))"
    using assms(2) by (simp_all add: entry_ok_def)
  have "column_issues (row_at es i) (sorted_record (fst (es ! i))) = []"
    using e(3) by (simp add: column_issues_def map_of_sorted_record [OF d] indexed_fields_def row_at_def mk_row_def)
  moreover have "l_entry_hash (row_at es i) =
      sha256_hex (map byte_of (head_of (take i (leaves es))) @ chain_bytes (fst (es ! i)))"
    using assms(1) by (simp add: row_at_def mk_row_def leaves_nth leaf_hash_def sha256_hex_def)
  ultimately show ?thesis
    using e(2) t by (simp add: row_issues_def) (simp add: row_at_def mk_row_def)
qed

definition walked_of :: "entry list \<Rightarrow> walked_leaf list" where
  "walked_of es = map (\<lambda>j. (int (j + 1), hex (leaves es ! j), snd (es ! j))) [0..<length es]"

lemma walk_rows_from:
  assumes "\<forall>e \<in> set es. entry_ok e" "i \<le> length es"
  shows "walk (head_of (take i (leaves es))) (int (i + 1)) (map (row_at es) [i..<length es]) =
    Inr ([], map (\<lambda>j. (int (j + 1), hex (leaves es ! j), snd (es ! j))) [i..<length es])"
  using assms(2)
proof (induction i rule: inc_induct)
  case (step i)
  let ?p = "head_of (take i (leaves es))"
  have nx: "l_entry_hash (row_at es i) = head_of (take (Suc i) (leaves es))" "l_seq (row_at es i) = int (i + 1)"
    "l_created_at (row_at es i) = snd (es ! i)" "l_entry_hash (row_at es i) = hex (leaves es ! i)"
    using step(2) by (simp_all add: row_at_def mk_row_def head_of_def take_Suc_conv_app_nth)
  have "[i..<length es] = i # [Suc i..<length es]" using step(2) by (rule upt_conv_Cons)
  moreover have "row_issues (map byte_of ?p) ?p (int (i + 1)) (row_at es i) = []"
    using step(2) assms(1) by (intro row_issues_ok) simp_all
  ultimately show ?case
    using step.IH nx by (simp add: ascii_encode_head add.commute)
qed simp

lemma walk_ok:
  assumes "tables_ok d es"
  shows "walk GENESIS 1 (db_log d) = Inr ([], walked_of es)"
  using walk_rows_from [of es 0] assms
  by (simp add: tables_ok_def rows_of_def walked_of_def head_of_def)


section \<open>Ledgers that refer to the log\<close>

definition response_of :: "entry list \<Rightarrow> int \<Rightarrow> obj" where
  "response_of es n = [(lit ''seq'', JInt n), (lit ''entry_hash'', JStr (hex (leaves es ! (nat n - 1))))]"

definition idempotency_ok :: "entry list \<Rightarrow> idempotency_row \<Rightarrow> bool" where
  "idempotency_ok es r \<longleftrightarrow>
    i_auditor_id r \<noteq> [] \<and> printable_key (i_key r) \<and> hex256 (i_body_sha256 r) \<and>
    1 \<le> i_seq r \<and> i_seq r \<le> int (length es) \<and>
    i_response_json r = json_dumps False (JObj (response_of es (i_seq r)))"

definition imported_ok :: "entry list \<Rightarrow> imported_row \<Rightarrow> bool" where
  "imported_ok es m \<longleftrightarrow>
    (case m_seq m of
       Some n \<Rightarrow> 1 \<le> n \<and> n \<le> int (length es) \<and>
         import_fingerprint (JObj (fst (es ! (nat n - 1)))) = Inr (Some (m_fingerprint m))
     | None \<Rightarrow> False)"

definition metadata_ok :: "str dict \<Rightarrow> bool" where
  "metadata_ok m \<longleftrightarrow>
    (case map_of m (lit ''created_at'') of Some t \<Rightarrow> timestamp t | None \<Rightarrow> False) \<and>
    map_of m (lit ''schema_version'') = Some (lit ''4'')"

definition ledgers_ok :: "db \<Rightarrow> entry list \<Rightarrow> bool" where
  "ledgers_ok d es \<longleftrightarrow>
    metadata_ok (db_metadata d) \<and>
    (\<forall>r \<in> set (db_idempotency d). idempotency_ok es r) \<and>
    distinct (map (\<lambda>r. (i_auditor_id r, i_key r)) (db_idempotency d)) \<and>
    (\<forall>m \<in> set (db_imported d). imported_ok es m) \<and>
    (\<forall>w \<in> set (db_high_water d). high_water_ok w) \<and>
    distinct (map hw_key_id (db_high_water d))"

text \<open>A sequence number is a 64-bit signed rowid, which bounds the log.\<close>

definition db_ok :: "db \<Rightarrow> entry list \<Rightarrow> bool" where
  "db_ok d es \<longleftrightarrow> tables_ok d es \<and> ledgers_ok d es \<and> length es < 2 ^ 63"

lemma idempotency_ok_snoc: "idempotency_ok es r \<Longrightarrow> idempotency_ok (es @ [e]) r"
  by (auto simp: idempotency_ok_def response_of_def nth_append nat_less_iff)

lemma imported_ok_snoc: "imported_ok es m \<Longrightarrow> imported_ok (es @ [e]) m"
  by (auto simp: imported_ok_def nth_append nat_less_iff split: option.splits)

lemma ledgers_ok_extend: "ledgers_ok d es \<Longrightarrow> ledgers_ok (extended d es e) (es @ [e])"
  by (auto simp: ledgers_ok_def idempotency_ok_snoc imported_ok_snoc)

lemma extend_db_ok:
  assumes "db_ok d es" "entry_ok e" "length es + 1 < 2 ^ 63"
  shows "db_ok (extended d es e) (es @ [e])"
  using assms by (simp add: db_ok_def extend_tables_ok ledgers_ok_extend)

lemma response_loads:
  assumes "1 \<le> n" "n \<le> int (length es)" "length es < 2 ^ 63"
  shows "json_loads (json_dumps False (JObj (response_of es n))) = Inr (JObj (response_of es n))"
proof (rule json_loads_dumps_unsorted)
  have "length (int_text n) \<le> 19"
    using assms length_nat_text [of "nat n" 19] by (simp add: int_text_def nat_less_iff)
  then show "plain (JObj (response_of es n))" by (simp add: response_of_def)
  have "str_ok (hex b)" for b using hex_chars [of _ b] by (fastforce simp: str_ok_def)
  then show "dict_ok (JObj (response_of es n))" by (simp add: response_of_def)
qed

lemma map_of_walked:
  assumes "1 \<le> n" "n \<le> int (length es)"
  shows "map_of (rev (map (\<lambda>(seq, h, t). (seq, h)) (walked_of es))) n = Some (hex (leaves es ! (nat n - 1)))"
proof -
  let ?xs = "map (\<lambda>j. (int (j + 1), hex (leaves es ! j))) [0..<length es]"
  have xs: "map (\<lambda>(seq, h, t). (seq, h)) (walked_of es) = ?xs" by (simp add: walked_of_def comp_def)
  have "distinct (map fst (rev ?xs))" by (simp add: comp_def distinct_map inj_on_def rev_map [symmetric])
  moreover have "(n, hex (leaves es ! (nat n - 1))) \<in> set (rev ?xs)"
    using assms by (auto simp: image_iff intro!: bexI [of _ "nat n - 1"])
  ultimately show ?thesis unfolding xs by (simp only: map_of_eq_Some_iff)
qed

lemma log_row_at_ok:
  "tables_ok d es \<Longrightarrow> 1 \<le> n \<Longrightarrow> n \<le> int (length es) \<Longrightarrow> log_row_at d n = Some (row_at es (nat n - 1))"
  by (simp add: log_row_at_def tables_ok_def find_row)

lemma idempotency_issues_ok:
  assumes "idempotency_ok es r" "length es < 2 ^ 63"
  shows "idempotency_issues d (rev (map (\<lambda>(seq, h, t). (seq, h)) (walked_of es))) r = Inr []"
proof -
  have n: "1 \<le> i_seq r" "i_seq r \<le> int (length es)" using assms(1) by (simp_all add: idempotency_ok_def)
  have "keys_of (response_of es (i_seq r)) = {lit ''seq'', lit ''entry_hash''}"
    by (auto simp: response_of_def)
  then show ?thesis
    using assms(1) response_loads [OF n assms(2)] map_of_walked [OF n]
    by (simp add: idempotency_issues_def idempotency_ok_def) (simp add: response_of_def py_eq_int_def)
qed

lemma imported_issues_at:
  assumes "tables_ok d es" "m_seq m = Some n" "1 \<le> n" "n \<le> int (length es)"
    and f: "import_fingerprint (JObj (fst (es ! (nat n - 1)))) = Inr fingerprint"
  shows "imported_issues d m =
    Inr (if fingerprint \<noteq> Some (m_fingerprint m) then [Issue ''import fingerprint is inconsistent'' (Some n)] else [])"
proof -
  let ?e = "es ! (nat n - 1)"
  have "entry_ok ?e" using assms(1-4) by (simp add: tables_ok_def)
  then have d: "dict_ok (JObj (fst ?e))" "plain (JObj (fst ?e))" by (simp_all add: entry_ok_def)
  have "json_loads (l_record_json (row_at es (nat n - 1))) = Inr (sort_json (JObj (fst ?e)))"
    using json_loads_dumps [OF d] by (simp add: row_at_def mk_row_def del: sort_json.simps)
  then show ?thesis
    using f assms(2) log_row_at_ok [OF assms(1,3,4)] import_fingerprint_sort [OF d(1)]
    by (simp add: imported_issues_def del: sort_json.simps)
qed

lemma imported_issues_ok:
  assumes "imported_ok es m" "tables_ok d es"
  shows "imported_issues d m = Inr []"
proof -
  from assms(1) obtain n where "m_seq m = Some n" "1 \<le> n" "n \<le> int (length es)"
    "import_fingerprint (JObj (fst (es ! (nat n - 1)))) = Inr (Some (m_fingerprint m))"
    by (auto simp: imported_ok_def split: option.splits)
  from imported_issues_at [OF assms(2) this] show ?thesis by simp
qed

lemma mapE_Nil: "(\<And>x. x \<in> set xs \<Longrightarrow> f x = Inr []) \<Longrightarrow> \<exists>ys. mapE f xs = Inr ys \<and> concat ys = []"
proof -
  assume "\<And>x. x \<in> set xs \<Longrightarrow> f x = Inr []"
  then have "mapE f xs = Inr (map (\<lambda>_. []) xs)" by (rule mapE_map)
  then show ?thesis by auto
qed

lemma integrity_errors_ok:
  assumes "db_ok d es"
  shows "integrity_errors_on [''ok''] d = Inr ([], walked_of es)"
proof -
  have t: "tables_ok d es" and l: "ledgers_ok d es" and n: "length es < 2 ^ 63"
    using assms by (simp_all add: db_ok_def)
  have "idempotency_issues d (rev (map (\<lambda>(seq, h, t). (seq, h)) (walked_of es))) r = Inr []"
    if "r \<in> set (db_idempotency d)" for r
    using that l n by (intro idempotency_issues_ok) (simp_all add: ledgers_ok_def)
  then obtain a where a: "mapE (idempotency_issues d (rev (map (\<lambda>(seq, h, t). (seq, h)) (walked_of es))))
      (db_idempotency d) = Inr a" "concat a = []"
    using mapE_Nil by blast
  have "imported_issues d m = Inr []" if "m \<in> set (db_imported d)" for m
    using that l t by (intro imported_issues_ok) (simp_all add: ledgers_ok_def)
  then obtain b where b: "mapE (imported_issues d) (db_imported d) = Inr b" "concat b = []"
    using mapE_Nil by blast
  have "concat (map high_water_issues (db_high_water d)) = []"
    using l by (simp add: ledgers_ok_def high_water_issues_def)
  moreover have "metadata_issues d = []"
    using l by (auto simp: ledgers_ok_def metadata_ok_def metadata_issues_def split: option.splits)
  moreover have "foreign_key_issues d = []"
    using l t log_row_at_ok [OF t]
    by (auto simp: ledgers_ok_def foreign_key_issues_def idempotency_ok_def imported_ok_def split: option.splits)
  ultimately show ?thesis
    using a b walk_ok [OF t] by (simp add: integrity_errors_on_def)
qed


section \<open>A clean walk establishes the chain\<close>

definition prev_at :: "log_row list \<Rightarrow> nat \<Rightarrow> str" where
  "prev_at rows i = (if i = 0 then GENESIS else l_entry_hash (rows ! (i - 1)))"

definition record_at :: "log_row list \<Rightarrow> nat \<Rightarrow> obj \<times> bytes" where
  "record_at rows i = (case walked_record (l_record_json (rows ! i)) of Some re \<Rightarrow> re | None \<Rightarrow> ([], []))"

text \<open>The message whose SHA-256 digest is the entry hash of row \<open>i\<close>.\<close>

definition message_at :: "log_row list \<Rightarrow> nat \<Rightarrow> bytes" where
  "message_at rows i = map byte_of (prev_at rows i) @ snd (record_at rows i)"

definition chained :: "log_row list \<Rightarrow> nat \<Rightarrow> bool" where
  "chained rows i \<longleftrightarrow>
    l_seq (rows ! i) = int (i + 1) \<and> l_prev_hash (rows ! i) = prev_at rows i \<and>
    walked_record (l_record_json (rows ! i)) \<noteq> None \<and>
    l_entry_hash (rows ! i) = sha256_hex (message_at rows i) \<and>
    timestamp (l_created_at (rows ! i)) \<and> column_issues (rows ! i) (fst (record_at rows i)) = []"

lemma row_issues_Nil:
  "row_issues pb p n row = [] \<longleftrightarrow>
    l_seq row = n \<and> l_prev_hash row = p \<and>
    (\<exists>r b. walked_record (l_record_json row) = Some (r, b) \<and> l_entry_hash row = sha256_hex (pb @ b) \<and>
       column_issues row r = []) \<and> timestamp (l_created_at row)"
  by (cases "walked_record (l_record_json row)") (auto simp: row_issues_def Let_def split: if_splits)

lemma walk_clean_nth:
  assumes "walk p n rows = Inr ([], ls)" "i < length rows"
  shows "l_seq (rows ! i) = n + int i \<and> l_prev_hash (rows ! i) = (if i = 0 then p else l_entry_hash (rows ! (i - 1))) \<and>
    (\<exists>r b. walked_record (l_record_json (rows ! i)) = Some (r, b) \<and>
       l_entry_hash (rows ! i) = sha256_hex (map byte_of (if i = 0 then p else l_entry_hash (rows ! (i - 1))) @ b) \<and>
       column_issues (rows ! i) r = []) \<and> timestamp (l_created_at (rows ! i))"
  using assms
proof (induction rows arbitrary: p n ls i)
  case (Cons row rows)
  from Cons.prems(1) obtain pb issues ls' where a: "ascii_encode p = Inr pb"
    and w: "walk (l_entry_hash row) (l_seq row + 1) rows = Inr (issues, ls')"
    and i: "row_issues pb p n row = []" "issues = []"
    by (auto simp: bindE_Inr_iff)
  have pb: "pb = map byte_of p" using a by (auto simp: ascii_encode_def split: if_splits)
  show ?case
  proof (cases i)
    case 0
    then show ?thesis using i(1) pb by (auto simp: row_issues_Nil)
  next
    case (Suc j)
    have "l_seq row = n" using i(1) by (simp add: row_issues_Nil)
    with Cons.IH [OF w [unfolded i(2)], of j] Cons.prems(2) Suc show ?thesis by (cases j) auto
  qed
qed simp

lemma walk_clean_chained:
  assumes "walk GENESIS 1 rows = Inr ([], ls)" "i < length rows"
  shows "chained rows i"
  using walk_clean_nth [OF assms] by (auto simp: chained_def prev_at_def record_at_def message_at_def)

lemma integrity_clean_chained:
  assumes "integrity_errors_on pragma d = Inr ([], ls)" "i < length (db_log d)"
  shows "chained (db_log d) i"
  using assms walk_clean_chained by (auto simp: integrity_errors_on_def bindE_Inr_iff)


section \<open>Tamper evidence\<close>

lemma map_byte_of_inj:
  "\<forall>c \<in> set s. c < 256 \<Longrightarrow> \<forall>c \<in> set t. c < 256 \<Longrightarrow> map byte_of s = map byte_of t \<Longrightarrow> s = t"
proof -
  have "map unat (map byte_of s) = s" if "\<forall>c \<in> set s. c < 256" for s
    using that by (induction s) simp_all
  then show "\<forall>c \<in> set s. c < 256 \<Longrightarrow> \<forall>c \<in> set t. c < 256 \<Longrightarrow> map byte_of s = map byte_of t \<Longrightarrow> s = t"
    by metis
qed

lemma prev_at_hex:
  assumes "i < length rows" "\<forall>j < length rows. chained rows j"
  shows "length (prev_at rows i) = 64" "\<forall>c \<in> set (prev_at rows i). c < 256"
proof -
  have "i = 0 \<or> prev_at rows i = sha256_hex (message_at rows (i - 1))"
    using assms by (auto simp: prev_at_def chained_def)
  then show "length (prev_at rows i) = 64" "\<forall>c \<in> set (prev_at rows i). c < 256"
    using hex_chars by (fastforce simp: prev_at_def GENESIS_def sha256_hex_def)+
qed

lemma chain_determines_messages:
  assumes "\<forall>j < n. chained rows j" "\<forall>j < n. chained rows' j" "length rows = n" "length rows' = n"
    and head: "0 < n \<Longrightarrow> l_entry_hash (last rows) = l_entry_hash (last rows')"
    and inj: "inj_on sha256 (message_at rows ` {..<n} \<union> message_at rows' ` {..<n})"
    and "i < n"
  shows "message_at rows i = message_at rows' i \<and> l_entry_hash (rows ! i) = l_entry_hash (rows' ! i)"
proof -
  have same: "message_at rows j = message_at rows' j" if "j < n" "l_entry_hash (rows ! j) = l_entry_hash (rows' ! j)" for j
  proof -
    have "sha256 (message_at rows j) = sha256 (message_at rows' j)"
      using assms(1,2) that by (auto simp: chained_def)
    then show ?thesis using inj that(1) by (auto dest: inj_onD)
  qed
  have "l_entry_hash (rows ! (n - 1 - k)) = l_entry_hash (rows' ! (n - 1 - k))" if "k < n" for k
    using that
  proof (induction k)
    case 0
    then show ?case using head assms(3,4) by (metis One_nat_def diff_zero last_conv_nth length_greater_0_conv)
  next
    case (Suc k)
    let ?j = "n - 1 - k"
    have j: "?j < n" "?j \<noteq> 0" "n - 1 - Suc k = ?j - 1" using Suc.prems by auto
    have "message_at rows ?j = message_at rows' ?j" using Suc j by (intro same) simp_all
    then have "map byte_of (prev_at rows ?j) = map byte_of (prev_at rows' ?j)"
      using prev_at_hex(1) [of ?j rows] prev_at_hex(1) [of ?j rows'] assms(1-4) j
      by (simp add: message_at_def)
    then have "prev_at rows ?j = prev_at rows' ?j"
      using prev_at_hex(2) [of ?j rows] prev_at_hex(2) [of ?j rows'] assms(1-4) j by (intro map_byte_of_inj) simp_all
    then show ?case using j by (simp add: prev_at_def)
  qed
  from this [of "n - 1 - i"] have "l_entry_hash (rows ! i) = l_entry_hash (rows' ! i)" using \<open>i < n\<close> by simp
  with same \<open>i < n\<close> show ?thesis by simp
qed

definition body_of :: "obj \<Rightarrow> json" where
  "body_of r = sort_json (JObj (without (lit ''sig'') r))"

lemma walked_record_Some:
  "walked_record t = Some (r, b) \<Longrightarrow> str_ok t \<Longrightarrow> dict_ok (JObj r) \<and> canonical_bytes r = Inr b"
  using json_loads_ok [of t "JObj r"] by (auto simp: walked_record_def split: sum.splits json.splits)

lemma dict_ok_without: "dict_ok (JObj r) \<Longrightarrow> dict_ok (JObj (without k r))"
  by (auto simp: without_def distinct_map_filter)

lemma body_of_field:
  assumes "dict_ok (JObj r)" "dict_ok (JObj r')" "body_of r = body_of r'" "k \<noteq> lit ''sig''"
    "map_of r k = Some (JStr s)" "map_of r' k = Some (JStr s')"
  shows "s = s'"
proof -
  have "sorted_record (without (lit ''sig'') r) = sorted_record (without (lit ''sig'') r')"
    using assms(3) by (simp only: body_of_def sort_json_JObj json.inject)
  then have "map_of (sorted_record (without (lit ''sig'') r)) k = map_of (sorted_record (without (lit ''sig'') r')) k"
    by simp
  then show ?thesis
    using assms(4-6) by (simp add: map_of_sorted_record dict_ok_without assms(1,2) del: dict_ok_JObj)
qed

lemma chain_determines_records:
  assumes "\<forall>j < n. chained rows j" "\<forall>j < n. chained rows' j" "length rows = n" "length rows' = n"
    and "0 < n \<Longrightarrow> l_entry_hash (last rows) = l_entry_hash (last rows')"
    and "inj_on sha256 (message_at rows ` {..<n} \<union> message_at rows' ` {..<n})"
    and text_ok: "\<forall>row \<in> set rows \<union> set rows'. str_ok (l_record_json row)"
    and i: "i < n"
  shows "body_of (fst (record_at rows i)) = body_of (fst (record_at rows' i))"
    and "l_name (rows ! i) = l_name (rows' ! i)"
    and "l_status (rows ! i) = l_status (rows' ! i)"
proof -
  have m: "message_at rows i = message_at rows' i"
    using chain_determines_messages [OF assms(1-6) i] by blast
  have c: "chained rows i" "chained rows' i" using assms(1,2) i by simp_all
  obtain r b where r: "walked_record (l_record_json (rows ! i)) = Some (r, b)" using c by (auto simp: chained_def)
  obtain r' b' where r': "walked_record (l_record_json (rows' ! i)) = Some (r', b')" using c by (auto simp: chained_def)
  have ok: "dict_ok (JObj r)" "canonical_bytes r = Inr b" "dict_ok (JObj r')" "canonical_bytes r' = Inr b'"
    using walked_record_Some [OF r] walked_record_Some [OF r'] text_ok i assms(3,4) by auto
  have "length (prev_at rows i) = length (prev_at rows' i)"
    using prev_at_hex(1) [of i rows] prev_at_hex(1) [of i rows'] assms(1-4) i by simp
  then have "b = b'" using m by (simp add: message_at_def record_at_def r r')
  then have body: "body_of r = body_of r'"
    unfolding body_of_def
    using ok by (intro canonical_document_inj [of _ _ b]) (simp_all add: dict_ok_without canonical_bytes_def del: dict_ok_JObj)
  then show "body_of (fst (record_at rows i)) = body_of (fst (record_at rows' i))"
    by (simp add: record_at_def r r')
  have col: "column_issues (rows ! i) r = []" "column_issues (rows' ! i) r' = []"
    using c by (simp_all add: chained_def record_at_def r r')
  then have f: "map_of r (lit ''name'') = Some (JStr (l_name (rows ! i)))"
    "map_of r' (lit ''name'') = Some (JStr (l_name (rows' ! i)))"
    "map_of r (lit ''status'') = Some (JStr (l_status (rows ! i)))"
    "map_of r' (lit ''status'') = Some (JStr (l_status (rows' ! i)))"
    by (auto simp: column_issues_def split: if_splits)
  show "l_name (rows ! i) = l_name (rows' ! i)" by (rule body_of_field [OF ok(1,3) body _ f(1,2)]) simp
  show "l_status (rows ! i) = l_status (rows' ! i)" by (rule body_of_field [OF ok(1,3) body _ f(3,4)]) simp
qed

end
