(* ===== verification/Checkpoint.thy ===== *)
theory Checkpoint
  imports StoreState
begin

text \<open>
  \<open>checkpoint.py\<close>: the view of a signed snapshot that the startup comparison uses, and the
  comparison itself with its closed set of refusals.
\<close>

record checkpoint_view =
  c_version :: int
  c_log_size :: int
  c_head :: str
  c_merkle_root :: str
  c_created_at :: str

definition from_snapshot :: "obj \<Rightarrow> checkpoint_view res" where
  "from_snapshot snapshot =
    (case (get_int snapshot (lit ''version''), get_int snapshot (lit ''log_size''),
           get_str snapshot (lit ''head''), get_str snapshot (lit ''merkle_root''),
           get_str snapshot (lit ''created_at'')) of
       (Some version, Some log_size, Some head, Some mroot, Some created_at) \<Rightarrow>
         Inr \<lparr>c_version = version, c_log_size = log_size, c_head = head,
              c_merkle_root = mroot, c_created_at = created_at\<rparr>
     | _ \<Rightarrow> Inl (ProtocolError ''snapshot checkpoint boundary is malformed''))"

definition REFUSAL_DIAGNOSTICS :: "string set" where
  "REFUSAL_DIAGNOSTICS =
    {''restore_below_checkpoint'', ''restore_inconsistent_with_checkpoint'', ''checkpoint_signature_invalid''}"

definition compare_checkpoint ::
  "snapshot_boundary \<Rightarrow> checkpoint_view \<Rightarrow> snapshot_boundary option \<Rightarrow> string option" where
  "compare_checkpoint live checkpoint prefix =
    (if sb_version live < c_version checkpoint \<or> sb_log_size live < c_log_size checkpoint
     then Some ''restore_below_checkpoint''
     else if sb_version live = c_version checkpoint then
       (if sb_head live = c_head checkpoint \<and> sb_merkle_root live = c_merkle_root checkpoint \<and>
           sb_log_size live = c_log_size checkpoint
        then None else Some ''restore_inconsistent_with_checkpoint'')
     else case prefix of
       Some p \<Rightarrow>
        (if sb_head p = c_head checkpoint \<and> sb_merkle_root p = c_merkle_root checkpoint
         then None else Some ''restore_inconsistent_with_checkpoint'')
     | None \<Rightarrow> Some ''restore_inconsistent_with_checkpoint'')"

lemma compare_checkpoint_closed:
  "compare_checkpoint live checkpoint prefix = Some diagnostic \<Longrightarrow> diagnostic \<in> REFUSAL_DIAGNOSTICS"
  by (auto simp: compare_checkpoint_def REFUSAL_DIAGNOSTICS_def split: if_splits option.splits)

lemma compare_checkpoint_None:
  "compare_checkpoint live checkpoint prefix = None \<longleftrightarrow>
    c_version checkpoint \<le> sb_version live \<and> c_log_size checkpoint \<le> sb_log_size live \<and>
    (if sb_version live = c_version checkpoint
     then sb_head live = c_head checkpoint \<and> sb_merkle_root live = c_merkle_root checkpoint \<and>
          sb_log_size live = c_log_size checkpoint
     else \<exists>p. prefix = Some p \<and> sb_head p = c_head checkpoint \<and> sb_merkle_root p = c_merkle_root checkpoint)"
  by (auto simp: compare_checkpoint_def split: option.splits)

end
