(* ===== verification/StoreRead.thy ===== *)
theory StoreRead
  imports StoreIntegrity Checkpoint "HOL-Library.Product_Lexorder"
begin

text \<open>
  The read side of \<open>store.py\<close>: memoised boundaries with their structural anchors, the pages
  of the log and of the record query at a boundary, and the startup checkpoint. The lemmas
  show that on intact tables a boundary lookup returns the boundary of that prefix, that a
  boundary and every page evaluated at it never change when the log grows, and that
  consecutive pages partition the result.
\<close>


section \<open>Boundaries\<close>

definition snapshot_boundary_locked :: "int option \<Rightarrow> db \<Rightarrow> snapshot_boundary res" where
  "snapshot_boundary_locked max_seq d =
    (let current = (case last_log_row d of Some (seq, _) \<Rightarrow> seq | None \<Rightarrow> 0);
         boundary = (case max_seq of None \<Rightarrow> current | Some m \<Rightarrow> m)
     in if boundary < 0 \<or> boundary > current then Inl (ValueError ''snapshot boundary is unavailable'')
        else if boundary = 0 then
          (case map_of (db_metadata d) (lit ''created_at'') of
             None \<Rightarrow> Inl (StoreIntegrityError ''service creation metadata is missing'')
           | Some created_at \<Rightarrow>
              Inr \<lparr>sb_version = 0, sb_log_size = 0, sb_head = GENESIS, sb_merkle_root = GENESIS,
                   sb_created_at = created_at\<rparr>)
        else case boundary_at d boundary of
          None \<Rightarrow> Inl (StoreIntegrityError ''snapshot boundary cache is missing; restart to rebuild'')
        | Some cached \<Rightarrow>
           (case log_row_at d boundary of
              None \<Rightarrow> Inl (StoreIntegrityError ''log head does not match the snapshot boundary'')
            | Some anchor \<Rightarrow>
               (if l_entry_hash anchor \<noteq> b_head cached \<or> l_created_at anchor \<noteq> b_created_at cached
                then Inl (StoreIntegrityError ''log head does not match the snapshot boundary'')
                else if log_row_at d 1 = None then Inl (StoreIntegrityError ''log sequence is not contiguous'')
                else Inr \<lparr>sb_version = boundary, sb_log_size = boundary, sb_head = b_head cached,
                          sb_merkle_root = b_merkle_root cached, sb_created_at = b_created_at cached\<rparr>)))"

definition snapshot_boundary :: "int option \<Rightarrow> store \<Rightarrow> snapshot_boundary res" where
  "snapshot_boundary max_seq s = snapshot_boundary_locked max_seq (st_db s)"

definition store_head :: "store \<Rightarrow> (int \<times> str) res" where
  "store_head s = bindE (snapshot_boundary None s) (\<lambda>b. Inr (sb_log_size b, sb_head b))"

definition store_merkle_root :: "int option \<Rightarrow> store \<Rightarrow> str res" where
  "store_merkle_root max_seq s = bindE (snapshot_boundary max_seq s) (\<lambda>b. Inr (sb_merkle_root b))"

definition lookup_failure :: "exc \<Rightarrow> bool" where
  "lookup_failure e \<longleftrightarrow> is_ValueError e \<or> (\<exists>m. e = StoreIntegrityError m)"

definition boundary_available :: "snapshot_boundary \<Rightarrow> store \<Rightarrow> bool res" where
  "boundary_available expected s =
    (case snapshot_boundary (Some (sb_log_size expected)) s of
       Inr actual \<Rightarrow> Inr (actual = expected)
     | Inl e \<Rightarrow> (if lookup_failure e then Inr False else Inl e))"

definition page_boundary_locked ::
  "snapshot_boundary option \<Rightarrow> int option \<Rightarrow> db \<Rightarrow> snapshot_boundary res" where
  "page_boundary_locked boundary max_seq d =
    (case boundary of
       None \<Rightarrow> snapshot_boundary_locked max_seq d
     | Some b \<Rightarrow>
        (if max_seq \<noteq> None then Inl (ValueError ''page boundary and max_seq are mutually exclusive'')
         else case snapshot_boundary_locked (Some (sb_log_size b)) d of
           Inl e \<Rightarrow> (if lookup_failure e
                     then Inl (CursorBoundaryMismatch ''cursor boundary is not available in this store'')
                     else Inl e)
         | Inr actual \<Rightarrow>
            (if actual \<noteq> b
             then Inl (CursorBoundaryMismatch ''cursor boundary disagrees with the committed log prefix'')
             else Inr actual)))"


section \<open>Pages\<close>

definition entry_from_row :: "log_row \<Rightarrow> log_entry res" where
  "entry_from_row row =
    bindE (json_loads (l_record_json row)) (\<lambda>v.
      case v of
        JObj record \<Rightarrow> Inr \<lparr>e_seq = l_seq row, e_entry_hash = l_entry_hash row,
                            e_prev_hash = l_prev_hash row, e_record = record\<rparr>
      | _ \<Rightarrow> Inl (StoreIntegrityError ''stored record is not an object''))"

definition rows_between :: "int \<Rightarrow> int \<Rightarrow> db \<Rightarrow> log_row list" where
  "rows_between since cap d = filter (\<lambda>r. since < l_seq r \<and> l_seq r \<le> cap) (db_log d)"

definition log_entries :: "int \<Rightarrow> int option \<Rightarrow> db \<Rightarrow> log_entry list res" where
  "log_entries since max_seq d =
    bindE (snapshot_boundary_locked max_seq d) (\<lambda>b.
    bindE (bind_ints [since, sb_log_size b]) (\<lambda>_.
      mapE entry_from_row (rows_between since (sb_log_size b) d)))"

text \<open>\<open>LIMIT limit + 1 OFFSET offset\<close>: one row more than the page tells whether there are more.\<close>

definition log_page ::
  "int \<Rightarrow> nat \<Rightarrow> nat \<Rightarrow> int option \<Rightarrow> snapshot_boundary option \<Rightarrow> db \<Rightarrow> (log_entry list \<times> bool) res" where
  "log_page since limit offset max_seq boundary d =
    bindE (page_boundary_locked boundary max_seq d) (\<lambda>b.
    bindE (bind_ints [since, sb_log_size b, int limit + 1, int offset]) (\<lambda>_.
      let rows = take (limit + 1) (drop offset (rows_between since (sb_log_size b) d)) in
      bindE (mapE entry_from_row (take limit rows)) (\<lambda>entries.
        Inr (entries, length rows > limit))))"

text \<open>
  \<open>COALESCE(json_extract(record_json, '$.hash_version'), 1)\<close>. SQLite reads JSON booleans as
  0 and 1; a value of another type is no integer and equals none (\<open>None\<close>, ordered last).
\<close>

definition row_hash_version :: "log_row \<Rightarrow> int option res" where
  "row_hash_version row =
    (case json_loads (l_record_json row) of
       Inl e \<Rightarrow> Inl (DatabaseError ''malformed JSON'')
     | Inr v \<Rightarrow>
        Inr (case v of
           JObj r \<Rightarrow>
            (case get_or r ''hash_version'' JNull of
               JNull \<Rightarrow> Some 1 | JInt i \<Rightarrow> Some i | JBool b \<Rightarrow> Some (if b then 1 else 0) | _ \<Rightarrow> None)
         | _ \<Rightarrow> Some 1))"

type_synonym group_key = "str \<times> str \<times> str \<times> (bool \<times> int) \<times> str"

definition group_of :: "log_row \<Rightarrow> int option \<Rightarrow> group_key" where
  "group_of row hv =
    (l_name row, l_source_identity row, l_commit_hash row,
     (case hv of Some i \<Rightarrow> (False, i) | None \<Rightarrow> (True, 0)), l_content_sha256 row)"

text \<open>\<open>ROW_NUMBER() OVER (PARTITION BY ... ORDER BY seq DESC) = 1\<close>: the last row of each group.\<close>

fun last_per_group :: "('g \<times> log_row) list \<Rightarrow> ('g \<times> log_row) list" where
  "last_per_group [] = []"
| "last_per_group ((g, row) # rows) =
    (if g \<in> fst ` set rows then last_per_group rows else (g, row) # last_per_group rows)"

definition record_rows :: "str \<Rightarrow> str \<Rightarrow> str \<Rightarrow> int \<Rightarrow> int \<Rightarrow> db \<Rightarrow> log_row list res" where
  "record_rows source_identity commit content_sha256 hash_version cap d =
    bindE (mapE (\<lambda>row. bindE (row_hash_version row) (\<lambda>hv. Inr (row, hv)))
             (filter (\<lambda>row. l_seq row \<le> cap \<and>
                (source_identity = [] \<or> l_source_identity row = source_identity \<and> l_commit_hash row = commit) \<and>
                (content_sha256 = [] \<or> l_content_sha256 row = content_sha256)) (db_log d))) (\<lambda>rows.
      Inr (map snd (sort_key fst (last_per_group (map (\<lambda>(row, hv). (group_of row hv, row))
        (filter (\<lambda>(row, hv). content_sha256 = [] \<or> hv = Some hash_version) rows))))))"

definition records_page ::
  "str \<Rightarrow> str \<Rightarrow> str \<Rightarrow> int option \<Rightarrow> nat \<Rightarrow> nat \<Rightarrow> int option \<Rightarrow> snapshot_boundary option \<Rightarrow> db \<Rightarrow>
   (json list \<times> bool) res" where
  "records_page source_identity commit content_sha256 hash_version limit offset max_seq boundary d =
    (if (case hash_version of Some v \<Rightarrow> v \<notin> {1, 2} \<or> content_sha256 = [] | None \<Rightarrow> False)
     then Inl (ValueError ''hash_version requires content_sha256 and must be 1 or 2'')
     else if (source_identity \<noteq> []) \<noteq> (commit \<noteq> [])
     then Inl (ValueError ''source_identity and commit must appear together'')
     else if \<not> ((source_identity \<noteq> [] \<and> commit \<noteq> []) \<or> content_sha256 \<noteq> []) then Inr ([], False)
     else bindE (page_boundary_locked boundary max_seq d) (\<lambda>b.
       bindE (bind_texts [source_identity, commit, content_sha256]) (\<lambda>_.
       bindE (bind_ints [sb_log_size b, int limit + 1, int offset]) (\<lambda>_.
       bindE (record_rows source_identity commit content_sha256
                (case hash_version of Some v \<Rightarrow> v | None \<Rightarrow> 1) (sb_log_size b) d) (\<lambda>all_rows.
         let rows = take (limit + 1) (drop offset all_rows) in
         bindE (mapE (\<lambda>row. json_loads (l_record_json row)) (take limit rows)) (\<lambda>records.
           Inr (records, length rows > limit)))))))"

definition records_for :: "str \<Rightarrow> str \<Rightarrow> str \<Rightarrow> int option \<Rightarrow> db \<Rightarrow> json list res" where
  "records_for source_identity commit content_sha256 hash_version d =
    bindE (records_page source_identity commit content_sha256 hash_version 10000 0 None None d) (\<lambda>(records, _).
      Inr records)"


section \<open>Startup checkpoint\<close>

definition checkpoint_matches :: "snapshot_boundary \<Rightarrow> store \<Rightarrow> bool res" where
  "checkpoint_matches checkpoint s =
    (case snapshot_boundary (Some (sb_log_size checkpoint)) s of
       Inr prefix \<Rightarrow> Inr (prefix = checkpoint)
     | Inl e \<Rightarrow> (if lookup_failure e then Inr False else Inl e))"

definition refuse_startup_checkpoint :: "rat \<Rightarrow> string \<Rightarrow> string \<Rightarrow> store \<Rightarrow> unit res \<times> store" where
  "refuse_startup_checkpoint now diagnostic detail s =
    (if diagnostic \<notin> REFUSAL_DIAGNOSTICS then (Inl (ValueError ''unknown startup-checkpoint diagnostic''), s)
     else (Inr (), latch_integrity_failure now detail
             (if integrity_failed s then s else s\<lparr>health_code := diagnostic\<rparr>)))"

definition apply_startup_checkpoint :: "rat \<Rightarrow> checkpoint_view \<Rightarrow> store \<Rightarrow> string option res \<times> store" where
  "apply_startup_checkpoint now checkpoint s =
    (case snapshot_boundary_locked None (st_db s) of
       Inl e \<Rightarrow> (Inl e, s)
     | Inr live \<Rightarrow>
        (case (if sb_version live > c_version checkpoint
               then (case snapshot_boundary_locked (Some (c_log_size checkpoint)) (st_db s) of
                       Inr p \<Rightarrow> Inr (Some p)
                     | Inl e \<Rightarrow> (if lookup_failure e then Inr None else Inl e))
               else Inr None) of
           Inl e \<Rightarrow> (Inl e, s)
         | Inr prefix \<Rightarrow>
            (case compare_checkpoint live checkpoint prefix of
               None \<Rightarrow> (Inr None, s)
             | Some diagnostic \<Rightarrow>
                (case refuse_startup_checkpoint now diagnostic ''startup checkpoint comparison refused'' s of
                   (Inr _, s') \<Rightarrow> (Inr (Some diagnostic), s')
                 | (Inl e, s') \<Rightarrow> (Inl e, s')))))"


section \<open>Boundaries of intact tables\<close>

definition boundary_spec :: "str \<Rightarrow> entry list \<Rightarrow> nat \<Rightarrow> snapshot_boundary" where
  "boundary_spec created es n =
    (if n = 0 then \<lparr>sb_version = 0, sb_log_size = 0, sb_head = GENESIS, sb_merkle_root = GENESIS,
                    sb_created_at = created\<rparr>
     else \<lparr>sb_version = int n, sb_log_size = int n, sb_head = hex (leaves es ! (n - 1)),
           sb_merkle_root = hex (root_of (take n (leaves es))), sb_created_at = snd (es ! (n - 1))\<rparr>)"

definition created_of :: "db \<Rightarrow> str" where
  "created_of d = (case map_of (db_metadata d) (lit ''created_at'') of Some t \<Rightarrow> t | None \<Rightarrow> [])"

lemma current_ok: "tables_ok d es \<Longrightarrow> (case last_log_row d of Some (seq, _) \<Rightarrow> seq | None \<Rightarrow> 0) = int (length es)"
  using last_log_row_ok [of d es] by (auto split: option.splits)

lemma snapshot_boundary_ok:
  assumes "db_ok d es"
  shows "snapshot_boundary_locked m d =
    (let n = (case m of None \<Rightarrow> int (length es) | Some k \<Rightarrow> k) in
     if 0 \<le> n \<and> n \<le> int (length es) then Inr (boundary_spec (created_of d) es (nat n))
     else Inl (ValueError ''snapshot boundary is unavailable''))"
proof -
  let ?n = "case m of None \<Rightarrow> int (length es) | Some k \<Rightarrow> k"
  have t: "tables_ok d es" and l: "ledgers_ok d es" using assms by (simp_all add: db_ok_def)
  obtain c where c: "map_of (db_metadata d) (lit ''created_at'') = Some c"
    using l by (auto simp: ledgers_ok_def metadata_ok_def split: option.splits)
  consider "?n < 0 \<or> ?n > int (length es)" | "?n = 0" | "1 \<le> ?n" "?n \<le> int (length es)" by linarith
  then show ?thesis
  proof cases
    case 1
    then show ?thesis by (auto simp: snapshot_boundary_locked_def current_ok [OF t] Let_def)
  next
    case 2
    then show ?thesis
      by (simp add: snapshot_boundary_locked_def current_ok [OF t] c boundary_spec_def created_of_def)
  next
    case 3
    have "boundary_at d ?n = Some (boundary_of es (nat ?n - 1))"
      using t 3 by (simp add: boundary_at_def tables_ok_def find_boundary)
    moreover have "log_row_at d ?n = Some (row_at es (nat ?n - 1))" "log_row_at d 1 = Some (row_at es 0)"
      using log_row_at_ok [OF t, of ?n] log_row_at_ok [OF t, of 1] 3 by simp_all
    moreover have "Suc (nat ?n - 1) = nat ?n" using 3 by simp
    ultimately show ?thesis using 3
      by (simp add: snapshot_boundary_locked_def current_ok [OF t] boundary_spec_def boundary_of_def row_at_def mk_row_def)
  qed
qed

lemma boundary_spec_append:
  "n \<le> length es \<Longrightarrow> boundary_spec c (es @ es') n = boundary_spec c es n"
proof -
  assume n: "n \<le> length es"
  obtain ls where "leaves (es @ es') = leaves es @ ls" using leaves_prefix by blast
  with n show ?thesis by (auto simp: boundary_spec_def nth_append)
qed

lemma boundary_spec_size [simp]: "sb_log_size (boundary_spec c es n) = int n"
  by (simp add: boundary_spec_def)

lemma page_boundary_ok:
  assumes "db_ok d es" "n \<le> length es"
  shows "page_boundary_locked (Some (boundary_spec (created_of d) es n)) None d =
    Inr (boundary_spec (created_of d) es n)"
  using assms by (simp add: page_boundary_locked_def snapshot_boundary_ok)

text \<open>A cursor boundary is accepted only when it is the boundary of that prefix.\<close>

lemma page_boundary_accepted:
  assumes "db_ok d es" "page_boundary_locked (Some b) m d = Inr b'"
  shows "b' = b \<and> 0 \<le> sb_log_size b \<and> nat (sb_log_size b) \<le> length es \<and>
    b = boundary_spec (created_of d) es (nat (sb_log_size b))"
  using assms by (auto simp: page_boundary_locked_def snapshot_boundary_ok Let_def split: if_splits)


section \<open>Pages of intact tables\<close>

lemma row_at_append: "i < length es \<Longrightarrow> row_at (es @ es') i = row_at es i"
proof -
  assume i: "i < length es"
  obtain ls where "leaves (es @ es') = leaves es @ ls" using leaves_prefix by blast
  with i show ?thesis by (simp add: row_at_def nth_append)
qed

lemma rows_of_append:
  "rows_of (es @ es') = rows_of es @ map (row_at (es @ es')) [length es..<length (es @ es')]"
proof -
  have "map (row_at (es @ es')) [0..<length es] = map (row_at es) [0..<length es]"
    by (rule map_cong) (simp_all add: row_at_append)
  moreover have "[0..<length (es @ es')] = [0..<length es] @ [length es..<length (es @ es')]"
    using upt_add_eq_append [of 0 "length es" "length es'"] by simp
  ultimately show ?thesis by (simp add: rows_of_def)
qed

lemma filter_rows_append:
  assumes "cap \<le> int (length es)"
  shows "filter (\<lambda>r. l_seq r \<le> cap \<and> P r) (rows_of (es @ es')) = filter (\<lambda>r. l_seq r \<le> cap \<and> P r) (rows_of es)"
proof -
  have "filter (\<lambda>r. l_seq r \<le> cap \<and> P r) (map (row_at (es @ es')) [length es..<length (es @ es')]) = []"
    using assms by (auto simp: filter_empty_conv row_at_def mk_row_def)
  then show ?thesis by (simp add: rows_of_append)
qed

definition entry_view :: "entry list \<Rightarrow> nat \<Rightarrow> log_entry" where
  "entry_view es i =
    \<lparr>e_seq = int (i + 1), e_entry_hash = hex (leaves es ! i), e_prev_hash = head_of (take i (leaves es)),
     e_record = sorted_record (fst (es ! i))\<rparr>"

definition view_between :: "entry list \<Rightarrow> int \<Rightarrow> nat \<Rightarrow> log_entry list" where
  "view_between es since n = map (entry_view es) (filter (\<lambda>i. since < int (i + 1)) [0..<n])"

lemma entry_from_row_ok:
  assumes "entry_ok (es ! i)"
  shows "entry_from_row (row_at es i) = Inr (entry_view es i)"
proof -
  from assms have "dict_ok (JObj (fst (es ! i)))" "plain (JObj (fst (es ! i)))" by (simp_all add: entry_ok_def)
  from json_loads_dumps [OF this]
  have "json_loads (l_record_json (row_at es i)) = Inr (JObj (sorted_record (fst (es ! i))))"
    by (simp add: row_at_def mk_row_def sort_json_JObj del: sort_json.simps json_dumps.simps)
  then show ?thesis by (simp add: entry_from_row_def) (simp add: entry_view_def row_at_def mk_row_def)
qed

lemma rows_between_ok:
  assumes "tables_ok d es" "n \<le> length es"
  shows "rows_between since (int n) d = map (row_at es) (filter (\<lambda>i. since < int (i + 1)) [0..<n])"
proof -
  have "[0..<length es] = [0..<n] @ [n..<length es]" using assms(2) by (metis le_add_diff_inverse upt_add_eq_append zero_le)
  moreover have "filter (\<lambda>i. since < int (i + 1) \<and> int (i + 1) \<le> int n) [0..<n] = filter (\<lambda>i. since < int (i + 1)) [0..<n]"
    by (rule filter_cong) auto
  moreover have "filter (\<lambda>i. since < int (i + 1) \<and> int (i + 1) \<le> int n) [n..<length es] = []"
    by (auto simp: filter_empty_conv)
  moreover have "rows_between since (int n) d =
      map (row_at es) (filter (\<lambda>i. since < int (i + 1) \<and> int (i + 1) \<le> int n) [0..<length es])"
    using assms(1) by (simp add: rows_between_def tables_ok_def rows_of_def filter_map comp_def row_at_def mk_row_def)
  ultimately show ?thesis by simp
qed

lemma mapE_rows_ok:
  assumes "tables_ok d es" "\<forall>i \<in> set is. i < length es"
  shows "mapE entry_from_row (map (row_at es) is) = Inr (map (entry_view es) is)"
  using assms by (induction "is") (simp_all add: entry_from_row_ok tables_ok_def)

lemma log_page_ok:
  assumes "db_ok d es" "n \<le> length es" "bind_ints [since, int limit + 1, int offset] = Inr ()"
  shows "log_page since limit offset None (Some (boundary_spec (created_of d) es n)) d =
    Inr (take limit (drop offset (view_between es since n)), length (view_between es since n) > offset + limit)"
proof -
  have t: "tables_ok d es" using assms(1) by (simp add: db_ok_def)
  have cap: "sb_log_size (boundary_spec (created_of d) es n) = int n" "int n < 2 ^ 63"
    using assms(1,2) by (simp_all add: boundary_spec_size db_ok_def)
  let ?is = "filter (\<lambda>i. since < int (i + 1)) [0..<n]"
  have "mapE entry_from_row (map (row_at es) (take limit (take (limit + 1) (drop offset ?is)))) =
      Inr (map (entry_view es) (take limit (take (limit + 1) (drop offset ?is))))"
    by (rule mapE_rows_ok [OF t]) (use assms(2) in \<open>auto dest!: in_set_takeD in_set_dropD\<close>)
  then show ?thesis
    using assms(3) cap
    by (simp add: log_page_def page_boundary_ok [OF assms(1,2)] bind_ints_def rows_between_ok [OF t assms(2)] view_between_def
        take_map drop_map min_def less_diff_conv2) auto
qed

lemma view_between_append:
  assumes "n \<le> length es"
  shows "view_between (es @ es') since n = view_between es since n"
proof -
  obtain ls where ls: "leaves (es @ es') = leaves es @ ls" using leaves_prefix by blast
  have "entry_view (es @ es') i = entry_view es i" if "i < n" for i
    using that assms by (simp add: entry_view_def ls nth_append)
  then show ?thesis unfolding view_between_def by (intro map_cong) auto
qed

lemma log_page_fits:
  "log_page since limit offset m b d = Inr page \<Longrightarrow> bind_ints [since, int limit + 1, int offset] = Inr ()"
  by (auto simp: log_page_def bindE_Inr_iff bind_ints_def)

lemma log_page_stable:
  assumes "db_ok d es" "db_ok d' (es @ es')" "created_of d' = created_of d"
    and "log_page since limit offset None (Some b) d = Inr page"
  shows "log_page since limit offset None (Some b) d' = Inr page"
proof -
  from assms(4) obtain b' where "page_boundary_locked (Some b) None d = Inr b'"
    by (auto simp: log_page_def bindE_Inr_iff)
  from page_boundary_accepted [OF assms(1) this] obtain n where n: "n \<le> length es" "b = boundary_spec (created_of d) es n"
    by blast
  then have b: "b = boundary_spec (created_of d') (es @ es') n" by (simp add: assms(3) boundary_spec_append)
  note fits = log_page_fits [OF assms(4)]
  show ?thesis
    using assms(4) n log_page_ok [OF assms(1) n(1) fits] log_page_ok [OF assms(2) _ fits, of n]
    by (simp add: b [symmetric] view_between_append)
qed

lemma record_rows_stable:
  assumes "tables_ok d es" "tables_ok d' (es @ es')" "cap \<le> int (length es)"
  shows "record_rows si c h hv cap d' = record_rows si c h hv cap d"
  using assms by (simp add: record_rows_def tables_ok_def filter_rows_append)

lemma records_page_stable:
  assumes "db_ok d es" "db_ok d' (es @ es')" "created_of d' = created_of d"
    and "records_page si c h hv limit offset None (Some b) d = Inr page"
  shows "records_page si c h hv limit offset None (Some b) d' = Inr page"
proof (cases "\<not> ((si \<noteq> [] \<and> c \<noteq> []) \<or> h \<noteq> [])")
  case True
  then show ?thesis using assms(4) by (auto simp: records_page_def split: if_splits)
next
  case False
  from assms(4) False obtain b' where b': "page_boundary_locked (Some b) None d = Inr b'"
    by (auto simp: records_page_def bindE_Inr_iff split: if_splits)
  from page_boundary_accepted [OF assms(1) this] obtain n where n: "n \<le> length es" "b = boundary_spec (created_of d) es n"
    by blast
  then have b: "b = boundary_spec (created_of d') (es @ es') n" by (simp add: assms(3) boundary_spec_append)
  have "page_boundary_locked (Some b) None d' = Inr b"
    using page_boundary_ok [OF assms(2), of n] n(1) by (simp add: b [symmetric])
  moreover have "page_boundary_locked (Some b) None d = Inr b"
    using page_boundary_ok [OF assms(1) n(1)] by (simp add: n(2))
  moreover have "record_rows si c h hv' (sb_log_size b) d' = record_rows si c h hv' (sb_log_size b) d" for hv'
    using assms(1,2) n by (intro record_rows_stable) (auto simp: db_ok_def)
  ultimately have "records_page si c h hv limit offset None (Some b) d' = records_page si c h hv limit offset None (Some b) d"
    by (simp add: records_page_def)
  with assms(4) show ?thesis by simp
qed

text \<open>Consecutive pages partition a list.\<close>

lemma concat_pages: "concat (map (\<lambda>k. take l (drop (k * l) xs)) [0..<m]) = take (m * l) xs"
proof (induction m)
  case (Suc m)
  have "Suc m * l = m * l + l" by simp
  then show ?case using Suc take_add [of "m * l" l xs] by (simp only: upt_Suc map_append concat_append) simp
qed simp


section \<open>The record query\<close>

lemma last_per_group_keys: "fst ` set (last_per_group rows) = fst ` set rows"
  by (induction rows rule: last_per_group.induct) (simp_all add: insert_absorb)

lemma last_per_group_distinct: "distinct (map fst (last_per_group rows))"
  by (induction rows rule: last_per_group.induct) (simp_all add: last_per_group_keys)

lemma last_per_group_latest:
  assumes "(g, row) \<in> set (last_per_group rows)" "sorted_wrt (\<lambda>x y. l_seq (snd x) < l_seq (snd y)) rows"
  shows "(g, row) \<in> set rows \<and> (\<forall>(g', row') \<in> set rows. g' = g \<longrightarrow> l_seq row' \<le> l_seq row)"
  using assms
proof (induction rows rule: last_per_group.induct)
  case (2 g0 r0 rows)
  show ?case
  proof (cases "g0 \<in> fst ` set rows")
    case True
    with 2 have IH: "(g, row) \<in> set rows \<and> (\<forall>(g', row') \<in> set rows. g' = g \<longrightarrow> l_seq row' \<le> l_seq row)" by simp
    moreover have "l_seq r0 \<le> l_seq row" using 2(4) IH by auto
    ultimately show ?thesis by simp
  next
    case False
    show ?thesis
    proof (cases "(g, row) = (g0, r0)")
      case True
      with False show ?thesis by (auto simp: image_iff)
    next
      case neq: False
      with False 2 have IH: "(g, row) \<in> set rows \<and> (\<forall>(g', row') \<in> set rows. g' = g \<longrightarrow> l_seq row' \<le> l_seq row)" by auto
      with False have "g \<noteq> g0" by force
      with IH show ?thesis by simp
    qed
  qed
qed simp

text \<open>The rows a record query selects before it keeps the latest of each group.\<close>

definition selects :: "str \<Rightarrow> str \<Rightarrow> str \<Rightarrow> int \<Rightarrow> log_row \<Rightarrow> bool" where
  "selects source_identity commit content_sha256 cap row \<longleftrightarrow>
    l_seq row \<le> cap \<and>
    (source_identity = [] \<or> l_source_identity row = source_identity \<and> l_commit_hash row = commit) \<and>
    (content_sha256 = [] \<or> l_content_sha256 row = content_sha256)"

lemma mapE_pair:
  assumes "mapE (\<lambda>x. bindE (f x) (\<lambda>y. Inr (x, y))) xs = Inr ps"
  shows "map fst ps = xs" "(x, y) \<in> set ps \<longleftrightarrow> x \<in> set xs \<and> f x = Inr y"
  using assms by (induction xs arbitrary: ps) (auto simp: bindE_Inr_iff)

lemma sorted_wrt_fst:
  "sorted_wrt (\<lambda>x y. R (fst x) (fst y)) ps \<longleftrightarrow> sorted_wrt R (map fst ps)"
  by (simp add: sorted_wrt_map)

lemma record_rows_groups:
  assumes "record_rows si c h hv cap d = Inr rows" "sorted_wrt (\<lambda>a b. l_seq a < l_seq b) (db_log d)"
  obtains pairs where "rows = map snd (sort_key fst (last_per_group pairs))"
    "\<And>g row. (g, row) \<in> set pairs \<longleftrightarrow>
      row \<in> set (db_log d) \<and> selects si c h cap row \<and>
      (\<exists>v. row_hash_version row = Inr v \<and> (h = [] \<or> v = Some hv) \<and> g = group_of row v)"
    "sorted_wrt (\<lambda>x y. l_seq (snd x) < l_seq (snd y)) pairs"
proof -
  let ?ok = "\<lambda>(row, v). h = [] \<or> v = Some hv"
  obtain ps where ps: "mapE (\<lambda>row. bindE (row_hash_version row) (\<lambda>v. Inr (row, v))) (filter (selects si c h cap) (db_log d)) = Inr ps"
    and rows: "rows = map snd (sort_key fst (last_per_group (map (\<lambda>(row, v). (group_of row v, row)) (filter ?ok ps))))"
    using assms(1) unfolding record_rows_def by (auto simp: bindE_Inr_iff selects_def [abs_def])
  note m = mapE_pair [OF ps]
  let ?pairs = "map (\<lambda>(row, v). (group_of row v, row)) (filter ?ok ps)"
  have "sorted_wrt (\<lambda>a b. l_seq a < l_seq b) (map fst ps)"
    unfolding m(1) by (rule sorted_wrt_filter [OF assms(2)])
  then have "sorted_wrt (\<lambda>x y. l_seq (fst x) < l_seq (fst y)) (filter ?ok ps)"
    using sorted_wrt_filter sorted_wrt_fst [of "\<lambda>a b. l_seq a < l_seq b" ps] by blast
  then have srt: "sorted_wrt (\<lambda>x y. l_seq (snd x) < l_seq (snd y)) ?pairs"
    by (simp add: sorted_wrt_map case_prod_beta)
  have mem: "(g, row) \<in> set ?pairs \<longleftrightarrow> row \<in> set (db_log d) \<and> selects si c h cap row \<and>
      (\<exists>v. row_hash_version row = Inr v \<and> (h = [] \<or> v = Some hv) \<and> g = group_of row v)" for g row
    using m(2) by (force simp: image_iff)
  show thesis by (rule that [OF rows mem srt])
qed

lemma rows_of_sorted: "sorted_wrt (\<lambda>a b. l_seq a < l_seq b) (rows_of es)"
  by (auto simp: rows_of_def sorted_wrt_map row_at_def mk_row_def sorted_wrt_iff_nth_less)

lemma record_rows_latest:
  assumes "record_rows si c h hv cap d = Inr rows" "sorted_wrt (\<lambda>a b. l_seq a < l_seq b) (db_log d)" "row \<in> set rows"
  shows "row \<in> set (db_log d) \<and> selects si c h cap row"
    and "row' \<in> set (db_log d) \<Longrightarrow> l_seq row' \<le> cap \<Longrightarrow> row_hash_version row' = Inr v' \<Longrightarrow> row_hash_version row = Inr v \<Longrightarrow>
      group_of row' v' = group_of row v \<Longrightarrow> l_seq row' \<le> l_seq row"
proof -
  obtain pairs where p: "rows = map snd (sort_key fst (last_per_group pairs))"
    and mem: "\<And>g row. (g, row) \<in> set pairs \<longleftrightarrow> row \<in> set (db_log d) \<and> selects si c h cap row \<and>
      (\<exists>v. row_hash_version row = Inr v \<and> (h = [] \<or> v = Some hv) \<and> g = group_of row v)"
    and srt: "sorted_wrt (\<lambda>x y. l_seq (snd x) < l_seq (snd y)) pairs"
    by (rule record_rows_groups [OF assms(1,2)]) blast
  obtain g where g: "(g, row) \<in> set (last_per_group pairs)" using assms(3) by (auto simp: p)
  note l = last_per_group_latest [OF g srt]
  then show 1: "row \<in> set (db_log d) \<and> selects si c h cap row" using mem by blast
  assume a: "row' \<in> set (db_log d)" "l_seq row' \<le> cap" "row_hash_version row' = Inr v'" "row_hash_version row = Inr v"
    "group_of row' v' = group_of row v"
  have gv: "g = group_of row v" "h = [] \<or> v = Some hv" using l mem a(4) by auto
  have "v' = v" using a(5) by (auto simp: group_of_def split: option.splits)
  then have "(g, row') \<in> set pairs"
    using a 1 gv by (auto simp: mem selects_def group_of_def intro!: exI [of _ v'])
  then show "l_seq row' \<le> l_seq row" using l by auto
qed

lemma record_rows_complete:
  assumes "record_rows si c h hv cap d = Inr rows" "sorted_wrt (\<lambda>a b. l_seq a < l_seq b) (db_log d)"
    and "row' \<in> set (db_log d)" "selects si c h cap row'" "row_hash_version row' = Inr v'" "h = [] \<or> v' = Some hv"
  shows "\<exists>row \<in> set rows. \<exists>v. row_hash_version row = Inr v \<and> group_of row v = group_of row' v'"
proof -
  obtain pairs where p: "rows = map snd (sort_key fst (last_per_group pairs))"
    and mem: "\<And>g row. (g, row) \<in> set pairs \<longleftrightarrow> row \<in> set (db_log d) \<and> selects si c h cap row \<and>
      (\<exists>v. row_hash_version row = Inr v \<and> (h = [] \<or> v = Some hv) \<and> g = group_of row v)"
    and srt: "sorted_wrt (\<lambda>x y. l_seq (snd x) < l_seq (snd y)) pairs"
    by (rule record_rows_groups [OF assms(1,2)]) blast
  have "(group_of row' v', row') \<in> set pairs" using assms(3-6) mem by blast
  then have "group_of row' v' \<in> fst ` set (last_per_group pairs)" by (force simp: last_per_group_keys)
  then obtain row where r: "(group_of row' v', row) \<in> set (last_per_group pairs)" by auto
  then have "(group_of row' v', row) \<in> set pairs" using last_per_group_latest [OF r srt] by blast
  then show ?thesis using r by (force simp: mem p)
qed

end
