(* ===== verification/StoreOps.thy ===== *)
theory StoreOps
  imports StoreRead
begin

text \<open>
  The writers of the store against its abstract log. \<open>store_ok s es\<close> says the tables are those
  of \<open>es\<close> and the cached verdict names its head. Every writer keeps it and only extends \<open>es\<close>;
  the locale \<open>log_writer\<close> states that contract and carries it over any sequence of
  operations. The other lemmas give the outcome of each writer: appended entry or client
  error, replay or conflict for an idempotency key, and the high-water decision of an
  upstream import.
\<close>


section \<open>Transactions\<close>

lemma write_transaction_error:
  "write_transaction now body s = (Inl e, s') \<Longrightarrow> st_db s' = st_db s"
  by (auto simp: write_transaction_def latch_integrity_failure_def split: sum.splits abort.splits)

lemma write_transaction_latched:
  "integrity_failed s \<Longrightarrow> integrity_failed (snd (write_transaction now body s))"
  by (auto simp: write_transaction_def latch_integrity_failure_def split: sum.splits abort.splits)

lemma writes_refused_latched:
  "integrity_failed s \<Longrightarrow> require_writes_allowed now s =
    Inl (StoreIntegrityError ''registry integrity verification failed; restart to re-verify'')"
  by (simp add: require_writes_allowed_def)

lemma write_transaction_allowed:
  "require_writes_allowed now s = Inr () \<Longrightarrow>
   write_transaction now (\<lambda>d. bindE (raising (require_writes_allowed now s)) (\<lambda>_. f d)) s = write_transaction now f s"
  by (simp add: write_transaction_def)


section \<open>Store invariant\<close>

definition store_ok :: "store \<Rightarrow> entry list \<Rightarrow> bool" where
  "store_ok s es \<longleftrightarrow>
    db_ok (st_db s) es \<and> health_verified_log_size s = int (length es) \<and>
    health_verified_head s = head_of (leaves es)"

text \<open>A record and a time a caller may hand to an append: a Python dictionary without floats.\<close>

definition value_ok :: "obj \<Rightarrow> str \<Rightarrow> bool" where
  "value_ok r t \<longleftrightarrow> dict_ok (JObj r) \<and> plain (JObj r) \<and> timestamp t"

lemma entry_ok_iff: "entry_ok (r, t) \<longleftrightarrow> value_ok r t \<and> (\<exists>b. admit r t = Inr b)"
  by (auto simp: entry_ok_def value_ok_def)

text \<open>A record that \<open>validate_record\<close> accepts passes every check of the append.\<close>

lemma list_all2_witness: "list_all2 R xs ys \<Longrightarrow> y \<in> set ys \<Longrightarrow> \<exists>x \<in> set xs. R x y"
  by (induction rule: list_all2_induct) auto

lemma timestamp_clean: "timestamp t \<Longrightarrow> c \<in> set t \<Longrightarrow> \<not> surrogate c"
proof -
  assume "timestamp t" "c \<in> set t"
  then obtain p where "p \<in> set (lit ''0000-00-00T00:00:00Z'')" "shape_char p c"
    using list_all2_witness [of shape_char "lit ''0000-00-00T00:00:00Z''" t c] by (auto simp: timestamp_def TIMESTAMP_def)
  moreover have "clean (lit ''0000-00-00T00:00:00Z'')" by simp
  ultimately show ?thesis by (auto simp: clean_def shape_char_def is_digit_def surrogate_def split: if_splits)
qed

lemma canonical_without:
  assumes "dict_ok (JObj r)" "canonical_document (JObj r) = Inr b"
  shows "\<exists>c. canonical_bytes r = Inr c"
proof -
  from assms have "json_depth (JObj r) \<le> MAX_JSON_DEPTH" "ccj_leaves (JObj r)" by (simp_all add: canonical_document_Inr)
  then have "json_depth (JObj (without k r)) \<le> MAX_JSON_DEPTH" "ccj_leaves (JObj (without k r))" for k
    by (auto simp: ccj_iffs without_def)
  then show ?thesis
    using canonical_document_defined [OF dict_ok_without [OF assms(1)], of "lit ''sig''"] by (simp add: canonical_bytes_def)
qed

lemma validated_fields_nonempty:
  "COMMIT x \<Longrightarrow> x \<noteq> []" "SHA256 x \<Longrightarrow> x \<noteq> []" "valid_name x \<Longrightarrow> x \<noteq> []" "x \<in> STATUSES \<Longrightarrow> x \<noteq> []"
  "validate_source_identity (JStr x) = Inr x \<Longrightarrow> x \<noteq> []"
  by (auto simp: COMMIT_def SHA256_def HEX256_def strip_prefix_def valid_name_def IDENTIFIER_def STATUSES_def lit_def
      validate_source_identity_def Let_def split: option.splits if_splits)

lemma validated_admitted:
  assumes "validate_record (JObj r) = Inr r" "dict_ok (JObj r)" "timestamp t"
  shows "entry_ok (r, t)"
proof -
  note v = validate_recordD [OF assms(1)]
  obtain b where b: "canonical_document (JObj r) = Inr b" using v(8) by blast
  then have l: "ccj_leaves (JObj r)" using assms(2) by (simp add: canonical_document_Inr)
  have "require_fields r = Inr ()"
    using v(2-6) validated_fields_nonempty by (fastforce simp: require_fields_def indexed_fields_def nonempty_text_def)
  moreover have "validate_hash_version r = Inr ()"
    using assms(1) by (auto simp: validate_record_Inr)
  moreover obtain c where "canonical_bytes r = Inr c" using canonical_without [OF assms(2) b] by blast
  moreover have "\<forall>c \<in> set (json_dumps True (JObj r)). scalar c"
    using dumps_scalar [OF sort_json_dict_ok [OF assms(2)]] l
    by (simp only: json_dumps_sorted ccj_leaves_sort_json) blast
  then have "bind_texts [json_dumps True (JObj r), t] = Inr ()"
    using timestamp_clean [OF assms(3)] by (fastforce simp: bind_texts_def scalar_def simp del: json_dumps.simps)
  ultimately have "admit r t = Inr c" by (simp add: admit_def del: json_dumps.simps)
  moreover have "value_ok r t" using assms(2,3) ccj_leaves_plain [OF l] by (simp only: value_ok_def simp_thms)
  ultimately show ?thesis by (auto simp: entry_ok_iff)
qed

lemma entry_at_head:
  "e_seq (entry_at es r) = int (length (es @ [(r, t)]))"
  "e_entry_hash (entry_at es r) = head_of (leaves (es @ [(r, t)]))"
  by (simp_all add: entry_at_def head_of_def)

lemma append_locked_db_ok:
  assumes "db_ok d es" "length es + 1 < 2 ^ 63" "value_ok r t" "append_locked r t d = Inr (entry, d')"
  shows "entry = entry_at es r \<and> d' = extended d es (r, t) \<and> entry_ok (r, t) \<and> db_ok d' (es @ [(r, t)])"
proof -
  have t: "tables_ok d es" and "length es < 2 ^ 64" using assms(1,2) by (simp_all add: db_ok_def)
  from append_locked_spec [OF this, of r t] assms(4) obtain b where "admit r t = Inr b"
    "entry = entry_at es r" "d' = extended d es (r, t)"
    by (auto split: sum.splits)
  with assms(1-3) show ?thesis by (auto simp: entry_ok_iff intro!: extend_db_ok)
qed

lemma append_store_ok:
  assumes "store_ok s es" "length es + 1 < 2 ^ 63" "value_ok r t" "require_writes_allowed now s = Inr ()"
  shows "append now r t s =
    (case admit r t of
       Inl e \<Rightarrow> (Inl e, s)
     | Inr b \<Rightarrow> (Inr (entry_at es r), publish (entry_at es r) (s\<lparr>st_db := extended (st_db s) es (r, t)\<rparr>)))"
proof -
  have t: "tables_ok (st_db s) es" and "length es < 2 ^ 64"
    using assms(1,2) by (simp_all add: store_ok_def db_ok_def)
  from append_locked_spec [OF this, of r t] show ?thesis
    unfolding append_def write_transaction_allowed [OF assms(4)]
    by (auto simp: write_transaction_def split: sum.splits)
qed

lemma publish_store_ok:
  assumes "db_ok d (es @ [(r, t)])"
  shows "store_ok (publish (entry_at es r) (s\<lparr>st_db := d\<rparr>)) (es @ [(r, t)])"
  using assms by (simp add: store_ok_def publish_def entry_at_def head_of_def)

lemma append_refused: "require_writes_allowed now s = Inl e \<Longrightarrow> append now r t s = (Inl e, s)"
  by (simp add: append_def write_transaction_def)

lemma append_commits:
  assumes "store_ok s es" "length es + 1 < 2 ^ 63" "value_ok r t" "require_writes_allowed now s = Inr ()"
    "admit r t = Inr b"
  shows "\<exists>s'. append now r t s = (Inr (entry_at es r), s') \<and> store_ok s' (es @ [(r, t)]) \<and>
    db_metadata (st_db s') = db_metadata (st_db s)"
proof -
  have "db_ok (extended (st_db s) es (r, t)) (es @ [(r, t)])"
    using assms by (intro extend_db_ok) (auto simp: store_ok_def entry_ok_iff)
  then show ?thesis
    by (simp add: append_store_ok [OF assms(1-4)] assms(5) publish_store_ok) (simp add: publish_def)
qed

lemma append_extends:
  assumes "store_ok s es" "length es + 1 < 2 ^ 63" "value_ok r t"
  shows "\<exists>new. length new \<le> 1 \<and> store_ok (snd (append now r t s)) (es @ new) \<and>
    db_metadata (st_db (snd (append now r t s))) = db_metadata (st_db s)"
proof (cases "require_writes_allowed now s")
  case (Inl e)
  then show ?thesis using assms(1)
    by (intro exI [of _ "[]"]) (simp add: append_refused)
next
  case (Inr u)
  then have w: "require_writes_allowed now s = Inr ()" by simp
  show ?thesis
  proof (cases "admit r t")
    case (Inl e)
    then show ?thesis using assms(1)
      by (intro exI [of _ "[]"]) (simp add: append_store_ok [OF assms w])
  next
    case (Inr b)
    then show ?thesis using append_commits [OF assms w Inr] by (intro exI [of _ "[(r, t)]"]) auto
  qed
qed


section \<open>Idempotent submission\<close>

lemma filter_idempotency_ok:
  "db_ok d es \<Longrightarrow> db_ok (d\<lparr>db_idempotency := filter P (db_idempotency d)\<rparr>) es"
  by (auto simp: db_ok_def tables_ok_def ledgers_ok_def save_frontier_def distinct_map_filter)

lemma find_idempotency_None:
  "find_idempotency a k d = None \<longleftrightarrow> (a, k) \<notin> (\<lambda>r. (i_auditor_id r, i_key r)) ` set (db_idempotency d)"
  by (auto simp: find_idempotency_def find_None_iff image_iff)

lemma find_idempotency_Some:
  "find_idempotency a k d = Some r \<Longrightarrow> r \<in> set (db_idempotency d) \<and> i_auditor_id r = a \<and> i_key r = k"
  by (auto simp: find_idempotency_def find_Some_iff)

definition submission_row :: "obj \<Rightarrow> str \<Rightarrow> str \<Rightarrow> str \<Rightarrow> int \<Rightarrow> int \<Rightarrow> idempotency_row" where
  "submission_row response auditor_id key body n expires =
    \<lparr>i_auditor_id = auditor_id, i_key = key, i_body_sha256 = body,
     i_response_json = json_dumps False (JObj response), i_seq = n, i_expires_at = expires\<rparr>"

lemma entry_response_of:
  "entry_response (entry_at es r) = response_of (es @ [(r, t)]) (int (length es) + 1)"
proof -
  have "leaves (es @ [(r, t)]) ! length es = leaf_hash (head_of (leaves es)) r"
    using nth_append_length [of "leaves es"] by simp
  then show ?thesis
    by (simp add: entry_response_def response_of_def entry_at_def nat_add_distrib del: leaves_snoc)
qed

lemma insert_idempotency_ok:
  assumes "db_ok d (es @ [(r, t)])" "find_idempotency a k d = None" "a \<noteq> []" "printable_key k" "hex256 body"
  shows "db_ok (d\<lparr>db_idempotency := db_idempotency d @
    [submission_row (entry_response (entry_at es r)) a k body (int (length es) + 1) expires]\<rparr>) (es @ [(r, t)])"
proof -
  let ?row = "submission_row (entry_response (entry_at es r)) a k body (int (length es) + 1) expires"
  have "idempotency_ok (es @ [(r, t)]) ?row"
    using assms by (simp add: idempotency_ok_def submission_row_def entry_response_of [of es r t])
  moreover have "(i_auditor_id ?row, i_key ?row) \<notin> (\<lambda>r. (i_auditor_id r, i_key r)) ` set (db_idempotency d)"
    using assms(2) by (simp add: find_idempotency_None submission_row_def)
  ultimately show ?thesis
    using assms(1) by (auto simp: db_ok_def tables_ok_def ledgers_ok_def save_frontier_def)
qed

definition submitted :: "store \<Rightarrow> int \<Rightarrow> db" where
  "submitted s now = (st_db s)\<lparr>db_idempotency := filter (\<lambda>r. \<not> i_expires_at r \<le> now) (db_idempotency (st_db s))\<rparr>"

text \<open>Arguments \<open>append_idempotent\<close> accepts before it opens the transaction.\<close>

definition submission_args :: "str \<Rightarrow> str \<Rightarrow> str \<Rightarrow> int \<Rightarrow> bool" where
  "submission_args auditor_id key body ttl \<longleftrightarrow>
    auditor_id \<noteq> [] \<and> printable_key key \<and> hex256 body \<and> 24 * 3600 \<le> ttl"

lemma append_idempotent_open:
  assumes "submission_args a k body ttl" "require_writes_allowed m s = Inr ()"
  shows "append_idempotent m r a k body t now ttl s =
    (case write_transaction m (append_idempotent_locked r a k body t now ttl) s of
       (Inr (Replayed x), s') \<Rightarrow> (Inr (x, True), s')
     | (Inr (Appended x entry), s') \<Rightarrow> (Inr (x, False), publish entry s')
     | (Inl e, s') \<Rightarrow> (Inl e, s'))"
  using assms
  by (simp add: append_idempotent_def submission_args_def write_transaction_def)

lemma append_idempotent_closed:
  assumes "\<not> (submission_args a k body ttl \<and> require_writes_allowed m s = Inr ())"
  shows "\<exists>e. append_idempotent m r a k body t now ttl s = (Inl e, s)"
  using assms
  by (cases "require_writes_allowed m s") (auto simp: append_idempotent_def submission_args_def write_transaction_def)

lemma submitted_ok: "store_ok s es \<Longrightarrow> db_ok (submitted s now) es"
  by (simp add: store_ok_def submitted_def filter_idempotency_ok)

lemma append_idempotent_locked_eq:
  "append_idempotent_locked r a k body t now ttl (st_db s) =
    bindE (raising (bind_texts [a, k])) (\<lambda>_.
     case find_idempotency a k (submitted s now) of
       Some existing \<Rightarrow>
        (if i_body_sha256 existing \<noteq> body then Inl (Raise IdempotencyConflict)
         else bindE (raising (json_loads (i_response_json existing))) (\<lambda>response.
           case response of
             JObj x \<Rightarrow> Inr (Replayed x, submitted s now)
           | _ \<Rightarrow> Inl (Raise (StoreIntegrityError ''stored idempotency response is invalid''))))
     | None \<Rightarrow>
        bindE (append_locked r t (submitted s now)) (\<lambda>(entry, d1).
          Inr (Appended (entry_response entry) entry,
               d1\<lparr>db_idempotency := db_idempotency d1 @
                   [submission_row (entry_response entry) a k body (e_seq entry) (now + ttl)]\<rparr>)))"
  unfolding append_idempotent_locked_def submitted_def submission_row_def Let_def by (rule refl)

text \<open>What a submission does, on every branch that reaches the transaction.\<close>

lemma append_idempotent_spec:
  assumes ok: "store_ok s es" and cap: "length es + 1 < 2 ^ 63"
    and args: "submission_args a k body ttl" and w: "require_writes_allowed m s = Inr ()"
  shows "append_idempotent m r a k body t now ttl s =
    (case bind_texts [a, k] of Inl e \<Rightarrow> (Inl e, s) | Inr _ \<Rightarrow>
     case find_idempotency a k (submitted s now) of
       Some existing \<Rightarrow>
        (if i_body_sha256 existing \<noteq> body then (Inl IdempotencyConflict, s)
         else (Inr (response_of es (i_seq existing), True), s\<lparr>st_db := submitted s now\<rparr>))
     | None \<Rightarrow>
        (case admit r t of
           Inl e \<Rightarrow> (Inl e, s)
         | Inr b \<Rightarrow>
            (Inr (entry_response (entry_at es r), False),
             publish (entry_at es r) (s\<lparr>st_db := (extended (submitted s now) es (r, t))
               \<lparr>db_idempotency := db_idempotency (submitted s now) @
                 [submission_row (entry_response (entry_at es r)) a k body (int (length es) + 1) (now + ttl)]\<rparr>\<rparr>))))"
proof -
  have d: "db_ok (submitted s now) es" by (rule submitted_ok [OF ok])
  then have t: "tables_ok (submitted s now) es" and c: "length es < 2 ^ 64" using cap by (simp_all add: db_ok_def)
  note open_eq = append_idempotent_open [OF args w] append_idempotent_locked_eq
  show ?thesis
  proof (cases "bind_texts [a, k]")
    case (Inl e)
    then show ?thesis by (simp add: open_eq(1) write_transaction_def open_eq(2))
  next
    case b: (Inr u)
    show ?thesis
    proof (cases "find_idempotency a k (submitted s now)")
      case None
      then show ?thesis using b append_locked_spec [OF t c, of r t]
        by (cases "admit r t") (simp_all add: open_eq(1) write_transaction_def open_eq(2), simp add: entry_at_def)
    next
      case (Some x)
      then have "idempotency_ok es x" using d find_idempotency_Some [OF Some] by (auto simp: db_ok_def ledgers_ok_def)
      then have "json_loads (i_response_json x) = Inr (JObj (response_of es (i_seq x)))"
        using response_loads [of "i_seq x" es] cap by (simp add: idempotency_ok_def)
      then show ?thesis using b Some by (simp add: open_eq(1) write_transaction_def open_eq(2))
    qed
  qed
qed

lemma submission_store_ok:
  assumes "db_ok d es" "length es + 1 < 2 ^ 63" "entry_ok (r, t)" "find_idempotency a k d = None"
    "submission_args a k body ttl"
  shows "store_ok (publish (entry_at es r) (s\<lparr>st_db := (extended d es (r, t))\<lparr>db_idempotency := db_idempotency d @
      [submission_row (entry_response (entry_at es r)) a k body (int (length es) + 1) expires]\<rparr>\<rparr>)) (es @ [(r, t)])"
proof -
  have "db_ok (extended d es (r, t)) (es @ [(r, t)])" using assms(1-3) by (intro extend_db_ok)
  moreover have "find_idempotency a k (extended d es (r, t)) = None" using assms(4) by (simp add: find_idempotency_def)
  ultimately show ?thesis
    using insert_idempotency_ok [of "extended d es (r, t)" es r t a k body expires] assms(5)
    by (intro publish_store_ok) (simp add: submission_args_def)
qed

lemma append_idempotent_extends:
  assumes "store_ok s es" "length es + 1 < 2 ^ 63" "value_ok r t"
  shows "\<exists>new. length new \<le> 1 \<and> store_ok (snd (append_idempotent m r a k body t now ttl s)) (es @ new) \<and>
    db_metadata (st_db (snd (append_idempotent m r a k body t now ttl s))) = db_metadata (st_db s)"
proof (cases "submission_args a k body ttl \<and> require_writes_allowed m s = Inr ()")
  case False
  then obtain e where "append_idempotent m r a k body t now ttl s = (Inl e, s)"
    using append_idempotent_closed by blast
  then show ?thesis using assms(1) by (intro exI [of _ "[]"]) simp
next
  case True
  then have args: "submission_args a k body ttl" and w: "require_writes_allowed m s = Inr ()" by simp_all
  note spec = append_idempotent_spec [OF assms(1,2) args w, of r t now]
  let ?d = "submitted s now"
  have d: "db_ok ?d es" by (rule submitted_ok [OF assms(1)])
  have meta: "db_metadata ?d = db_metadata (st_db s)" by (simp add: submitted_def)
  show ?thesis
  proof (cases "bind_texts [a, k]")
    case (Inl e)
    then show ?thesis using assms(1) by (intro exI [of _ "[]"]) (simp add: spec)
  next
    case b: (Inr u)
    show ?thesis
    proof (cases "find_idempotency a k ?d")
      case (Some x)
      have "store_ok (s\<lparr>st_db := ?d\<rparr>) es" using assms(1) d by (simp add: store_ok_def)
      then show ?thesis using assms(1) b Some meta by (intro exI [of _ "[]"]) (simp add: spec)
    next
      case None
      show ?thesis
      proof (cases "admit r t")
        case (Inl e)
        then show ?thesis using assms(1) b None by (intro exI [of _ "[]"]) (simp add: spec)
      next
        case (Inr x)
        have "entry_ok (r, t)" using Inr assms(3) by (simp add: entry_ok_iff)
        from submission_store_ok [OF d assms(2) this None args, where s = s and expires = "now + ttl"] show ?thesis
          using b None Inr meta
          by (intro exI [of _ "[(r, t)]"]) (simp add: spec, simp add: publish_def)
      qed
    qed
  qed
qed

text \<open>A retried submission with the same body replays the first response and appends nothing.\<close>

lemma replay_after_append:
  assumes ok: "store_ok s es" "length es + 2 < 2 ^ 63" "value_ok r t"
    and first: "append_idempotent m r a k body t now ttl s = (Inr (resp, False), s1)"
    and later: "now' < now + ttl" "require_writes_allowed m' s1 = Inr ()" "24 * 3600 \<le> ttl'"
  shows "append_idempotent m' r' a k body t' now' ttl' s1 = (Inr (resp, True), s1\<lparr>st_db := submitted s1 now'\<rparr>)"
proof -
  have open1: "submission_args a k body ttl \<and> require_writes_allowed m s = Inr ()"
    using first append_idempotent_closed [of a k body ttl m s r t now] by fastforce
  then have args: "submission_args a k body ttl" and w: "require_writes_allowed m s = Inr ()" by simp_all
  have cap: "length es + 1 < 2 ^ 63" using ok(2) by simp
  note spec = append_idempotent_spec [OF ok(1) cap args w, of r t now]
  obtain u where u: "bind_texts [a, k] = Inr u" using first spec by (cases "bind_texts [a, k]") auto
  have n: "find_idempotency a k (submitted s now) = None"
    using first spec u by (cases "find_idempotency a k (submitted s now)") (auto split: if_splits)
  obtain b where b: "admit r t = Inr b" using first spec u n by (cases "admit r t") auto
  let ?row = "submission_row (entry_response (entry_at es r)) a k body (int (length es) + 1) (now + ttl)"
  have resp: "resp = entry_response (entry_at es r)"
    and s1: "s1 = publish (entry_at es r) (s\<lparr>st_db := (extended (submitted s now) es (r, t))
               \<lparr>db_idempotency := db_idempotency (submitted s now) @ [?row]\<rparr>\<rparr>)"
    using first spec u n b by auto
  have "entry_ok (r, t)" using b ok(3) by (simp add: entry_ok_iff)
  from submission_store_ok [OF submitted_ok [OF ok(1)] cap this n args, where s = s and expires = "now + ttl"]
  have ok1: "store_ok s1 (es @ [(r, t)])" by (simp only: s1)
  have "find_idempotency a k (submitted s1 now') = Some ?row"
  proof -
    have "db_idempotency (submitted s1 now') =
        filter (\<lambda>r. \<not> i_expires_at r \<le> now') (db_idempotency (submitted s now)) @ [?row]"
      using later(1) by (simp add: s1 submitted_def publish_def submission_row_def)
    moreover have "find P (xs @ ys) = (case find P xs of None \<Rightarrow> find P ys | Some x \<Rightarrow> Some x)"
      for P and xs ys :: "idempotency_row list" by (induction xs) auto
    moreover have "find (\<lambda>r. i_auditor_id r = a \<and> i_key r = k)
        (filter (\<lambda>r. \<not> i_expires_at r \<le> now') (db_idempotency (submitted s now))) = None"
      using n by (auto simp: find_idempotency_def find_None_iff)
    ultimately show ?thesis by (simp add: find_idempotency_def submission_row_def)
  qed
  moreover have "submission_args a k body ttl'" using args later(3) by (simp add: submission_args_def)
  moreover have "response_of (es @ [(r, t)]) (int (length es) + 1) = resp"
    unfolding resp by (rule entry_response_of [symmetric])
  ultimately show ?thesis
    using append_idempotent_spec [OF ok1 _ _ later(2), of a k body ttl' r' t' now'] ok(2) u
    by (simp add: submission_row_def)
qed


section \<open>Import batches\<close>

text \<open>What a caller hands in: each record with its own fingerprint.\<close>

definition batch_ok :: "str \<Rightarrow> (str \<times> obj) list \<Rightarrow> bool" where
  "batch_ok t records \<longleftrightarrow>
    (\<forall>(fingerprint, r) \<in> set records. value_ok r t \<and> import_fingerprint (JObj r) = Inr (Some fingerprint))"

lemma insert_imported_ok:
  assumes "db_ok d (es @ [(r, t)])" "import_fingerprint (JObj r) = Inr (Some f)"
  shows "db_ok (d\<lparr>db_imported := db_imported d @
    [\<lparr>m_fingerprint = f, m_imported_at = t, m_seq = Some (int (length es) + 1)\<rparr>]\<rparr>) (es @ [(r, t)])"
  using assms
  by (auto simp: db_ok_def tables_ok_def ledgers_ok_def save_frontier_def imported_ok_def nat_add_distrib)

definition published :: "entry list \<Rightarrow> log_entry option \<Rightarrow> bool" where
  "published es latest \<longleftrightarrow>
    (case latest of None \<Rightarrow> True
     | Some e \<Rightarrow> e_seq e = int (length es) \<and> e_entry_hash e = head_of (leaves es))"

definition imported_entries :: "str \<Rightarrow> (str \<times> obj) list \<Rightarrow> entry set" where
  "imported_entries t records = (\<lambda>(fingerprint, r). (r, t)) ` set records"

lemma imported_entries_simps [simp]:
  "imported_entries t [] = {}"
  "imported_entries t ((f, r) # records) = insert (r, t) (imported_entries t records)"
  by (simp_all add: imported_entries_def)

lemma import_records_ok:
  assumes "db_ok d es" "length es + length records < 2 ^ 63" "batch_ok t records" "published es latest"
    "import_records t records k latest d = Inr ((k', latest'), d')"
  shows "\<exists>new. length new \<le> length records \<and> k' = k + length new \<and> db_ok d' (es @ new) \<and>
    db_metadata d' = db_metadata d \<and> db_high_water d' = db_high_water d \<and>
    published (es @ new) latest' \<and> (latest' = None \<longrightarrow> new = [] \<and> latest = None) \<and>
    set new \<subseteq> imported_entries t records"
  using assms
proof (induction records arbitrary: k latest d es)
  case Nil
  then show ?case by (intro exI [of _ "[]"]) auto
next
  case (Cons p records)
  obtain f r where p: "p = (f, r)" by force
  have b: "batch_ok t records" and vr: "value_ok r t" and fr: "import_fingerprint (JObj r) = Inr (Some f)"
    using Cons.prems(3) by (auto simp: batch_ok_def p)
  show ?case
  proof (cases "\<exists>m \<in> set (db_imported d). m_fingerprint m = f")
    case True
    then have "import_records t records k latest d = Inr ((k', latest'), d')"
      using Cons.prems(5) by (auto simp: p bindE_Inr_iff)
    from Cons.IH [OF Cons.prems(1) _ b Cons.prems(4) this] Cons.prems(2) obtain new where
      "length new \<le> length records" "k' = k + length new" "db_ok d' (es @ new)"
      "db_metadata d' = db_metadata d" "db_high_water d' = db_high_water d" "published (es @ new) latest'"
      "latest' = None \<longrightarrow> new = [] \<and> latest = None" "set new \<subseteq> imported_entries t records"
      by auto
    then show ?thesis by (intro exI [of _ new]) (auto simp: p)
  next
    case False
    then obtain entry d1 where a: "append_locked r t d = Inr (entry, d1)"
      and rest: "import_records t records (k + 1) (Some entry) (d1\<lparr>db_imported := db_imported d1 @
            [\<lparr>m_fingerprint = f, m_imported_at = t, m_seq = Some (e_seq entry)\<rparr>]\<rparr>) = Inr ((k', latest'), d')"
      using Cons.prems(5) by (auto simp: p bindE_Inr_iff)
    have c: "length es + 1 < 2 ^ 63" using Cons.prems(2) by simp
    from append_locked_db_ok [OF Cons.prems(1) c vr a]
    have e: "entry = entry_at es r" "d1 = extended d es (r, t)" "db_ok d1 (es @ [(r, t)])" by blast+
    have d2: "db_ok (d1\<lparr>db_imported := db_imported d1 @
            [\<lparr>m_fingerprint = f, m_imported_at = t, m_seq = Some (e_seq entry)\<rparr>]\<rparr>) (es @ [(r, t)])"
      using insert_imported_ok [OF e(3) fr] by (simp add: e(1) entry_at_def)
    have "published (es @ [(r, t)]) (Some entry)"
      by (simp add: published_def e(1) entry_at_def head_of_def)
    from Cons.IH [OF d2 _ b this rest] Cons.prems(2) obtain new where
      "length new \<le> length records" "k' = k + 1 + length new" "db_ok d' (es @ (r, t) # new)"
      "db_metadata d' = db_metadata d1" "db_high_water d' = db_high_water d1"
      "published (es @ (r, t) # new) latest'" "latest' \<noteq> None" "set new \<subseteq> imported_entries t records"
      by auto
    then show ?thesis by (intro exI [of _ "(r, t) # new"]) (auto simp: p e(2))
  qed
qed

lemma put_high_water_ok:
  assumes "db_ok d es" "high_water_ok w" "put_high_water w d = Inr d'"
  shows "db_ok d' es \<and> db_metadata d' = db_metadata d \<and>
    db_high_water d' = filter (\<lambda>v. hw_key_id v \<noteq> hw_key_id w) (db_high_water d) @ [w]"
proof -
  have d': "d' = d\<lparr>db_high_water := filter (\<lambda>v. hw_key_id v \<noteq> hw_key_id w) (db_high_water d) @ [w]\<rparr>"
    using assms(3) by (auto simp: put_high_water_def bindE_Inr_iff)
  show ?thesis
    using assms(1,2)
    by (auto simp: d' db_ok_def tables_ok_def ledgers_ok_def save_frontier_def distinct_map_filter)
qed

lemma publish_last_ok:
  assumes "store_ok s es" "db_ok d (es @ new)" "published (es @ new) latest" "latest = None \<longrightarrow> new = []"
  shows "store_ok (publish_last latest (s\<lparr>st_db := d\<rparr>)) (es @ new)"
  using assms
  by (cases latest) (auto simp: publish_last_def publish_def store_ok_def published_def)

text \<open>Shared by both batch writers: the records, then the high-water row.\<close>

lemma import_batch_extends:
  assumes ok: "store_ok s es" "length es + length records < 2 ^ 63" "batch_ok t records"
    and imp: "import_records t records 0 None (st_db s) = Inr ((k, latest), d1)"
    and hw: "d2 = d1 \<or> (\<exists>w. high_water_ok w \<and> put_high_water w d1 = Inr d2)"
  shows "\<exists>new. length new \<le> length records \<and> k = length new \<and>
    store_ok (publish_last latest (s\<lparr>st_db := d2\<rparr>)) (es @ new) \<and> db_metadata d2 = db_metadata (st_db s) \<and>
    set new \<subseteq> imported_entries t records"
proof -
  have "db_ok (st_db s) es" "published es None" using ok(1) by (simp_all add: store_ok_def published_def)
  from import_records_ok [OF this(1) ok(2,3) this(2) imp] obtain new where
    new: "length new \<le> length records" "k = length new" "db_ok d1 (es @ new)" "db_metadata d1 = db_metadata (st_db s)"
      "published (es @ new) latest" "latest = None \<longrightarrow> new = []" "set new \<subseteq> imported_entries t records" by auto
  have "db_ok d2 (es @ new)" "db_metadata d2 = db_metadata d1"
    using hw new(3) put_high_water_ok by blast+
  with publish_last_ok [OF ok(1) _ new(5,6)] new show ?thesis by auto
qed

lemma append_imports_extends:
  assumes "store_ok s es" "length es + length records < 2 ^ 63" "batch_ok t records"
    "case offered of None \<Rightarrow> True | Some w \<Rightarrow> high_water_ok w"
  shows "\<exists>new. length new \<le> length records \<and> store_ok (snd (append_imports now records t offered s)) (es @ new) \<and>
    db_metadata (st_db (snd (append_imports now records t offered s))) = db_metadata (st_db s)"
proof (cases "fst (append_imports now records t offered s)")
  case (Inl e)
  then have "append_imports now records t offered s = (Inl e, s) \<or> (\<exists>m. snd (append_imports now records t offered s) = latch_integrity_failure now m s)"
    by (auto simp: append_imports_def write_transaction_def split: sum.splits abort.splits)
  then show ?thesis using assms(1)
    by (intro exI [of _ "[]"]) (auto simp: latch_integrity_failure_def store_ok_def)
next
  case (Inr k)
  then obtain latest d1 d2 where i: "import_records t records 0 None (st_db s) = Inr ((k, latest), d1)"
    and h: "(case offered of None \<Rightarrow> Inr d1 | Some w \<Rightarrow> put_high_water w d1) = Inr d2"
    and s: "append_imports now records t offered s = (Inr k, publish_last latest (s\<lparr>st_db := d2\<rparr>))"
    by (auto simp: append_imports_def write_transaction_def append_imports_locked_def bindE_Inr_iff
        split: sum.splits abort.splits)
  have "d2 = d1 \<or> (\<exists>w. high_water_ok w \<and> put_high_water w d1 = Inr d2)"
    using h assms(4) by (auto split: option.splits)
  from import_batch_extends [OF assms(1-3) i this] show ?thesis
    by (auto simp: s publish_last_def publish_def split: option.splits)
qed

lemma append_upstream_import_extends:
  assumes "store_ok s es" "length es + length records < 2 ^ 63" "batch_ok t records" "high_water_ok offered"
  shows "\<exists>new. length new \<le> length records \<and>
    store_ok (snd (append_upstream_import now records t offered older s)) (es @ new) \<and>
    db_metadata (st_db (snd (append_upstream_import now records t offered older s))) = db_metadata (st_db s) \<and>
    set new \<subseteq> imported_entries t records \<and>
    (case fst (append_upstream_import now records t offered older s) of
       Inr r \<Rightarrow> r_imported r = length new | Inl e \<Rightarrow> new = [])"
proof (cases "fst (append_upstream_import now records t offered older s)")
  case (Inl e)
  then have "append_upstream_import now records t offered older s = (Inl e, s) \<or>
      (\<exists>m. snd (append_upstream_import now records t offered older s) = latch_integrity_failure now m s)"
    by (auto simp: append_upstream_import_def write_transaction_def split: sum.splits abort.splits)
  then show ?thesis using assms(1) Inl
    by (intro exI [of _ "[]"]) (auto simp: latch_integrity_failure_def store_ok_def)
next
  case (Inr r)
  then obtain k latest d1 d2 outcome where i: "import_records t records 0 None (st_db s) = Inr ((k, latest), d1)"
    and h: "(if outcome = advanced then put_high_water offered d1 else Inr d1) = Inr d2"
    and s: "append_upstream_import now records t offered older s = (Inr r, publish_last latest (s\<lparr>st_db := d2\<rparr>))"
    and k: "r_imported r = k"
    by (auto simp: append_upstream_import_def write_transaction_def append_upstream_import_locked_def bindE_Inr_iff Let_def
        split: sum.splits abort.splits)
  have "d2 = d1 \<or> (\<exists>w. high_water_ok w \<and> put_high_water w d1 = Inr d2)"
    using h assms(4) by (auto split: if_splits)
  from import_batch_extends [OF assms(1-3) i this] show ?thesis
    by (auto simp: s k publish_last_def publish_def split: option.splits)
qed


section \<open>High-water marks\<close>

lemma append_locked_high_water:
  assumes "append_locked r t d = Inr (entry, d')"
  shows "db_high_water d' = db_high_water d"
proof -
  obtain n p where np: "(case last_log_row d of Some r \<Rightarrow> r | None \<Rightarrow> (0, GENESIS)) = (n, p)" by force
  from assms show ?thesis
    by (auto simp: append_locked_def np bindE_Inr_iff Let_def insert_log_def insert_boundary_def save_frontier_def
        simp del: json_dumps.simps split: if_splits)
qed

lemma import_records_high_water:
  "import_records t records k latest d = Inr (x, d') \<Longrightarrow> db_high_water d' = db_high_water d"
proof (induction records arbitrary: k latest d)
  case (Cons p records)
  then show ?case
    by (cases p) (auto simp: bindE_Inr_iff append_locked_high_water split: if_splits prod.splits)
qed simp

lemma get_put_high_water:
  assumes "put_high_water w d = Inr d'"
  shows "get_upstream_high_water d' k = (if k = hw_key_id w then Some w else get_upstream_high_water d k)"
proof -
  have 1: "find P (xs @ [x]) = (case find P xs of None \<Rightarrow> if P x then Some x else None | Some y \<Rightarrow> Some y)"
    for P and xs :: "upstream_high_water list" and x
    by (induction xs) auto
  have 2: "find (\<lambda>v. hw_key_id v = k) (filter (\<lambda>v. hw_key_id v \<noteq> hw_key_id w) xs) =
      (if k = hw_key_id w then None else find (\<lambda>v. hw_key_id v = k) xs)" for xs
    by (induction xs) auto
  have "db_high_water d' = filter (\<lambda>v. hw_key_id v \<noteq> hw_key_id w) (db_high_water d) @ [w]"
    using assms by (auto simp: put_high_water_def bindE_Inr_iff)
  then show ?thesis unfolding get_upstream_high_water_def by (simp add: 1 2 split: option.splits)
qed

lemma import_decision_cases:
  assumes "import_decision current offered older = Inr outcome"
  shows "(outcome = advanced \<and> (\<forall>c. current = Some c \<longrightarrow> hw_version c < hw_version offered)) \<or>
    (outcome = noop \<and> (\<exists>c. current = Some c \<and> hw_version offered = hw_version c \<and> hw_head offered = hw_head c \<and>
        hw_merkle_root offered = hw_merkle_root c \<and> hw_log_size offered = hw_log_size c)) \<or>
    (outcome = accepted_older \<and> older \<and> (\<exists>c. current = Some c \<and> hw_version offered < hw_version c))"
  using assms
  by (auto simp: import_decision_def upstream_offer_diagnostic_def split: option.splits if_splits)

lemma append_upstream_import_Inr:
  assumes "append_upstream_import now records t offered older s = (Inr r, s')"
  shows "import_decision (get_upstream_high_water (st_db s) (hw_key_id offered)) offered older = Inr (r_outcome r) \<and>
    r_persisted r = get_upstream_high_water (st_db s) (hw_key_id offered) \<and>
    get_upstream_high_water (st_db s') k =
      (if r_outcome r = advanced \<and> k = hw_key_id offered then Some offered else get_upstream_high_water (st_db s) k)"
proof -
  from assms obtain imported latest d1 d2 outcome where
    o: "import_decision (get_upstream_high_water (st_db s) (hw_key_id offered)) offered older = Inr outcome"
    and i: "import_records t records 0 None (st_db s) = Inr ((imported, latest), d1)"
    and h: "(if outcome = advanced then put_high_water offered d1 else Inr d1) = Inr d2"
    and r: "r = \<lparr>r_imported = imported, r_persisted = get_upstream_high_water (st_db s) (hw_key_id offered), r_outcome = outcome\<rparr>"
    and s': "st_db s' = d2"
    by (auto simp: append_upstream_import_def write_transaction_def append_upstream_import_locked_def bindE_Inr_iff
        Let_def publish_last_def publish_def split: sum.splits abort.splits option.splits)
  have "get_upstream_high_water d1 k = get_upstream_high_water (st_db s) k" for k
    using import_records_high_water [OF i] by (simp add: get_upstream_high_water_def)
  with o h r s' show ?thesis by (auto simp: get_put_high_water split: if_splits)
qed

lemma append_upstream_import_Inl:
  "append_upstream_import now records t offered older s = (Inl e, s') \<Longrightarrow> st_db s' = st_db s"
  unfolding append_upstream_import_def
  by (auto split: prod.splits sum.splits dest: write_transaction_error)


section \<open>Histories only grow\<close>

text \<open>
  A writer of the log: one operation turns a store for \<open>es\<close> into a store for an extension of
  \<open>es\<close> by at most \<open>weight i\<close> entries and leaves the creation metadata alone.
\<close>

locale log_writer =
  fixes step :: "'i \<Rightarrow> store \<Rightarrow> store"
    and accepts :: "'i \<Rightarrow> bool"
    and weight :: "'i \<Rightarrow> nat"
  assumes step_extends:
    "store_ok s es \<Longrightarrow> accepts i \<Longrightarrow> length es + weight i < 2 ^ 63 \<Longrightarrow>
     \<exists>new. length new \<le> weight i \<and> store_ok (step i s) (es @ new) \<and>
       db_metadata (st_db (step i s)) = db_metadata (st_db s)"
begin

lemma run_extends:
  assumes "store_ok s es" "\<forall>i \<in> set is. accepts i" "length es + sum_list (map weight is) < 2 ^ 63"
  shows "\<exists>new. length new \<le> sum_list (map weight is) \<and> store_ok (fold step is s) (es @ new) \<and>
    db_metadata (st_db (fold step is s)) = db_metadata (st_db s)"
  using assms
proof (induction "is" arbitrary: s es)
  case Nil
  then show ?case by (intro exI [of _ "[]"]) simp
next
  case (Cons i "is")
  have i: "accepts i" "length es + weight i < 2 ^ 63" using Cons.prems(2,3) by simp_all
  obtain new1 where n1: "length new1 \<le> weight i" "store_ok (step i s) (es @ new1)"
    "db_metadata (st_db (step i s)) = db_metadata (st_db s)"
    using step_extends [OF Cons.prems(1) i] by blast
  have "length (es @ new1) + sum_list (map weight is) < 2 ^ 63" using Cons.prems(3) n1(1) by simp
  moreover have "\<forall>i \<in> set is. accepts i" using Cons.prems(2) by simp
  ultimately obtain new2 where "length new2 \<le> sum_list (map weight is)" "store_ok (fold step is (step i s)) (es @ new1 @ new2)"
    "db_metadata (st_db (fold step is (step i s))) = db_metadata (st_db (step i s))"
    using Cons.IH [OF n1(2)] by auto
  then show ?case using n1 by (intro exI [of _ "new1 @ new2"]) auto
qed

lemma run_integrity:
  assumes "store_ok s es" "\<forall>i \<in> set is. accepts i" "length es + sum_list (map weight is) < 2 ^ 63"
  shows "\<exists>ls. integrity_errors_on [''ok''] (st_db (fold step is s)) = Inr ([], ls)"
proof -
  obtain new where "store_ok (fold step is s) (es @ new)" using run_extends [OF assms] by blast
  then show ?thesis using integrity_errors_ok by (auto simp: store_ok_def)
qed

lemma run_log_page:
  assumes "store_ok s es" "\<forall>i \<in> set is. accepts i" "length es + sum_list (map weight is) < 2 ^ 63"
    and "log_page since limit offset None (Some b) (st_db s) = Inr page"
  shows "log_page since limit offset None (Some b) (st_db (fold step is s)) = Inr page"
proof -
  obtain new where "store_ok (fold step is s) (es @ new)" "db_metadata (st_db (fold step is s)) = db_metadata (st_db s)"
    using run_extends [OF assms(1-3)] by blast
  then have d: "db_ok (st_db (fold step is s)) (es @ new)" and c: "created_of (st_db (fold step is s)) = created_of (st_db s)"
    by (simp_all add: store_ok_def created_of_def)
  have "db_ok (st_db s) es" using assms(1) by (simp add: store_ok_def)
  from log_page_stable [OF this d c assms(4)] show ?thesis .
qed

lemma run_records_page:
  assumes "store_ok s es" "\<forall>i \<in> set is. accepts i" "length es + sum_list (map weight is) < 2 ^ 63"
    and "records_page si c h hv limit offset None (Some b) (st_db s) = Inr page"
  shows "records_page si c h hv limit offset None (Some b) (st_db (fold step is s)) = Inr page"
proof -
  obtain new where "store_ok (fold step is s) (es @ new)" "db_metadata (st_db (fold step is s)) = db_metadata (st_db s)"
    using run_extends [OF assms(1-3)] by blast
  then have d: "db_ok (st_db (fold step is s)) (es @ new)" and c: "created_of (st_db (fold step is s)) = created_of (st_db s)"
    by (simp_all add: store_ok_def created_of_def)
  have "db_ok (st_db s) es" using assms(1) by (simp add: store_ok_def)
  from records_page_stable [OF this d c assms(4)] show ?thesis .
qed

end

text \<open>All writers of the store as one operation type, with the clock readings they receive.\<close>

datatype operation =
    OpAppend rat obj str
  | OpSubmit rat obj str str str str int int
  | OpImport rat "(str \<times> obj) list" str "upstream_high_water option"
  | OpUpstream rat "(str \<times> obj) list" str upstream_high_water bool

fun run_operation :: "operation \<Rightarrow> store \<Rightarrow> store" where
  "run_operation (OpAppend m r t) s = snd (append m r t s)"
| "run_operation (OpSubmit m r a k body t now ttl) s = snd (append_idempotent m r a k body t now ttl s)"
| "run_operation (OpImport m records t offered) s = snd (append_imports m records t offered s)"
| "run_operation (OpUpstream m records t offered older) s = snd (append_upstream_import m records t offered older s)"

fun operation_ok :: "operation \<Rightarrow> bool" where
  "operation_ok (OpAppend m r t) = value_ok r t"
| "operation_ok (OpSubmit m r a k body t now ttl) = value_ok r t"
| "operation_ok (OpImport m records t offered) =
    (batch_ok t records \<and> (case offered of None \<Rightarrow> True | Some w \<Rightarrow> high_water_ok w))"
| "operation_ok (OpUpstream m records t offered older) = (batch_ok t records \<and> high_water_ok offered)"

fun operation_weight :: "operation \<Rightarrow> nat" where
  "operation_weight (OpAppend m r t) = 1"
| "operation_weight (OpSubmit m r a k body t now ttl) = 1"
| "operation_weight (OpImport m records t offered) = length records"
| "operation_weight (OpUpstream m records t offered older) = length records"

interpretation store_writer: log_writer run_operation operation_ok operation_weight
proof unfold_locales
  fix s es i
  assume a: "store_ok s es" "operation_ok i" "length es + operation_weight i < 2 ^ 63"
  show "\<exists>new. length new \<le> operation_weight i \<and> store_ok (run_operation i s) (es @ new) \<and>
      db_metadata (st_db (run_operation i s)) = db_metadata (st_db s)"
  proof (cases i)
    case (OpAppend m r t)
    then show ?thesis using append_extends [OF a(1), of r t m] a by simp
  next
    case (OpSubmit m r u k body t now ttl)
    then show ?thesis using append_idempotent_extends [OF a(1), of r t m u k body now ttl] a by simp
  next
    case (OpImport m records t offered)
    then show ?thesis using append_imports_extends [OF a(1), of records t offered m] a by simp
  next
    case (OpUpstream m records t offered older)
    then show ?thesis using append_upstream_import_extends [OF a(1), of records t offered m older] a by auto
  qed
qed

end
