(* ===== verification/StoreHealth.thy ===== *)
theory StoreHealth
  imports StoreOps "HOL-Library.Multiset"
begin

text \<open>
  Opening a store, and the background verifier. \<open>refresh_health_verdict\<close> runs in two phases:
  a walk over one read snapshot that holds no lock, and the publication under the lock;
  writers may commit in between. \<open>pass_step\<close> is the resulting step relation. The lemmas show
  that a store whose tables are intact is never latched by a pass, whatever writes
  interleave, that a latched store stays latched and refuses writes, and that startup
  rebuilds a missing boundary cache and frontier from the log.
\<close>


section \<open>Opening\<close>

text \<open>The fields the constructor sets before and after the startup verification.\<close>

definition opened :: "rat \<Rightarrow> rat \<Rightarrow> str \<Rightarrow> db \<Rightarrow> store res" where
  "opened interval now utc d =
    bindE (snapshot_boundary_locked None d) (\<lambda>b.
      Inr \<lparr>st_db = d, health_ready = True, health_verified_head = sb_head b,
           health_verified_log_size = sb_log_size b, health_verified_at = utc, health_error = None,
           health_code = ''not_ready'', health_last_refresh = now, integrity_failed = False,
           health_verify_interval = interval\<rparr>)"

text \<open>The tail of \<open>Store.__init__\<close> once the schema is current: verify, rebuild the cache, publish.\<close>

definition open_verified :: "string list \<Rightarrow> rat \<Rightarrow> rat \<Rightarrow> str \<Rightarrow> db \<Rightarrow> store res" where
  "open_verified pragma interval now utc d =
    (if interval \<le> 0 then Inl (ValueError ''health_verify_interval must be a positive finite number of seconds'')
     else bindE (integrity_errors_on pragma d) (\<lambda>(errors, _).
       if errors \<noteq> [] then Inl (StoreIntegrityError ''integrity errors'')
       else bindE (ensure_boundaries d) (opened interval now utc)))"

text \<open>A new database file: the empty schema, the creation time and the schema marker.\<close>

definition new_db :: "str \<Rightarrow> db" where
  "new_db utc =
    \<lparr>db_log = [], db_log_sequence = 0,
     db_metadata = [(lit ''created_at'', utc), (lit ''schema_version'', lit ''4'')],
     db_imported = [], db_boundaries = [], db_frontier = [], db_high_water = [], db_idempotency = []\<rparr>"


section \<open>The background pass\<close>

definition walk_pass :: "string list \<Rightarrow> db \<Rightarrow> issue list" where
  "walk_pass pragma d =
    (case integrity_errors_on pragma d of
       Inl e \<Rightarrow> [Issue ''health verification failed'' None]
     | Inr (errors, walked) \<Rightarrow>
        (if errors \<noteq> [] then errors
         else case verify_boundary_cache_on d walked of
           Inl e \<Rightarrow> [Issue ''health verification failed'' None]
         | Inr cache_errors \<Rightarrow> cache_errors))"

definition latched_verdict :: "store \<Rightarrow> verdict" where
  "latched_verdict s =
    \<lparr>v_ready = False, v_head = health_verified_head s, v_log_size = health_verified_log_size s,
     v_at = health_verified_at s, v_error = health_error s, v_code = health_code s\<rparr>"

definition publish_pass :: "rat \<Rightarrow> str \<Rightarrow> issue list \<Rightarrow> store \<Rightarrow> verdict \<times> store" where
  "publish_pass now utc errors s =
    (if integrity_failed s then (latched_verdict s, s)
     else
       let boundary = snapshot_boundary_locked None (st_db s);
           failures = (if errors \<noteq> [] then errors
                       else case boundary of Inl e \<Rightarrow> [Issue ''snapshot boundary is unavailable'' None] | Inr b \<Rightarrow> [])
       in case (failures, boundary) of
            ([], Inr b) \<Rightarrow>
              (let s' = s\<lparr>health_ready := True, health_verified_head := sb_head b,
                          health_verified_log_size := sb_log_size b, health_verified_at := utc,
                          health_error := None, health_last_refresh := now\<rparr>
               in (\<lparr>v_ready = True, v_head = sb_head b, v_log_size = sb_log_size b, v_at = utc,
                    v_error = None, v_code = ''not_ready''\<rparr>, s'))
          | _ \<Rightarrow>
              (let s' = s\<lparr>integrity_failed := True, health_ready := False,
                          health_error := Some (Issues failures), health_last_refresh := now\<rparr>
               in (latched_verdict s', s')))"

definition refresh_health_verdict ::
  "rat \<Rightarrow> str \<Rightarrow> string list \<Rightarrow> store \<Rightarrow> verdict \<times> store" where
  "refresh_health_verdict now utc pragma s =
    (if integrity_failed s then (latched_verdict s, s)
     else publish_pass now utc (walk_pass pragma (st_db s)) s)"

text \<open>
  The verifier beside the writers: the store and, while a pass runs, the errors its walk
  found on the snapshot it opened. SQLite has no rowid left beyond 64 bits, hence the bound
  on a write.
\<close>

inductive pass_step :: "string list \<Rightarrow> store \<times> issue list option \<Rightarrow> store \<times> issue list option \<Rightarrow> bool"
  for pragma :: "string list" where
  writer: "operation_ok i \<Longrightarrow> length (db_log (st_db s)) + operation_weight i < 2 ^ 63 \<Longrightarrow>
    pass_step pragma (s, p) (run_operation i s, p)"
| begin_pass: "\<not> integrity_failed s \<Longrightarrow> pass_step pragma (s, None) (s, Some (walk_pass pragma (st_db s)))"
| end_pass: "pass_step pragma (s, Some errors) (snd (publish_pass now utc errors s), None)"

inductive_cases pass_stepE: "pass_step pragma (s, p) q"


section \<open>Intact caches compare clean\<close>

definition cached_at :: "entry list \<Rightarrow> nat \<Rightarrow> cached" where
  "cached_at es i = (hex (leaves es ! i), hex (root_of (take (i + 1) (leaves es))), snd (es ! i))"

lemma recompute_ok:
  assumes "length es < 2 ^ 63"
  shows "recompute_prefix (map (\<lambda>i. (hex (leaves es ! i), snd (es ! i))) [0..<length es]) =
    Inr (map (cached_at es) [0..<length es], frontier_of (leaves es))"
proof -
  have "zip (map hex (leaves es)) (map snd es) = map (\<lambda>i. (hex (leaves es ! i), snd (es ! i))) [0..<length es]"
    by (rule nth_equalityI) simp_all
  moreover have "map (\<lambda>i. (hex (leaves es ! i), hex (root_of (take (i + 1) (leaves es))), map snd es ! i)) [0..<length es] =
      map (cached_at es) [0..<length es]"
    by (rule map_cong) (simp_all add: cached_at_def)
  ultimately show ?thesis
    using recompute_prefix_roots [of "leaves es" "map snd es"] assms by simp
qed

lemma stored_boundaries_ok:
  "tables_ok d es \<Longrightarrow> stored_boundaries d = map (\<lambda>i. (int (i + 1), cached_at es i)) [0..<length es]"
  by (simp add: stored_boundaries_def tables_ok_def boundaries_of_def boundary_of_def cached_at_def)

lemma map_of_indexed:
  assumes "1 \<le> a" "a \<le> n"
  shows "map_of (map (\<lambda>i. (int (i + 1), f i)) [0..<n]) (int a) = Some (f (a - 1))"
proof -
  have "distinct (map fst (map (\<lambda>i. (int (i + 1), f i)) [0..<n]))"
    by (simp add: comp_def distinct_map inj_on_def)
  moreover have "(int a, f (a - 1)) \<in> set (map (\<lambda>i. (int (i + 1), f i)) [0..<n])"
    using assms by (auto simp: image_iff intro!: bexI [of _ "a - 1"])
  ultimately show ?thesis by (simp only: map_of_eq_Some_iff)
qed

lemma frontier_matches_refl [simp]: "frontier_matches f f"
  by (auto simp: frontier_matches_def list_all_iff zip_same)

lemma frontier_len_ok:
  assumes "tables_ok d es"
  shows "map_option f_len (find (\<lambda>r. f_level r = 0) (db_frontier d)) = (if es = [] then None else Some (int (length es)))"
proof (cases "es = []")
  case True
  then have "db_frontier d = []" using assms by (simp add: tables_ok_def save_frontier_def)
  then show ?thesis using True by simp
next
  case False
  then obtain fs where "frontier_of (leaves es) = level_summary (leaves es) # fs"
    using frontier_of_Cons [of "leaves es"] by auto
  then have "\<exists>rows. db_frontier d = \<lparr>f_level = 0, f_len = int (length es), f_tail = tail_text (last2 (leaves es))\<rparr> # rows"
    using assms by (simp add: tables_ok_def save_frontier_def level_summary_def)
  then show ?thesis using False by auto
qed

lemma live_head_ok:
  assumes "tables_ok d es"
  shows "(if db_log d = [] then 0 else fold max (map l_seq (db_log d)) (l_seq (hd (db_log d)))) = int (length es)"
proof -
  have "fold max (map l_seq (rows_of (es @ [e]))) k = max k (int (length es + 1))" for es e k
  proof (induction es arbitrary: e rule: rev_induct)
    case Nil
    then show ?case using rows_of_snoc [of "[]" e] by (simp add: mk_row_def max.commute)
  next
    case (snoc x xs)
    show ?case using snoc [of x] by (subst rows_of_snoc) (simp add: mk_row_def)
  qed
  moreover have "l_seq (hd (rows_of es)) = 1" if "es \<noteq> []"
    using that by (simp add: rows_of_def hd_map row_at_def mk_row_def)
  moreover have "db_log d = rows_of es" using assms by (simp add: tables_ok_def)
  ultimately show ?thesis by (cases es rule: rev_cases) auto
qed

lemma boundary_cache_ok:
  assumes "db_ok d es"
  shows "verify_boundary_cache_on d (walked_of es) = Inr []"
proof -
  have t: "tables_ok d es" and n: "length es < 2 ^ 63" using assms by (simp_all add: db_ok_def)
  have "map (\<lambda>(seq, h, t). (h, t)) (walked_of es) = map (\<lambda>i. (hex (leaves es ! i), snd (es ! i))) [0..<length es]"
    by (simp add: walked_of_def)
  moreover have "boundary_cache_errors (map (cached_at es) [0..<length es]) (stored_boundaries d) (length es)
      (int (length es)) (if es = [] then None else Some (int (length es))) (frontier_of (leaves es)) (frontier_of (leaves es)) = []"
    using map_of_indexed [of _ "length es" "cached_at es"]
    by (auto simp: boundary_cache_errors_def stored_boundaries_ok [OF t] in_set_enumerate_eq concat_eq_Nil_conv) 
  moreover have "length (walked_of es) = length es" by (simp add: walked_of_def)
  ultimately show ?thesis
    unfolding verify_boundary_cache_on_def Let_def frontier_len_ok [OF t] live_head_ok [OF t] load_frontier_ok [OF t]
    by (simp only: recompute_ok [OF n] bindE_simps prod.case sum.case)
qed

lemma walk_pass_ok: "db_ok d es \<Longrightarrow> walk_pass [''ok''] d = []"
  by (simp add: walk_pass_def integrity_errors_ok boundary_cache_ok)



section \<open>No false alarm\<close>

lemma publish_pass_ok:
  assumes "store_ok s es" "\<not> integrity_failed s"
  shows "snd (publish_pass now utc [] s) =
      s\<lparr>health_ready := True, health_verified_head := health_verified_head s,
        health_verified_log_size := health_verified_log_size s, health_verified_at := utc,
        health_error := None, health_last_refresh := now\<rparr>"
    and "fst (publish_pass now utc [] s) =
      \<lparr>v_ready = True, v_head = head_of (leaves es), v_log_size = int (length es), v_at = utc,
       v_error = None, v_code = ''not_ready''\<rparr>"
proof -
  have d: "db_ok (st_db s) es" and h: "health_verified_log_size s = int (length es)"
    "health_verified_head s = head_of (leaves es)"
    using assms(1) by (simp_all add: store_ok_def)
  have b: "snapshot_boundary_locked None (st_db s) = Inr (boundary_spec (created_of (st_db s)) es (length es))"
    using snapshot_boundary_ok [OF d, of None] by simp
  have "sb_head (boundary_spec c es (length es)) = head_of (leaves es)" for c
    by (cases "es = []") (simp_all add: boundary_spec_def head_of_def last_conv_nth)
  then show "snd (publish_pass now utc [] s) =
      s\<lparr>health_ready := True, health_verified_head := health_verified_head s,
        health_verified_log_size := health_verified_log_size s, health_verified_at := utc,
        health_error := None, health_last_refresh := now\<rparr>"
    "fst (publish_pass now utc [] s) =
      \<lparr>v_ready = True, v_head = head_of (leaves es), v_log_size = int (length es), v_at = utc,
       v_error = None, v_code = ''not_ready''\<rparr>"
    using assms(2) by (simp_all add: publish_pass_def b h)
qed

lemma append_locked_not_failing:
  "db_ok d es \<Longrightarrow> length es + 1 < 2 ^ 63 \<Longrightarrow> append_locked r t d \<noteq> Inl (FailAppend m)"
  using append_locked_spec [of d es r t] by (auto simp: db_ok_def split: sum.splits)

lemma import_records_not_failing:
  assumes "db_ok d es" "length es + length records < 2 ^ 63" "batch_ok t records"
  shows "import_records t records k latest d \<noteq> Inl (FailAppend m)"
  using assms
proof (induction records arbitrary: k latest d es)
  case (Cons p records)
  obtain f r where p: "p = (f, r)" by force
  have b: "batch_ok t records" and vr: "value_ok r t" and fr: "import_fingerprint (JObj r) = Inr (Some f)"
    using Cons.prems(3) by (auto simp: batch_ok_def p)
  have c: "length es + 1 < 2 ^ 63" using Cons.prems(2) by simp
  show ?case
  proof (cases "append_locked r t d")
    case (Inl e)
    then show ?thesis
      using Cons.IH [OF Cons.prems(1) _ b] Cons.prems(2) append_locked_not_failing [OF Cons.prems(1) c, of r t m]
      by (auto simp: p bindE_Inl_iff raising_def split: sum.splits)
  next
    case (Inr ed)
    obtain entry d1 where ed: "ed = (entry, d1)" by force
    from append_locked_db_ok [OF Cons.prems(1) c vr Inr [unfolded ed]]
    have e: "entry = entry_at es r" "db_ok d1 (es @ [(r, t)])" by blast+
    have "db_ok (d1\<lparr>db_imported := db_imported d1 @
        [\<lparr>m_fingerprint = f, m_imported_at = t, m_seq = Some (e_seq entry)\<rparr>]\<rparr>) (es @ [(r, t)])"
      using insert_imported_ok [OF e(2) fr] by (simp add: e(1) entry_at_def)
    from Cons.IH [OF this _ b] Cons.IH [OF Cons.prems(1) _ b] Cons.prems(2) show ?thesis
      by (auto simp: p Inr ed bindE_Inl_iff raising_def split: sum.splits)
  qed
qed simp

lemma raising_not_failing [simp]: "raising m \<noteq> Inl (FailAppend x)"
  by (auto simp: raising_def split: sum.splits)

lemma write_transaction_not_failing:
  assumes "\<And>x. f (st_db s) \<noteq> Inl (FailAppend x)"
  shows "integrity_failed (snd (write_transaction now (\<lambda>d. bindE (raising (w :: unit res)) (\<lambda>_. f d)) s)) = integrity_failed s"
    and "health_ready (snd (write_transaction now (\<lambda>d. bindE (raising (w :: unit res)) (\<lambda>_. f d)) s)) = health_ready s"
  using assms by (cases w; auto simp: write_transaction_def split: sum.splits abort.splits)+

text \<open>Publishing an entry leaves the flags as the transaction left them.\<close>

lemma append_flags:
  "integrity_failed (snd (append m r t s)) = integrity_failed (snd (write_transaction m (\<lambda>d. bindE (raising (require_writes_allowed m s)) (\<lambda>_. append_locked r t d)) s))"
  "health_ready (snd (append m r t s)) = health_ready (snd (write_transaction m (\<lambda>d. bindE (raising (require_writes_allowed m s)) (\<lambda>_. append_locked r t d)) s))"
  by (simp_all add: append_def publish_def split: prod.splits sum.splits)

lemma append_imports_flags:
  "integrity_failed (snd (append_imports m records t offered s)) = integrity_failed (snd (write_transaction m (\<lambda>d. bindE (raising (require_writes_allowed m s)) (\<lambda>_. append_imports_locked records t offered d)) s))"
  "health_ready (snd (append_imports m records t offered s)) = health_ready (snd (write_transaction m (\<lambda>d. bindE (raising (require_writes_allowed m s)) (\<lambda>_. append_imports_locked records t offered d)) s))"
  by (simp_all add: append_imports_def publish_last_def publish_def split: prod.splits sum.splits option.splits)

lemma append_upstream_import_flags:
  "integrity_failed (snd (append_upstream_import m records t offered older s)) = integrity_failed (snd (write_transaction m (\<lambda>d. bindE (raising (require_writes_allowed m s)) (\<lambda>_. append_upstream_import_locked records t offered older d)) s))"
  "health_ready (snd (append_upstream_import m records t offered older s)) = health_ready (snd (write_transaction m (\<lambda>d. bindE (raising (require_writes_allowed m s)) (\<lambda>_. append_upstream_import_locked records t offered older d)) s))"
  by (simp_all add: append_upstream_import_def publish_last_def publish_def split: prod.splits sum.splits option.splits)

lemma append_idempotent_flags:
  assumes "submission_args a k body ttl"
  shows "integrity_failed (snd (append_idempotent m r a k body t now ttl s)) = integrity_failed (snd (write_transaction m (\<lambda>d. bindE (raising (require_writes_allowed m s)) (\<lambda>_. append_idempotent_locked r a k body t now ttl d)) s))"
    and "health_ready (snd (append_idempotent m r a k body t now ttl s)) = health_ready (snd (write_transaction m (\<lambda>d. bindE (raising (require_writes_allowed m s)) (\<lambda>_. append_idempotent_locked r a k body t now ttl d)) s))"
  using assms
  by (simp_all add: append_idempotent_def submission_args_def publish_def split: prod.splits sum.splits submission.splits)

lemma run_operation_not_failing:
  assumes "store_ok s es" "operation_ok i" "length es + operation_weight i < 2 ^ 63"
  shows "integrity_failed (run_operation i s) = integrity_failed s \<and> health_ready (run_operation i s) = health_ready s"
proof -
  have d: "db_ok (st_db s) es" using assms(1) by (simp add: store_ok_def)
  show ?thesis
  proof (cases i)
    case (OpAppend m r t)
    have "append_locked r t (st_db s) \<noteq> Inl (FailAppend x)" for x
      using append_locked_not_failing [OF d] assms(3) OpAppend by simp
    from write_transaction_not_failing [where f = "append_locked r t" and s = s, OF this] show ?thesis
      by (simp only: OpAppend run_operation.simps append_flags simp_thms)
  next
    case (OpSubmit m r a k body t now ttl)
    have "append_idempotent_locked r a k body t now ttl (st_db s) \<noteq> Inl (FailAppend x)" for x
      using append_locked_not_failing [OF submitted_ok [OF assms(1)]] assms(3) OpSubmit
      by (auto simp: append_idempotent_locked_eq bindE_Inl_iff split: option.splits if_splits json.splits)
    from write_transaction_not_failing [where f = "append_idempotent_locked r a k body t now ttl" and s = s, OF this]
    have "?thesis" if "submission_args a k body ttl"
      by (simp only: OpSubmit run_operation.simps append_idempotent_flags [OF that] simp_thms)
    then show ?thesis
      using append_idempotent_closed [of a k body ttl m s r t now] by (fastforce simp: OpSubmit)
  next
    case (OpImport m records t offered)
    have "append_imports_locked records t offered (st_db s) \<noteq> Inl (FailAppend x)" for x
      using import_records_not_failing [OF d, of records t] assms(2,3) OpImport
      by (auto simp: append_imports_locked_def bindE_Inl_iff put_high_water_def split: option.splits)
    from write_transaction_not_failing [where f = "append_imports_locked records t offered" and s = s, OF this]
    show ?thesis
      by (simp only: OpImport run_operation.simps append_imports_flags simp_thms)
  next
    case (OpUpstream m records t offered older)
    have "append_upstream_import_locked records t offered older (st_db s) \<noteq> Inl (FailAppend x)" for x
      using import_records_not_failing [OF d, of records t] assms(2,3) OpUpstream
      by (auto simp: append_upstream_import_locked_def Let_def bindE_Inl_iff put_high_water_def split: if_splits)
    from write_transaction_not_failing [where f = "append_upstream_import_locked records t offered older" and s = s, OF this]
    show ?thesis
      by (simp only: OpUpstream run_operation.simps append_upstream_import_flags simp_thms)
  qed
qed

definition pass_inv :: "entry list \<Rightarrow> store \<times> issue list option \<Rightarrow> bool" where
  "pass_inv es = (\<lambda>(s, p).
    (\<exists>new. store_ok s (es @ new)) \<and> \<not> integrity_failed s \<and> health_ready s \<and> (p = None \<or> p = Some []))"

lemma store_ok_length: "store_ok s es \<Longrightarrow> length (db_log (st_db s)) = length es"
  by (simp add: store_ok_def db_ok_def tables_ok_def)

lemma pass_inv_step: "pass_step [''ok''] x y \<Longrightarrow> pass_inv es x \<Longrightarrow> pass_inv es y"
proof (induction rule: pass_step.induct)
  case (writer i s p)
  then obtain new where ok: "store_ok s (es @ new)" by (auto simp: pass_inv_def)
  then have room: "length (es @ new) + operation_weight i < 2 ^ 63" using writer(2) store_ok_length by fastforce
  obtain more where "store_ok (run_operation i s) ((es @ new) @ more)"
    using store_writer.step_extends [OF ok writer(1) room] by blast
  then have "\<exists>new. store_ok (run_operation i s) (es @ new)" by (intro exI [of _ "new @ more"]) simp
  then show ?case
    using run_operation_not_failing [OF ok writer(1) room] writer(3) by (auto simp: pass_inv_def)
next
  case (begin_pass s)
  then show ?case using walk_pass_ok by (auto simp: pass_inv_def store_ok_def)
next
  case (end_pass s errors now utc)
  then obtain new where ok: "store_ok s (es @ new)" and f: "\<not> integrity_failed s" "errors = []"
    by (auto simp: pass_inv_def)
  have "store_ok (snd (publish_pass now utc [] s)) (es @ new)"
    using ok by (simp add: publish_pass_ok [OF ok f(1)] store_ok_def)
  then show ?case using f by (auto simp: pass_inv_def publish_pass_ok [OF ok f(1)])
qed

interpretation intact: step_invariant "pass_step [''ok'']" "pass_inv es" for es
  by unfold_locales (rule pass_inv_step)


section \<open>The latch\<close>

lemma latched_refuses:
  assumes "integrity_failed s"
  shows "run_operation i s = s"
proof -
  note r = writes_refused_latched [OF assms]
  show ?thesis
  proof (cases i)
    case (OpSubmit m r a k body t now ttl)
    then show ?thesis using append_idempotent_closed [of a k body ttl m s r t now] r [of m] by force
  qed (simp_all add: append_def append_imports_def append_upstream_import_def write_transaction_def r)
qed

interpretation latched: step_invariant "pass_step pragma" "\<lambda>y. fst y = s \<and> integrity_failed s" for pragma s
  by unfold_locales (auto elim!: pass_step.cases simp: latched_refuses publish_pass_def)

lemma latched_forever:
  "(pass_step pragma)\<^sup>*\<^sup>* x y \<Longrightarrow> integrity_failed (fst x) \<Longrightarrow> fst y = fst x"
  using latched.run_preserves [of pragma x y "fst x"] by simp

text \<open>Any problem found by a walk latches the store, which then reads as not ready.\<close>

lemma failed_pass_latches:
  assumes "errors \<noteq> []" "\<not> integrity_failed s"
  shows "integrity_failed (snd (publish_pass now utc errors s)) \<and>
    \<not> health_ready (snd (publish_pass now utc errors s)) \<and> \<not> v_ready (fst (publish_pass now utc errors s))"
proof -
  obtain e es where "errors = e # es" using assms(1) by (cases errors) auto
  then show ?thesis using assms(2) by (simp add: publish_pass_def latched_verdict_def Let_def)
qed


section \<open>Startup\<close>

lemma list_all_enumerate:
  "list_all (\<lambda>(i, x). P i x) (enumerate n xs) \<longleftrightarrow> (\<forall>j < length xs. P (n + j) (xs ! j))"
proof (induction xs arbitrary: n)
  case (Cons x xs)
  show ?case using Cons.IH [of "Suc n"] by (auto simp: less_Suc_eq_0_disj)
qed simp

lemma ensure_boundaries_ok:
  assumes "db_ok d es"
  shows "ensure_boundaries d = Inr d"
proof -
  have t: "tables_ok d es" and n: "length es < 2 ^ 63" using assms by (simp_all add: db_ok_def)
  have rows: "db_log d = map (row_at es) [0..<length es]" using t by (simp add: tables_ok_def rows_of_def)
  have leaves: "map (\<lambda>row. (l_entry_hash row, l_created_at row)) (db_log d) =
      map (\<lambda>i. (hex (leaves es ! i), snd (es ! i))) [0..<length es]"
    by (simp add: rows row_at_def mk_row_def)
  have g1: "list_all (\<lambda>(index, row). l_seq row = int index) (enumerate 1 (db_log d))"
    by (simp add: list_all_enumerate rows row_at_def mk_row_def)
  have st: "stored_boundaries d = map (\<lambda>i. (int (i + 1), cached_at es i)) [0..<length es]"
    by (rule stored_boundaries_ok [OF t])
  have found: "map_of (stored_boundaries d) (int (1 + j)) = Some (cached_at es j)" if "j < length es" for j
    using map_of_indexed [of "1 + j" "length es" "cached_at es"] that by (simp add: st)
  have g2: "list_all (\<lambda>(log_size, _). \<not> (log_size < 1 \<or> log_size > int (length (db_log d)))) (stored_boundaries d)"
    by (auto simp: st rows list_all_iff)
  have g3: "list_all (\<lambda>(index, boundary). case map_of (stored_boundaries d) (int index) of None \<Rightarrow> True | Some cached \<Rightarrow> cached = boundary)
      (enumerate 1 (map (cached_at es) [0..<length es]))"
    using found by (simp add: list_all_enumerate)
  have "list_all (\<lambda>(index, _). map_of (stored_boundaries d) (int index) \<noteq> None) (enumerate 1 (map (cached_at es) [0..<length es]))"
    using found by (simp add: list_all_enumerate) (simp add: cached_at_def)
  then have missing: "filter (\<lambda>(index, _). map_of (stored_boundaries d) (int index) = None)
      (enumerate 1 (map (cached_at es) [0..<length es])) = []"
    by (fastforce simp: list_all_iff filter_empty_conv)
  show ?thesis
    unfolding ensure_boundaries_def Let_def leaves recompute_ok [OF n] load_frontier_ok [OF t]
    by (simp only: g1 g2 g3 missing guardE_simps bindE_simps prod.case sum.case frontier_matches_refl simp_thms if_True)
qed

text \<open>Missing cache rows and a missing frontier are restored from the log.\<close>

lemma enumerate_map: "enumerate n (map f [0..<m]) = map (\<lambda>i. (n + i, f i)) [0..<m]"
  by (rule nth_equalityI) (simp_all add: nth_enumerate_eq)

lemma map_of_selected:
  assumes "i < n"
  shows "map_of (map (\<lambda>i. (int (Suc i), f i)) (filter P [0..<n])) (int (Suc i)) = (if P i then Some (f i) else None)"
proof (cases "P i")
  case True
  have "distinct (map fst (map (\<lambda>i. (int (Suc i), f i)) (filter P [0..<n])))"
    by (simp add: comp_def distinct_map inj_on_def)
  moreover have "(int (Suc i), f i) \<in> set (map (\<lambda>i. (int (Suc i), f i)) (filter P [0..<n]))"
    using assms True by (force simp: image_iff)
  ultimately show ?thesis using True by (simp only: map_of_eq_Some_iff if_True)
next
  case False
  then show ?thesis by (auto simp: map_of_eq_None_iff)
qed

lemma sort_selected:
  "sort_key b_log_size (map (boundary_of es) (filter P [0..<n]) @ map (boundary_of es) (filter (\<lambda>i. \<not> P i) [0..<n])) =
    map (boundary_of es) [0..<n]"
proof (rule sort_key_inj_key_eq)
  have "mset (filter P [0..<n]) + mset (filter (\<lambda>i. \<not> P i) [0..<n]) = mset [0..<n]"
    by (induction n) auto
  from arg_cong [OF this, of "image_mset (boundary_of es)"]
  show "mset (map (boundary_of es) (filter P [0..<n]) @ map (boundary_of es) (filter (\<lambda>i. \<not> P i) [0..<n])) =
      mset (map (boundary_of es) [0..<n])" by simp
  show "inj_on b_log_size (set (map (boundary_of es) (filter P [0..<n]) @ map (boundary_of es) (filter (\<lambda>i. \<not> P i) [0..<n])))"
    by (auto simp: inj_on_def boundary_of_def)
  show "sorted (map b_log_size (map (boundary_of es) [0..<n]))"
    by (simp add: sorted_iff_nth_mono boundary_of_def)
qed

lemma ensure_boundaries_rebuilds:
  assumes "db_ok d es"
  shows "ensure_boundaries (d\<lparr>db_boundaries := filter keep (db_boundaries d), db_frontier := []\<rparr>) = Inr d"
proof -
  let ?d = "d\<lparr>db_boundaries := filter keep (db_boundaries d), db_frontier := []\<rparr>"
  let ?P = "\<lambda>i. keep (boundary_of es i)"
  have t: "tables_ok d es" and n: "length es < 2 ^ 63" using assms by (simp_all add: db_ok_def)
  have rows: "db_log ?d = map (row_at es) [0..<length es]" using t by (simp add: tables_ok_def rows_of_def)
  have ls: "map (\<lambda>row. (l_entry_hash row, l_created_at row)) (db_log ?d) =
      map (\<lambda>i. (hex (leaves es ! i), snd (es ! i))) [0..<length es]"
    by (simp add: rows row_at_def mk_row_def)
  have bs: "db_boundaries ?d = map (boundary_of es) (filter ?P [0..<length es])"
    using t by (simp add: tables_ok_def boundaries_of_def filter_map comp_def)
  have st: "stored_boundaries ?d = map (\<lambda>i. (int (Suc i), cached_at es i)) (filter ?P [0..<length es])"
    unfolding stored_boundaries_def bs by (simp add: boundary_of_def cached_at_def)
  have g1: "list_all (\<lambda>(index, row). l_seq row = int index) (enumerate 1 (db_log ?d))"
    by (simp add: list_all_enumerate rows row_at_def mk_row_def del: db.simps)
  have g2: "list_all (\<lambda>(log_size, _). \<not> (log_size < 1 \<or> log_size > int (length (db_log ?d)))) (stored_boundaries ?d)"
    by (auto simp: st rows list_all_iff simp del: db.simps)
  have g3: "list_all (\<lambda>(index, boundary). case map_of (stored_boundaries ?d) (int index) of None \<Rightarrow> True | Some cached \<Rightarrow> cached = boundary)
      (enumerate 1 (map (cached_at es) [0..<length es]))"
    unfolding st by (simp add: list_all_enumerate map_of_selected del: of_nat_Suc)
  have "filter (\<lambda>(index, _). map_of (stored_boundaries ?d) (int index) = None) (enumerate 1 (map (cached_at es) [0..<length es])) =
      map (\<lambda>i. (Suc i, cached_at es i)) (filter (\<lambda>i. \<not> ?P i) [0..<length es])"
    unfolding st enumerate_map filter_map
    by (rule map_cong [OF filter_cong]) (auto simp: map_of_selected simp del: of_nat_Suc)
  note missing = this
  have rebuilt: "map (\<lambda>(index, head, merkle, created_at). \<lparr>b_log_size = int index, b_head = head, b_merkle_root = merkle, b_created_at = created_at\<rparr>)
      (map (\<lambda>i. (Suc i, cached_at es i)) is) = map (boundary_of es) is" for "is"
    by (simp add: cached_at_def boundary_of_def)
  have lf: "load_frontier ?d = Inr []" by (simp add: load_frontier_def)
  have fm: "frontier_matches [] (frontier_of (leaves es)) \<longleftrightarrow> es = []"
    using frontier_of_Cons [of "leaves es"] by (cases "es = []") (auto simp: frontier_matches_def)
  have saved: "save_frontier (frontier_of (leaves es)) (?d\<lparr>db_boundaries := boundaries_of es\<rparr>) = d"
    using t by (simp add: tables_ok_def save_frontier_def)
  have empty: "?d = d" if "es = []" using t that by (simp add: tables_ok_def save_frontier_def)
  show ?thesis
    unfolding ensure_boundaries_def Let_def ls recompute_ok [OF n] lf
    by (simp only: g1 g2 g3 missing rebuilt guardE_simps bindE_simps prod.case sum.case fm bs sort_selected
        boundaries_of_def [symmetric] saved split: if_split) (use empty in auto)
qed

lemma open_verified_ok:
  assumes "db_ok d es" "0 < interval"
  shows "\<exists>s. open_verified [''ok''] interval now utc d = Inr s \<and> st_db s = d \<and> store_ok s es \<and>
    health_ready s \<and> \<not> integrity_failed s"
proof -
  have b: "snapshot_boundary_locked None d = Inr (boundary_spec (created_of d) es (length es))"
    using snapshot_boundary_ok [OF assms(1), of None] by simp
  have "sb_head (boundary_spec c es (length es)) = head_of (leaves es)" for c
    by (cases "es = []") (simp_all add: boundary_spec_def head_of_def last_conv_nth)
  then show ?thesis
    using assms by (simp add: open_verified_def integrity_errors_ok ensure_boundaries_ok opened_def b store_ok_def)
qed

lemma new_db_ok: "timestamp utc \<Longrightarrow> db_ok (new_db utc) []"
  by (simp add: db_ok_def tables_ok_def ledgers_ok_def new_db_def save_frontier_def metadata_ok_def)

end
