(* ===== verification/Sample.thy ===== *)
theory Sample
  imports StoreHealth "HOL-Library.Code_Target_Numeral"
begin

text \<open>
  Concrete values on which the witnesses of the properties are evaluated: a record, a time,
  a new store, and an instance of the Ed25519 interface. The instance satisfies the named
  hypotheses, so the theorems that carry them are not vacuous; it is of no cryptographic
  interest.
\<close>

definition sample_utc :: str where
  "sample_utc = lit ''2026-01-02T03:04:05Z''"

definition sample_body :: obj where
  "sample_body =
    [(lit ''schema_version'', JInt 1), (lit ''name'', JStr (lit ''demo'')),
     (lit ''source_identity'', JStr (lit ''host.example/acme/demo'')),
     (lit ''commit'', JStr (replicate 40 97)),
     (lit ''content_sha256'', JStr (lit ''sha256:'' @ replicate 64 98)),
     (lit ''status'', JStr (lit ''audited''))]"

definition sample_record :: obj where
  "sample_record = sample_body @
    [(lit ''sig'', JObj [(lit ''key_id'', JStr (replicate 16 48)), (lit ''algorithm'', JStr (lit ''ed25519'')),
       (lit ''signature'', JStr (b64encode (replicate 64 0)))])]"

definition sample_keys :: "byte ed25519" where
  "sample_keys = \<lparr>ed_public = (\<lambda>k. replicate 32 k), ed_sign = (\<lambda>k m. replicate 64 k),
    ed_verify = (\<lambda>public signature m. signature = replicate 64 (hd public))\<rparr>"

lemma sample_keys_ok: "ed25519_ok sample_keys"
  by (simp add: ed25519_ok_def sample_keys_def)

lemma sample_utc_ok: "timestamp sample_utc"
  by code_simp

lemma sample_value_ok: "value_ok sample_record sample_utc"
  by code_simp

lemma sample_dict_ok: "dict_ok (JObj sample_record)"
  using sample_value_ok by (simp add: value_ok_def)

lemma sample_validates: "validate_record (JObj sample_record) = Inr sample_record"
proof -
  have "case validate_record (JObj sample_record) of Inr _ \<Rightarrow> True | Inl _ \<Rightarrow> False" by code_simp
  then obtain r where r: "validate_record (JObj sample_record) = Inr r" by (auto split: sum.splits)
  with validate_recordD(1) [OF r] show ?thesis by simp
qed

lemma sample_admitted: "\<exists>b. admit sample_record sample_utc = Inr b"
proof -
  have "case admit sample_record sample_utc of Inr _ \<Rightarrow> True | Inl _ \<Rightarrow> False" by code_simp
  then show ?thesis by (auto split: sum.splits)
qed

text \<open>A new registry, opened.\<close>

definition sample_store :: store where
  "sample_store = (case open_verified [''ok''] 60 0 sample_utc (new_db sample_utc) of Inr s \<Rightarrow> s | Inl _ \<Rightarrow> undefined)"

lemma sample_store_ok:
  "st_db sample_store = new_db sample_utc" "store_ok sample_store []" "health_ready sample_store"
  "\<not> integrity_failed sample_store"
  using open_verified_ok [OF new_db_ok [OF sample_utc_ok], of 60 0 sample_utc] by (auto simp: sample_store_def)

lemma sample_store_writable: "require_writes_allowed 0 sample_store = Inr ()"
proof -
  have b: "snapshot_boundary_locked None (new_db sample_utc) = Inr (boundary_spec (created_of (new_db sample_utc)) [] 0)"
    using snapshot_boundary_ok [OF new_db_ok [OF sample_utc_ok], of None] by simp
  have s: "sample_store = \<lparr>st_db = new_db sample_utc, health_ready = True, health_verified_head = GENESIS,
           health_verified_log_size = 0, health_verified_at = sample_utc, health_error = None,
           health_code = ''not_ready'', health_last_refresh = 0, integrity_failed = False,
           health_verify_interval = 60\<rparr>"
    by (simp add: sample_store_def open_verified_def integrity_errors_ok [OF new_db_ok [OF sample_utc_ok]]
        ensure_boundaries_ok [OF new_db_ok [OF sample_utc_ok]] opened_def b boundary_spec_def)
  have "\<not> health_stale sample_store 0" by (simp add: health_stale_def s)
  then show ?thesis by (simp add: require_writes_allowed_def sample_store_ok)
qed

text \<open>The registry after one commit, at two different times.\<close>

definition sample_later :: str where
  "sample_later = lit ''2026-01-02T03:04:06Z''"

definition sample_committed :: "str \<Rightarrow> store" where
  "sample_committed t = snd (append 0 sample_record t sample_store)"

lemma sample_later_ok: "value_ok sample_record sample_later" "\<exists>b. admit sample_record sample_later = Inr b"
proof -
  have "timestamp sample_later" by code_simp
  then show "value_ok sample_record sample_later" using sample_value_ok by (simp add: value_ok_def)
  have "case admit sample_record sample_later of Inr _ \<Rightarrow> True | Inl _ \<Rightarrow> False" by code_simp
  then show "\<exists>b. admit sample_record sample_later = Inr b" by (auto split: sum.splits)
qed

lemma sample_committed_ok:
  assumes "t \<in> {sample_utc, sample_later}"
  shows "store_ok (sample_committed t) [(sample_record, t)]"
proof -
  have "value_ok sample_record t" "\<exists>b. admit sample_record t = Inr b"
    using assms sample_value_ok sample_admitted sample_later_ok by auto
  then show ?thesis
    using append_commits [OF sample_store_ok(2) _ _ sample_store_writable, of sample_record t]
    by (auto simp: sample_committed_def)
qed

lemma sample_log:
  assumes "t \<in> {sample_utc, sample_later}"
  shows "db_log (st_db (sample_committed t)) =
      [mk_row 1 GENESIS (leaf_hash GENESIS sample_record) (sample_record, t)]"
    and "integrity_errors_on [''ok''] (st_db (sample_committed t)) = Inr ([], walked_of [(sample_record, t)])"
  using sample_committed_ok [OF assms] rows_of_snoc [of "[]" "(sample_record, t)"]
  by (simp_all add: store_ok_def integrity_errors_ok) (simp add: db_ok_def tables_ok_def head_of_def)

text \<open>The registry after one idempotent submission.\<close>

definition sample_digest :: str where
  "sample_digest = replicate 64 97"

definition sample_submit :: "(obj \<times> bool) res \<times> store" where
  "sample_submit = append_idempotent 0 sample_record (lit ''alice'') (lit ''key-1'') sample_digest sample_utc 0 93600 sample_store"

lemma sample_args: "submission_args (lit ''alice'') (lit ''key-1'') sample_digest 93600"
  by code_simp

lemma sample_texts: "bind_texts [lit ''alice'', lit ''key-1''] = Inr ()"
  by code_simp

lemma sample_submit_ok:
  "\<exists>resp s. sample_submit = (Inr (resp, False), s) \<and> store_ok s [(sample_record, sample_utc)] \<and>
    require_writes_allowed 0 s = Inr () \<and>
    (\<exists>row \<in> set (db_idempotency (st_db s)). i_auditor_id row = lit ''alice'' \<and> i_key row = lit ''key-1'' \<and>
      i_expires_at row = 93600 \<and> i_body_sha256 row = sample_digest)"
proof -
  have f: "find_idempotency (lit ''alice'') (lit ''key-1'') (submitted sample_store 0) = None"
    "db_idempotency (submitted sample_store 0) = []"
    by (simp_all add: find_idempotency_def submitted_def sample_store_ok(1) new_db_def)
  obtain b where b: "admit sample_record sample_utc = Inr b" using sample_admitted by blast
  have e: "entry_ok (sample_record, sample_utc)" using b sample_value_ok by (simp add: entry_ok_iff)
  note spec = append_idempotent_spec [OF sample_store_ok(2) _ sample_args sample_store_writable,
      of sample_record sample_utc 0, folded sample_submit_def]
  have d: "db_ok (submitted sample_store 0) []" by (rule submitted_ok [OF sample_store_ok(2)])
  define row where "row = submission_row (entry_response (entry_at [] sample_record)) (lit ''alice'') (lit ''key-1'') sample_digest 1 93600"
  define s where "s = publish (entry_at [] sample_record) (sample_store\<lparr>st_db :=
    (extended (submitted sample_store 0) [] (sample_record, sample_utc))\<lparr>db_idempotency := [row]\<rparr>\<rparr>)"
  have "sample_submit = (Inr (entry_response (entry_at [] sample_record), False), s)"
    using spec by (simp add: sample_texts f b s_def row_def)
  moreover have "store_ok s [(sample_record, sample_utc)]"
    using submission_store_ok [OF d _ e f(1) sample_args, where s = sample_store and expires = 93600] by (simp add: s_def row_def f)
  moreover have "require_writes_allowed 0 s = Inr ()"
    using sample_store_writable unfolding s_def publish_def require_writes_allowed_def health_stale_def
    by (simp split: if_splits)
  moreover have "row \<in> set (db_idempotency (st_db s))" by (simp add: s_def publish_def)
  moreover have "i_auditor_id row = lit ''alice'' \<and> i_key row = lit ''key-1'' \<and> i_expires_at row = 93600 \<and>
      i_body_sha256 row = sample_digest" by (simp add: row_def submission_row_def)
  ultimately show ?thesis by blast
qed

end
