(* ===== verification/KeyOrder.thy ===== *)
theory KeyOrder
  imports StoreIntegrity
begin

text \<open>
  A record written to the log or carried in a cursor comes back with its keys sorted. The
  validators and the signature check read a dictionary by key only, so they decide the same on
  the sorted dictionary.
\<close>

lemma keys_of_sorted_record [simp]: "keys_of (sorted_record r) = keys_of r"
  by (auto simp: sorted_record_def keys_of_def image_image)

lemma sort_json_eq_leaf [simp]:
  "sort_json v = JStr s \<longleftrightarrow> v = JStr s" "sort_json v = JInt i \<longleftrightarrow> v = JInt i" "sort_json v = JNull \<longleftrightarrow> v = JNull"
  by (cases v; auto)+

lemma sorted_lookup:
  assumes "dict_ok (JObj r)"
  shows "map_of (sorted_record r) k = Some (JStr s) \<longleftrightarrow> map_of r k = Some (JStr s)"
    and "map_of (sorted_record r) k = Some (JInt i) \<longleftrightarrow> map_of r k = Some (JInt i)"
    and "get_str (sorted_record r) k = get_str r k"
    and "get_int (sorted_record r) k = get_int r k"
  by (cases "map_of r k"; auto simp: map_of_sorted_record [OF assms] get_str_def get_int_def split: json.splits)+

lemma sorted_lookup_obj:
  assumes "dict_ok (JObj r)"
  shows "map_of r k = Some (JObj d) \<Longrightarrow> map_of (sorted_record r) k = Some (JObj (sorted_record d))"
  by (simp add: map_of_sorted_record [OF assms] sort_json_JObj del: sort_json.simps)

lemma dict_member: "dict_ok (JObj r) \<Longrightarrow> map_of r k = Some v \<Longrightarrow> dict_ok v"
  by (auto dest!: map_of_SomeD)

lemma dict_get_or: "dict_ok (JObj r) \<Longrightarrow> dict_ok (get_or r x JNull)"
  by (auto dest: dict_member split: option.split)

lemma sorted_record_ok: "dict_ok (JObj r) \<Longrightarrow> dict_ok (JObj (sorted_record r))"
  using sort_json_dict_ok [of "JObj r"] by (simp only: sort_json_JObj)

lemma validate_signature_sort:
  assumes "dict_ok v"
  shows "validate_signature (sort_json v) = validate_signature v"
proof (cases v)
  case (JObj r)
  then show ?thesis
    using assms sorted_lookup [of r]
    by (simp add: sort_json_JObj validate_signature_def del: sort_json.simps dict_ok_JObj)
qed (simp_all add: validate_signature_def)

lemma validate_endorsement_sort:
  assumes "dict_ok v"
  shows "validate_endorsement (sort_json v) = validate_endorsement v"
proof (cases v)
  case (JObj r)
  have r: "dict_ok (JObj r)" using assms JObj by simp
  show ?thesis
    unfolding JObj sort_json_JObj validate_endorsement_def json.case
    by (simp only: keys_of_sorted_record sorted_lookup [OF r] get_or_sorted_record [OF r]
        validate_signature_sort [OF dict_get_or [OF r]])
qed (simp_all add: validate_endorsement_def)

lemma validate_hash_version_sort:
  assumes "dict_ok (JObj r)"
  shows "validate_hash_version (sorted_record r) = validate_hash_version r"
  using sorted_lookup(2) [OF assms]
  by (cases "map_of r (lit ''schema_version'')")
    (auto simp: validate_hash_version_def map_of_sorted_record [OF assms] split: json.splits)

lemma canonical_sorted_iff:
  assumes "dict_ok v"
  shows "(\<exists>b. canonical_document (sort_json v) = Inr b) \<longleftrightarrow> (\<exists>b. canonical_document v = Inr b)"
  using assms sort_json_dict_ok [OF assms] canonical_document_defined [of v] canonical_document_sort [of v]
  by (auto simp: canonical_document_Inr)

lemma validate_record_sort:
  assumes "dict_ok (JObj r)" "validate_record (JObj r) = Inr r"
  shows "validate_record (JObj (sorted_record r)) = Inr (sorted_record r)"
proof -
  note v = assms(2) [unfolded validate_record_Inr]
  note m = map_of_sorted_record [OF assms(1)] and g = get_or_sorted_record [OF assms(1)]
  obtain s where s: "validate_source_identity (get_or r ''source_identity'' JNull) = Inr s" using v by blast
  then have "get_or r ''source_identity'' JNull = JStr s" by (simp add: validate_source_identity_Inr)
  then have 1: "validate_source_identity (get_or (sorted_record r) ''source_identity'' JNull) = Inr s"
    using s by (simp only: g) simp
  have "sort_json (get_or r ''status'' JNull) = get_or r ''status'' JNull"
    using v by (auto simp: check_status_def split: json.splits)
  then have 2: "check_status (get_or (sorted_record r) ''status'' JNull) = Inr ()" using v by (simp only: g)
  have 3: "case get_or (sorted_record r) ''audit'' (JObj []) of JObj a \<Rightarrow> True | _ \<Rightarrow> False"
    using v by (cases "map_of r (lit ''audit'')") (auto simp: m split: json.splits)
  have 4: "validate_signature (get_or (sorted_record r) ''sig'' JNull) = Inr ()"
    using v validate_signature_sort [OF dict_get_or [OF assms(1)]] by (simp only: g)
  have 5: "case get_or (sorted_record r) ''endorsements'' (JArr []) of
       JArr endorsements \<Rightarrow> \<forall>e \<in> set endorsements. validate_endorsement e = Inr () | _ \<Rightarrow> False"
  proof (cases "map_of r (lit ''endorsements'')")
    case (Some x)
    then have "dict_ok x" using assms(1) by (rule dict_member [rotated])
    then show ?thesis using v Some validate_endorsement_sort by (cases x) (auto simp: m)
  qed (simp add: m)
  have 6: "\<exists>b. canonical_document (JObj (sorted_record r)) = Inr b"
    using v canonical_sorted_iff [OF assms(1)] by (simp only: sort_json_JObj)
  show ?thesis
    unfolding validate_record_Inr
    using v 1 2 3 4 5 6 by (simp add: sorted_lookup [OF assms(1)] validate_hash_version_sort [OF assms(1)])
qed

lemma validate_snapshot_sort:
  assumes "dict_ok (JObj r)" "validate_snapshot (JObj r) = Inr r"
  shows "validate_snapshot (JObj (sorted_record r)) = Inr (sorted_record r)"
proof -
  note m = map_of_sorted_record [OF assms(1)] and g = get_or_sorted_record [OF assms(1)]
  have c: "\<exists>b. canonical_document (JObj r) = Inr b"
    using assms(2) by (auto simp: validate_snapshot_def bindE_Inr_iff canonicalize_validated_def)
  then have 1: "canonicalize_validated (JObj (sorted_record r)) = Inr ()"
    using canonical_document_sort [of "JObj r"] by (auto simp: sort_json_JObj canonicalize_validated_def simp del: sort_json.simps)
  have 2: "(case map_of (sorted_record r) k of Some s \<Rightarrow> py_eq_int s 1 | None \<Rightarrow> False) =
      (case map_of r k of Some s \<Rightarrow> py_eq_int s 1 | None \<Rightarrow> False)" for k
    by (cases "map_of r k") (auto simp: m py_eq_int_def split: json.splits)
  show ?thesis
    using assms(2) 1 unfolding validate_snapshot_def json.case
    by (simp only: keys_of_sorted_record sorted_lookup [OF assms(1)] g validate_signature_sort [OF dict_get_or [OF assms(1)]]
        2 bindE_Inr_iff) blast
qed

lemma verify_signedE:
  assumes "verify_signed E pinned r"
  obtains sig public c g where
    "map_of r (lit ''sig'') = Some (JObj sig)" "keys_of sig = sig_fields" "parse_public_key pinned = Inr public"
    "canonical_bytes r = Inr c" "map_of sig (lit ''algorithm'') = Some (JStr (lit ''ed25519''))"
    "map_of sig (lit ''key_id'') = Some (JStr (take 16 (sha256_hex public)))"
    "map_of sig (lit ''signature'') = Some (JStr g)" "verify E pinned c g"
proof -
  obtain public c sig where p: "parse_public_key pinned = Inr public" "canonical_bytes r = Inr c"
    "map_of r (lit ''sig'') = Some (JObj sig)"
    "map_of sig (lit ''key_id'') = Some (JStr (take 16 (sha256_hex public)))"
    using assms by (elim verify_signedD) blast
  note v = assms [unfolded verify_signed_def]
  have k: "keys_of sig = sig_fields" "map_of sig (lit ''algorithm'') = Some (JStr (lit ''ed25519''))"
    using v p by (simp_all split: if_splits)
  obtain g where "map_of sig (lit ''signature'') = Some (JStr g)" "verify E pinned c g"
    using v p k by (auto split: option.splits json.splits)
  with that p k show thesis by blast
qed

lemma verify_signedI:
  "map_of r (lit ''sig'') = Some (JObj sig) \<Longrightarrow> keys_of sig = sig_fields \<Longrightarrow> parse_public_key pinned = Inr public \<Longrightarrow>
   canonical_bytes r = Inr c \<Longrightarrow> map_of sig (lit ''algorithm'') = Some (JStr (lit ''ed25519'')) \<Longrightarrow>
   map_of sig (lit ''key_id'') = Some (JStr (take 16 (sha256_hex public))) \<Longrightarrow>
   map_of sig (lit ''signature'') = Some (JStr g) \<Longrightarrow> verify E pinned c g \<Longrightarrow> verify_signed E pinned r"
  by (simp add: verify_signed_def)

lemma verify_signed_sort:
  assumes "dict_ok (JObj r)" "verify_signed E pinned r"
  shows "verify_signed E pinned (sorted_record r)"
  using assms(2)
proof (rule verify_signedE)
  fix sig public c g
  assume sig: "map_of r (lit ''sig'') = Some (JObj sig)" and c: "canonical_bytes r = Inr c"
    and v: "keys_of sig = sig_fields" "parse_public_key pinned = Inr public"
      "map_of sig (lit ''algorithm'') = Some (JStr (lit ''ed25519''))"
      "map_of sig (lit ''key_id'') = Some (JStr (take 16 (sha256_hex public)))"
      "map_of sig (lit ''signature'') = Some (JStr g)" "verify E pinned c g"
  have d: "dict_ok (JObj sig)" using dict_member [OF assms(1) sig] .
  show ?thesis
    by (rule verify_signedI [OF sorted_lookup_obj [OF assms(1) sig] _ v(2) canonical_bytes_sorted [OF c] _ _ _ v(6)])
      (simp_all only: keys_of_sorted_record sorted_lookup [OF d] v)
qed

end
