(* ===== verification/Bundle.thy ===== *)
theory Bundle
  imports StoreHealth KeyOrder
begin

text \<open>
  \<open>snapshot.py\<close> and \<open>bundle.py\<close>: the signed snapshot of a boundary, and air-gapped
  federation. An export reads the log and the snapshot in two separate lock scopes, so the
  model takes the store at each of the two reads. An import verifies the whole bundle against
  the pinned upstream key before it touches the store; the outcome of the write transaction
  is \<open>append_upstream_import\<close>. The audit log lines are output and not modelled.
\<close>


section \<open>Snapshots\<close>

definition snapshot_body :: "snapshot_boundary \<Rightarrow> obj" where
  "snapshot_body b =
    [(lit ''schema_version'', JInt 1), (lit ''merkle_root'', JStr (sb_merkle_root b)),
     (lit ''log_size'', JInt (sb_log_size b)), (lit ''head'', JStr (sb_head b)),
     (lit ''version'', JInt (sb_version b)), (lit ''created_at'', JStr (sb_created_at b))]"

definition build_snapshot ::
  "'k ed25519 \<Rightarrow> 'k \<Rightarrow> snapshot_boundary option \<Rightarrow> str option \<Rightarrow> int option \<Rightarrow> store \<Rightarrow> obj res" where
  "build_snapshot E key boundary created_at version s =
    bindE (case boundary of Some b \<Rightarrow> Inr b | None \<Rightarrow> snapshot_boundary None s) (\<lambda>selected.
    bindE (guardE (case created_at of None \<Rightarrow> True | Some t \<Rightarrow> t = sb_created_at selected)
             (ValueError ''snapshot created_at must equal the committed boundary'')) (\<lambda>_.
    bindE (guardE (case version of None \<Rightarrow> True | Some v \<Rightarrow> v = sb_version selected)
             (ValueError ''snapshot version must equal the committed log size'')) (\<lambda>_.
    sign_record E key (snapshot_body selected))))"


section \<open>Export\<close>

definition export_bundle :: "'k ed25519 \<Rightarrow> 'k \<Rightarrow> store \<Rightarrow> store \<Rightarrow> obj res" where
  "export_bundle E key s_log s_snapshot =
    bindE (log_entries 0 None (st_db s_log)) (\<lambda>entries.
      let records = map e_record entries in
    bindE (build_snapshot E key None None None s_snapshot) (\<lambda>snapshot.
      Inr [(lit ''schema_version'',
             JInt (if list_ex (\<lambda>r. py_eq_int (get_or r ''hash_version'' JNull) 2) records then 2 else 1)),
           (lit ''records'', JArr (map JObj records)),
           (lit ''snapshot'', JObj snapshot),
           (lit ''public_key'', JStr (public_pinned E key))]))"


section \<open>Import\<close>

definition bundle_merkle_root :: "bytes list \<Rightarrow> str res" where
  "bundle_merkle_root ls =
    (if ls = [] then Inr GENESIS else bindE (at0 (merkle_reduce ls)) (\<lambda>top. Inr (hex top)))"

text \<open>The verification loop: the checked records, their leaves and the head reached.\<close>

fun verify_records ::
  "'k ed25519 \<Rightarrow> str \<Rightarrow> int \<Rightarrow> json list \<Rightarrow> str \<Rightarrow> (obj list \<times> bytes list \<times> str) res" where
  "verify_records E upstream_key schema [] previous = Inr ([], [], previous)"
| "verify_records E upstream_key schema (record # records) previous =
    bindE (validate_record record) (\<lambda>checked.
    bindE (guardE (\<not> (schema = 1 \<and> py_eq_int (get_or checked ''hash_version'' JNull) 2))
             (ValueError ''hash_version_mismatch: bundle schema 1 cannot contain v2 records'')) (\<lambda>_.
    bindE (guardE (verify_signed E upstream_key checked)
             (ValueError ''bundle record does not verify against the upstream key'')) (\<lambda>_.
    bindE (canonical_bytes checked) (\<lambda>encoded.
    bindE (ascii_encode previous) (\<lambda>prev_bytes.
      let entry_hash = sha256_hex (prev_bytes @ encoded) in
    bindE (fromhex entry_hash) (\<lambda>leaf.
    bindE (verify_records E upstream_key schema records entry_hash) (\<lambda>(verified, hashes, head).
      Inr (checked # verified, leaf # hashes, head))))))))"

definition countersign_body :: "str \<Rightarrow> obj \<Rightarrow> obj" where
  "countersign_body endorser record =
    (let endorsement = JObj [(lit ''endorser'', JStr endorser), (lit ''sig'', get_or record ''sig'' JNull)];
         body = without (lit ''sig'') record
     in AList.update (lit ''endorsements'')
          (case map_of body (lit ''endorsements'') of
             Some (JArr existing) \<Rightarrow> JArr (existing @ [endorsement]) | _ \<Rightarrow> JArr [endorsement]) body)"

text \<open>\<open>record["sig"]["signature"]\<close> and the other subscripts; a missing key reads as \<open>JNull\<close>, which a validated record excludes.\<close>

definition own_signature :: "obj \<Rightarrow> json" where
  "own_signature record =
    (case map_of record (lit ''sig'') of Some (JObj sig) \<Rightarrow> get_or sig ''signature'' JNull | _ \<Rightarrow> JNull)"

definition fingerprint_fields :: "obj \<Rightarrow> json \<Rightarrow> json list" where
  "fingerprint_fields record signature =
    [get_or record ''source_identity'' JNull, get_or record ''commit'' JNull,
     get_or record ''content_sha256'' JNull, get_or record ''status'' JNull, signature]"

definition countersign_import :: "'k ed25519 \<Rightarrow> 'k \<Rightarrow> obj \<Rightarrow> (str \<times> obj) res" where
  "countersign_import E key record =
    bindE (utf8_encode (json_dumps False (JArr (fingerprint_fields record (own_signature record))))) (\<lambda>payload.
    bindE (sign_record E key (countersign_body (lit ''upstream-import'') record)) (\<lambda>signed.
      Inr (sha256_hex payload, signed)))"

definition countersign_imports :: "'k ed25519 \<Rightarrow> 'k \<Rightarrow> obj list \<Rightarrow> (str \<times> obj) list res" where
  "countersign_imports E key verified = mapE (countersign_import E key) verified"

definition upstream_key_id :: "str \<Rightarrow> str res" where
  "upstream_key_id pinned = bindE (parse_public_key pinned) (\<lambda>public. Inr (take 16 (sha256_hex public)))"

definition embedded_key_ok :: "obj \<Rightarrow> str \<Rightarrow> unit res" where
  "embedded_key_ok bundle upstream_key =
    (case get_or bundle ''public_key'' JNull of
       JNull \<Rightarrow> Inr ()
     | JStr embedded \<Rightarrow>
        bindE (parse_public_key embedded) (\<lambda>a.
        bindE (parse_public_key upstream_key) (\<lambda>b.
          guardE (a = b) (ValueError ''bundle public_key does not match the pinned upstream key'')))
     | _ \<Rightarrow> Inl (ValueError ''bundle public_key does not match the pinned upstream key''))"

text \<open>Everything before the write transaction: the snapshot offered and the verified records.\<close>

definition verify_bundle :: "'k ed25519 \<Rightarrow> str \<Rightarrow> json \<Rightarrow> (obj \<times> obj list) res" where
  "verify_bundle E upstream_key v =
    (case v of
       JObj bundle \<Rightarrow>
        bindE (guardE (keys_of bundle \<subseteq> {lit ''schema_version'', lit ''records'', lit ''snapshot'', lit ''public_key''})
                 (ValueError ''bundle contains unsupported fields'')) (\<lambda>_.
        bindE (case get_int bundle (lit ''schema_version'') of
                 Some n \<Rightarrow> (if n \<in> {1, 2} then Inr n else Inl (ValueError ''bundle schema_version must be 1 or 2''))
               | None \<Rightarrow> Inl (ValueError ''bundle schema_version must be 1 or 2'')) (\<lambda>schema.
        bindE (guardE (\<not> (schema = 2 \<and> lit ''public_key'' \<notin> keys_of bundle))
                 (ValueError ''bundle schema 2 requires public_key'')) (\<lambda>_.
        bindE (validate_snapshot (get_or bundle ''snapshot'' JNull)) (\<lambda>snapshot.
        bindE (guardE (verify_signed E upstream_key snapshot)
                 (ValueError ''bundle snapshot does not verify against the upstream key'')) (\<lambda>_.
        bindE (embedded_key_ok bundle upstream_key) (\<lambda>_.
        case get_or bundle ''records'' JNull of
          JArr records \<Rightarrow>
            bindE (verify_records E upstream_key schema records GENESIS) (\<lambda>(verified, hashes, head).
            bindE (guardE (map_of snapshot (lit ''log_size'') = Some (JInt (int (length verified))) \<and>
                           map_of snapshot (lit ''head'') = Some (JStr head))
                     (ValueError ''bundle records do not match the snapshot log head or size'')) (\<lambda>_.
            bindE (bundle_merkle_root hashes) (\<lambda>mroot.
            bindE (guardE (map_of snapshot (lit ''merkle_root'') = Some (JStr mroot))
                     (ValueError ''bundle records do not match the snapshot Merkle root'')) (\<lambda>_.
              Inr (snapshot, verified)))))
        | _ \<Rightarrow> Inl (ValueError ''bundle is missing records'')))))))
     | _ \<Rightarrow> Inl (ValueError ''bundle contains unsupported fields''))"

definition offer_of :: "str \<Rightarrow> str \<Rightarrow> obj \<Rightarrow> upstream_high_water" where
  "offer_of kid now snapshot =
    \<lparr>hw_key_id = kid,
     hw_version = (case get_int snapshot (lit ''version'') of Some i \<Rightarrow> i | None \<Rightarrow> 0),
     hw_log_size = (case get_int snapshot (lit ''log_size'') of Some i \<Rightarrow> i | None \<Rightarrow> 0),
     hw_head = field_text snapshot ''head'', hw_merkle_root = field_text snapshot ''merkle_root'',
     hw_updated_at = now\<rparr>"

text \<open>\<open>except UpstreamHighWaterConflict\<close>: the conflict becomes the error class of its diagnostic.\<close>

definition import_refusal :: "exc \<Rightarrow> exc" where
  "import_refusal e =
    (case e of
       UpstreamHighWaterConflict diagnostic \<Rightarrow>
        (if diagnostic = ''import_upstream_inconsistent'' then UpstreamInconsistentError else UpstreamRollbackError)
     | _ \<Rightarrow> e)"

definition import_bundle ::
  "'k ed25519 \<Rightarrow> 'k \<Rightarrow> str \<Rightarrow> bool \<Rightarrow> rat \<Rightarrow> str \<Rightarrow> json \<Rightarrow> store \<Rightarrow> nat res \<times> store" where
  "import_bundle E key upstream_key accept_older instant now bundle s =
    (case bindE (verify_bundle E upstream_key bundle) (\<lambda>(snapshot, verified).
          bindE (upstream_key_id upstream_key) (\<lambda>kid.
          bindE (countersign_imports E key verified) (\<lambda>imports. Inr (offer_of kid now snapshot, imports)))) of
       Inl e \<Rightarrow> (Inl e, s)
     | Inr (advance, imports) \<Rightarrow>
        (case append_upstream_import instant imports now advance accept_older s of
           (Inr r, s') \<Rightarrow> (Inr (r_imported r), s')
         | (Inl e, s') \<Rightarrow> (Inl (import_refusal e), s')))"



section \<open>What verification establishes\<close>

definition chain_from :: "bytes list \<Rightarrow> obj list \<Rightarrow> bytes list" where
  "chain_from ls rs = foldl (\<lambda>ls r. ls @ [leaf_hash (head_of ls) r]) ls rs"

lemma chain_from_simps [simp]:
  "chain_from ls [] = ls"
  "chain_from ls (r # rs) = chain_from (ls @ [leaf_hash (head_of ls) r]) rs"
  by (simp_all add: chain_from_def)

lemma chain_from_extends: "\<exists>hs. chain_from ls rs = ls @ hs"
  by (induction rs arbitrary: ls) (auto, metis append_assoc)

lemma chain_from_suffix: "\<exists>hs. chain_from (ls @ [b]) rs = ls @ b # hs"
  using chain_from_extends [of "ls @ [b]" rs] by simp

lemma leaves_chain: "leaves es = chain_from [] (map fst es)"
  by (simp add: leaves_def chain_from_def foldl_map)

lemma bundle_merkle_root_eq:
  "bundle_merkle_root ls = Inr (if ls = [] then GENESIS else hex (root_of ls))"
  by (simp add: bundle_merkle_root_def merkle_reduce_root at0_def)

text \<open>A record the loop accepts: valid, signed by the upstream and allowed by the bundle schema.\<close>

definition record_accepted :: "'k ed25519 \<Rightarrow> str \<Rightarrow> int \<Rightarrow> obj \<Rightarrow> bool" where
  "record_accepted E pinned schema r \<longleftrightarrow>
    validate_record (JObj r) = Inr r \<and> verify_signed E pinned r \<and>
    \<not> (schema = 1 \<and> py_eq_int (get_or r ''hash_version'' JNull) 2)"

lemma ascii_encode_head_of:
  assumes "\<forall>b \<in> set ls. length b = 32"
  shows "ascii_encode (head_of ls) = Inr (map byte_of (head_of ls))"
proof -
  have "c < 128" if "c \<in> set (head_of ls)" for c
    using that hex_chars [of c "last ls"] by (auto simp: head_of_def GENESIS_def split: if_splits)
  then show ?thesis by (simp add: ascii_encode_def)
qed

lemma leaf_hash_step:
  "canonical_bytes r = Inr m \<Longrightarrow>
    sha256_hex (map byte_of (head_of ls) @ m) = hex (leaf_hash (head_of ls) r)"
  by (simp add: leaf_hash_def chain_bytes_def sha256_hex_def)

lemma leaf_hash_eq:
  "canonical_bytes r = Inr m \<Longrightarrow> sha256 (map byte_of (head_of ls) @ m) = leaf_hash (head_of ls) r"
  by (simp add: leaf_hash_def chain_bytes_def)

lemma head_of_snoc: "head_of (ls @ [b]) = hex b"
  by (simp add: head_of_def)

lemma verify_signed_canonical: "verify_signed E pinned r \<Longrightarrow> \<exists>m. canonical_bytes r = Inr m"
  by (erule verify_signedD) blast

lemma verify_records_from:
  assumes "\<forall>b \<in> set ls. length b = 32"
  shows "verify_records E pinned schema records (head_of ls) = Inr (verified, hashes, head) \<longleftrightarrow>
    records = map JObj verified \<and> (\<forall>r \<in> set verified. record_accepted E pinned schema r) \<and>
    ls @ hashes = chain_from ls verified \<and> head = head_of (ls @ hashes)"
  using assms
proof (induction records arbitrary: ls verified hashes)
  case Nil
  then show ?case by auto
next
  case (Cons v records)
  show ?case
  proof (cases "\<exists>r. v = JObj r \<and> record_accepted E pinned schema r")
    case False
    have "verify_records E pinned schema (v # records) (head_of ls) \<noteq> Inr (verified, hashes, head)"
    proof
      assume "verify_records E pinned schema (v # records) (head_of ls) = Inr (verified, hashes, head)"
      then obtain r where "validate_record v = Inr r" "verify_signed E pinned r"
        "\<not> (schema = 1 \<and> py_eq_int (get_or r ''hash_version'' JNull) 2)"
        by (simp only: verify_records.simps bindE_Inr_iff guardE_Inr_iff) blast
      then show False using False validate_recordD(1) [of v r] by (auto simp: record_accepted_def)
    qed
    then show ?thesis using False by (auto simp: Cons_eq_map_conv)
  next
    case True
    then obtain r where v: "v = JObj r" and r: "record_accepted E pinned schema r" by blast
    obtain m where m: "canonical_bytes r = Inr m"
      using r verify_signed_canonical [of E pinned r] unfolding record_accepted_def by blast
    let ?leaf = "leaf_hash (head_of ls) r"
    have ls': "\<forall>b \<in> set (ls @ [?leaf]). length b = 32" using Cons.prems by (auto simp: leaf_hash_def)
    have step: "verify_records E pinned schema (v # records) (head_of ls) =
        bindE (verify_records E pinned schema records (head_of (ls @ [?leaf]))) (\<lambda>(verified, hashes, head).
          Inr (r # verified, ?leaf # hashes, head))"
      using r
      by (simp add: v record_accepted_def m ascii_encode_head_of [OF Cons.prems] leaf_hash_step [OF m]
          head_of_snoc Let_def leaf_hash_eq [OF m])
    have "verify_records E pinned schema (v # records) (head_of ls) = Inr (verified, hashes, head) \<longleftrightarrow>
        (\<exists>verified' hashes'. verified = r # verified' \<and> hashes = ?leaf # hashes' \<and>
          verify_records E pinned schema records (head_of (ls @ [?leaf])) = Inr (verified', hashes', head))"
      unfolding step bindE_Inr_iff by auto
    then show ?thesis
      unfolding Cons.IH [OF ls'] using r chain_from_suffix [of ls ?leaf "tl verified"]
      by (auto simp: v Cons_eq_map_conv)
  qed
qed

lemma verify_records_Inr:
  "verify_records E pinned schema records GENESIS = Inr (verified, hashes, head) \<longleftrightarrow>
    records = map JObj verified \<and> (\<forall>r \<in> set verified. record_accepted E pinned schema r) \<and>
    hashes = chain_from [] verified \<and> head = head_of hashes"
  using verify_records_from [of "[]" E pinned schema records verified hashes head] by (simp add: head_of_def)


lemma validate_snapshotD:
  assumes "validate_snapshot v = Inr snapshot"
  obtains mroot head size version created where
    "v = JObj snapshot"
    "map_of snapshot (lit ''merkle_root'') = Some (JStr mroot)" "HEX256 mroot"
    "map_of snapshot (lit ''head'') = Some (JStr head)" "HEX256 head"
    "map_of snapshot (lit ''log_size'') = Some (JInt size)"
    "map_of snapshot (lit ''version'') = Some (JInt version)"
    "0 \<le> size" "size \<le> version" "version \<le> MAX_SAFE_INTEGER"
    "map_of snapshot (lit ''created_at'') = Some (JStr created)" "TIMESTAMP created"
  using assms by (auto simp: validate_snapshot_def bindE_Inr_iff split: json.splits option.splits)

text \<open>What a verified bundle commits to.\<close>

definition bundle_commits :: "obj \<Rightarrow> obj list \<Rightarrow> bool" where
  "bundle_commits snapshot rs \<longleftrightarrow>
    (let ls = chain_from [] rs in
     map_of snapshot (lit ''log_size'') = Some (JInt (int (length rs))) \<and>
     map_of snapshot (lit ''head'') = Some (JStr (head_of ls)) \<and>
     map_of snapshot (lit ''merkle_root'') = Some (JStr (if ls = [] then GENESIS else hex (root_of ls))))"

lemma verify_bundleD:
  assumes "verify_bundle E pinned v = Inr (snapshot, verified)"
  obtains offered schema where
    "v = JObj offered"
    "map_of offered (lit ''snapshot'') = Some (JObj snapshot)"
    "map_of offered (lit ''records'') = Some (JArr (map JObj verified))"
    "validate_snapshot (JObj snapshot) = Inr snapshot"
    "verify_signed E pinned snapshot"
    "\<forall>r \<in> set verified. record_accepted E pinned schema r"
    "bundle_commits snapshot verified"
proof -
  obtain offered where ob: "v = JObj offered" using assms by (cases v) (simp_all add: verify_bundle_def)
  obtain schema records hashes head where
    s: "validate_snapshot (get_or offered ''snapshot'' JNull) = Inr snapshot" "verify_signed E pinned snapshot"
    and r: "get_or offered ''records'' JNull = JArr records"
      "verify_records E pinned schema records GENESIS = Inr (verified, hashes, head)"
    and c: "map_of snapshot (lit ''log_size'') = Some (JInt (int (length verified)))"
      "map_of snapshot (lit ''head'') = Some (JStr head)"
      "map_of snapshot (lit ''merkle_root'') = Some (JStr (if hashes = [] then GENESIS else hex (root_of hashes)))"
    using assms
    by (cases "get_or offered ''records'' JNull")
      (auto simp: ob verify_bundle_def bindE_Inr_iff bundle_merkle_root_eq)
  from s(1) have s1: "get_or offered ''snapshot'' JNull = JObj snapshot" by (elim validate_snapshotD) simp
  note v = r(2) [unfolded verify_records_Inr]
  show thesis
  proof (rule that [of offered schema])
    show "map_of offered (lit ''snapshot'') = Some (JObj snapshot)" using get_or_Some [OF s1] by simp
    show "map_of offered (lit ''records'') = Some (JArr (map JObj verified))" using get_or_Some [OF r(1)] v by simp
    show "bundle_commits snapshot verified" using c v by (simp add: bundle_commits_def)
  qed (use ob s s1 v in \<open>simp_all\<close>)
qed



section \<open>The countersigned record\<close>

lemma import_signature_append:
  "import_signature (es @ [e]) =
    (if import_signature es = JNull then import_signature [e] else import_signature es)"
  by (induction es) (auto simp: import_signature_step simp del: import_signature.simps(2) split: option.splits)

definition prior_endorsements :: "obj \<Rightarrow> json list" where
  "prior_endorsements r = (case map_of r (lit ''endorsements'') of Some (JArr es) \<Rightarrow> es | _ \<Rightarrow> [])"

definition import_endorsement :: "str \<Rightarrow> obj \<Rightarrow> json" where
  "import_endorsement endorser r = JObj [(lit ''endorser'', JStr endorser), (lit ''sig'', get_or r ''sig'' JNull)]"

lemma countersign_body_eq:
  "countersign_body endorser r =
    AList.update (lit ''endorsements'') (JArr (prior_endorsements r @ [import_endorsement endorser r]))
      (without (lit ''sig'') r)"
  by (auto simp: countersign_body_def prior_endorsements_def import_endorsement_def Let_def
      split: option.splits json.splits)

lemma countersigned_fields:
  assumes "sign_record E key (countersign_body endorser r) = Inr out"
  shows "map_of out (lit ''endorsements'') = Some (JArr (prior_endorsements r @ [import_endorsement endorser r]))"
    and "x \<notin> {''sig'', ''endorsements''} \<Longrightarrow> map_of out (lit x) = map_of r (lit x)"
  using assms by (auto simp: sign_record_envelope countersign_body_eq update_conv')

text \<open>
  The fingerprint the importer records uses the upstream's own signature; the fingerprint an
  integrity check recomputes uses the first import endorsement that the stored record carries.
\<close>

definition fingerprint_payload :: "obj \<Rightarrow> json \<Rightarrow> bytes res" where
  "fingerprint_payload r signature = utf8_encode (json_dumps False (JArr (fingerprint_fields r signature)))"

definition checked_signature :: "obj \<Rightarrow> json" where
  "checked_signature r =
    (if import_signature (prior_endorsements r) = JNull then own_signature r
     else import_signature (prior_endorsements r))"

lemma import_signature_own:
  assumes "map_of r (lit ''sig'') = Some (JObj sig)" "map_of sig (lit ''signature'') = Some (JStr g)"
  shows "import_signature [import_endorsement (lit ''upstream-import'') r] = JStr g" "own_signature r = JStr g"
  using assms by (simp_all add: import_endorsement_def own_signature_def)

lemma countersigned_fingerprint:
  assumes v: "validate_record (JObj r) = Inr r" and sg: "verify_signed E pinned r"
    and c: "countersign_import E key r = Inr (f, out)"
    and n: "nonempty_text (checked_signature r)"
  shows "\<exists>p. fingerprint_payload r (own_signature r) = Inr p \<and> f = sha256_hex p"
    and "import_fingerprint (JObj out) =
      bindE (fingerprint_payload r (checked_signature r)) (\<lambda>p. Inr (Some (sha256_hex p)))"
proof -
  from c obtain p where p: "fingerprint_payload r (own_signature r) = Inr p" "f = sha256_hex p"
    and s: "sign_record E key (countersign_body (lit ''upstream-import'') r) = Inr out"
    by (auto simp: countersign_import_def bindE_Inr_iff fingerprint_payload_def simp del: json_dumps.simps)
  then show "\<exists>p. fingerprint_payload r (own_signature r) = Inr p \<and> f = sha256_hex p" by blast
  obtain sig g where sig: "map_of r (lit ''sig'') = Some (JObj sig)" "map_of sig (lit ''signature'') = Some (JStr g)"
    using sg by (elim verify_signedD) blast
  note fields = countersigned_fields [OF s]
  have "import_signature (prior_endorsements r @ [import_endorsement (lit ''upstream-import'') r]) = checked_signature r"
    by (simp only: import_signature_append import_signature_own [OF sig] checked_signature_def)
  moreover have "list_all nonempty_text (fingerprint_fields r (checked_signature r))"
    using validate_recordD(3-6) [OF v] validated_fields_nonempty n
    by (auto simp: fingerprint_fields_def nonempty_text_def)
  ultimately show "import_fingerprint (JObj out) =
      bindE (fingerprint_payload r (checked_signature r)) (\<lambda>p. Inr (Some (sha256_hex p)))"
    by (simp add: import_fingerprint_def fields fingerprint_payload_def fingerprint_fields_def
        del: json_dumps.simps import_signature.simps)
qed


lemma dict_ok_update:
  assumes "dict_ok (JObj d)" "dict_ok v" "str_ok k"
  shows "dict_ok (JObj (AList.update k v d))"
proof -
  have "set (AList.update k v d) \<subseteq> insert (k, v) (set d)" by (induction d) auto
  then show ?thesis using assms by (auto simp: distinct_update)
qed

text \<open>What \<open>canonical_document\<close> accepts of a dictionary, kept by an update and a deletion.\<close>

definition document_ok :: "nat \<Rightarrow> json \<Rightarrow> bool" where
  "document_ok n v \<longleftrightarrow> dict_ok v \<and> ccj_leaves v \<and> json_depth v \<le> n"

lemma document_ok_update:
  assumes "document_ok (Suc n) (JObj d)" "document_ok n v"
  shows "document_ok (Suc n) (JObj (AList.update (lit k) v d))"
proof -
  have "set (AList.update (lit k) v d) \<subseteq> insert (lit k, v) (set d)" by (induction d) auto
  moreover have "clean (lit k)" by simp
  ultimately show ?thesis
    using assms dict_ok_update [of d v "lit k"]
    unfolding document_ok_def ccj_leaves_JObj json_depth_JObj_le clean_def by fastforce
qed

lemma document_ok_without: "document_ok n (JObj d) \<Longrightarrow> document_ok n (JObj (without k d))"
  using dict_ok_without [of d k] by (auto simp: document_ok_def ccj_leaves_JObj json_depth_JObj_le without_def)

lemma document_ok_canonical: "document_ok MAX_JSON_DEPTH v \<Longrightarrow> \<exists>b. canonical_document v = Inr b"
  unfolding document_ok_def using canonical_document_defined by blast

lemma get_or_ok: "dict_ok (JObj r) \<Longrightarrow> dict_ok (get_or r x JNull)"
  by (auto dest!: map_of_SomeD split: option.split)

lemma prior_endorsements_ok: "dict_ok (JObj r) \<Longrightarrow> e \<in> set (prior_endorsements r) \<Longrightarrow> dict_ok e"
  by (auto simp: prior_endorsements_def dest!: map_of_SomeD split: option.splits json.splits)

lemma import_endorsement_ok: "dict_ok (JObj r) \<Longrightarrow> str_ok x \<Longrightarrow> dict_ok (import_endorsement x r)"
  using get_or_ok [of r "''sig''"] by (simp add: import_endorsement_def str_ok_lit)

lemma countersign_body_ok: "dict_ok (JObj r) \<Longrightarrow> str_ok x \<Longrightarrow> dict_ok (JObj (countersign_body x r))"
  unfolding countersign_body_eq
  by (intro dict_ok_update dict_ok_without str_ok_lit)
    (auto simp: import_endorsement_ok prior_endorsements_ok simp del: dict_ok_JObj)

lemma signed_value_ok:
  assumes "dict_ok (JObj b)" "lit ''sig'' \<notin> keys_of b" "sign_record E key b = Inr out" "timestamp t"
  shows "value_ok out t"
proof -
  from assms(3) obtain m where m: "canonical_bytes b = Inr m"
    and out: "out = AList.update (lit ''sig'') (sig_envelope E key m) (without (lit ''sig'') b)"
    by (auto simp: sign_record_envelope)
  note b = without_absent [OF assms(2)]
  have "ccj_leaves (JObj b)" using m assms(1) by (auto simp: canonical_bytes_def b canonical_document_Inr)
  then have "ccj_leaves (JObj out)"
    using sig_envelope_ccj [of E key m] clean_lit [of "''sig''"]
    by (auto simp: out ccj_leaves_JObj set_update_without clean_def)
  moreover have "dict_ok (JObj out)"
    unfolding out b using assms(1) sig_envelope_ccj(2) str_ok_lit by (rule dict_ok_update)
  ultimately show ?thesis using assms(4) ccj_leaves_plain by (simp only: value_ok_def simp_thms)
qed

lemma countersigned_value_ok:
  assumes "dict_ok (JObj r)" "sign_record E key (countersign_body x r) = Inr out" "timestamp t"
    "str_ok x"
  shows "value_ok out t"
  using countersign_body_ok [OF assms(1,4)] _ assms(2,3)
  by (rule signed_value_ok) (auto simp: countersign_body_eq)



section \<open>An import extends the log by countersigned upstream records\<close>

text \<open>A record that no registry has imported before it reached the upstream.\<close>

definition first_hand :: "obj \<Rightarrow> bool" where
  "first_hand r \<longleftrightarrow> import_signature (prior_endorsements r) = JNull"

definition countersigned_from :: "'k ed25519 \<Rightarrow> 'k \<Rightarrow> obj list \<Rightarrow> obj \<Rightarrow> bool" where
  "countersigned_from E key verified out \<longleftrightarrow>
    (\<exists>r \<in> set verified. sign_record E key (countersign_body (lit ''upstream-import'') r) = Inr out)"

lemma own_signature_nonempty: "verify_signed E pinned r \<Longrightarrow> nonempty_text (own_signature r)"
proof (erule verify_signedD)
  fix public canonical sig signature
  assume "map_of r (lit ''sig'') = Some (JObj sig)" "map_of sig (lit ''signature'') = Some (JStr (b64encode signature))"
    "length signature = (64 :: nat)"
  moreover from this(3) have "b64encode signature \<noteq> []"
    by (metis b64decode_b64encode b64encode_inject b64encode.simps(1) list.size(3) zero_neq_numeral)
  ultimately show ?thesis by (simp add: own_signature_def nonempty_text_def)
qed

lemma first_hand_fingerprint:
  assumes "record_accepted E pinned schema r" "first_hand r" "countersign_import E key r = Inr (f, out)"
  shows "import_fingerprint (JObj out) = Inr (Some f)"
proof -
  have r: "validate_record (JObj r) = Inr r" "verify_signed E pinned r" using assms(1) by (simp_all add: record_accepted_def)
  have own: "checked_signature r = own_signature r" using assms(2) by (simp add: checked_signature_def first_hand_def)
  have "nonempty_text (checked_signature r)" using own_signature_nonempty [OF r(2)] own by simp
  note c = countersigned_fingerprint [OF r assms(3) this]
  from c(1) c(2) show ?thesis unfolding own by auto
qed

lemma countersign_imports_batch:
  assumes "countersign_imports E key verified = Inr batch" "\<forall>r \<in> set verified. record_accepted E pinned schema r"
    "\<forall>r \<in> set verified. dict_ok (JObj r) \<and> first_hand r" "timestamp t"
  shows "length batch = length verified \<and> batch_ok t batch \<and>
    (\<forall>(f, out) \<in> set batch. countersigned_from E key verified out)"
  using assms
proof (induction verified arbitrary: batch)
  case (Cons r verified)
  from Cons.prems(1) obtain f out rest where c: "countersign_import E key r = Inr (f, out)"
    and rest: "countersign_imports E key verified = Inr rest" and i: "batch = (f, out) # rest"
    by (auto simp: countersign_imports_def bindE_Inr_iff)
  have s: "sign_record E key (countersign_body (lit ''upstream-import'') r) = Inr out"
    using c by (auto simp: countersign_import_def bindE_Inr_iff simp del: json_dumps.simps)
  have "value_ok out t" using countersigned_value_ok [OF _ s Cons.prems(4) str_ok_lit] Cons.prems(3) by simp
  moreover have "import_fingerprint (JObj out) = Inr (Some f)"
    using first_hand_fingerprint [OF _ _ c] Cons.prems(2,3) by auto
  ultimately show ?case
    using Cons.IH [OF rest] Cons.prems(2-4) s by (auto simp: i batch_ok_def countersigned_from_def)
qed (simp add: countersign_imports_def batch_ok_def)

lemma offer_of_ok:
  assumes "validate_snapshot v = Inr snapshot" "upstream_key_id pinned = Inr kid" "timestamp now"
  shows "high_water_ok (offer_of kid now snapshot)"
proof -
  have "length kid = 16" "\<forall>c \<in> set kid. c \<in> set (lit ''0123456789abcdef'')"
    using assms(2) by (auto simp: upstream_key_id_def bindE_Inr_iff hex_alphabet sha256_hex_def hex_is_hex dest!: in_set_takeD)
  with assms(1,3) show ?thesis
    by (elim validate_snapshotD) (simp add: high_water_ok_def offer_of_def field_text_def get_int_def get_str_def hex256_HEX256)
qed


lemma verified_records_ok:
  assumes "verify_bundle E pinned v = Inr (snapshot, verified)" "dict_ok v"
  shows "\<forall>r \<in> set verified. dict_ok (JObj r)"
proof (rule verify_bundleD [OF assms(1)])
  fix offered
  assume "v = JObj offered" and "map_of offered (lit ''records'') = Some (JArr (map JObj verified))"
  then have "dict_ok (JArr (map JObj verified))" using assms(2) get_or_ok [of offered "''records''"] by (simp del: dict_ok_JArr dict_ok_JObj)
  then show ?thesis by (simp del: dict_ok_JObj)
qed

lemma import_bundle_cases:
  assumes "import_bundle E key pinned older instant now v s = (result, s')"
  obtains (refused) e where "result = Inl e" "s' = s"
  | (written) snapshot verified kid batch where
      "verify_bundle E pinned v = Inr (snapshot, verified)" "upstream_key_id pinned = Inr kid"
      "countersign_imports E key verified = Inr batch"
      "s' = snd (append_upstream_import instant batch now (offer_of kid now snapshot) older s)"
      "result = (case fst (append_upstream_import instant batch now (offer_of kid now snapshot) older s) of
         Inr r \<Rightarrow> Inr (r_imported r) | Inl e \<Rightarrow> Inl (import_refusal e))"
proof (cases "bindE (verify_bundle E pinned v) (\<lambda>(snapshot, verified).
          bindE (upstream_key_id pinned) (\<lambda>kid.
          bindE (countersign_imports E key verified) (\<lambda>batch. Inr (offer_of kid now snapshot, batch))))")
  case (Inl e)
  then show thesis using assms refused [of e] by (simp add: import_bundle_def)
next
  case (Inr x)
  then obtain snapshot verified kid batch where
    b: "verify_bundle E pinned v = Inr (snapshot, verified)" "upstream_key_id pinned = Inr kid"
      "countersign_imports E key verified = Inr batch"
    by (auto simp: bindE_Inr_iff)
  then show thesis
    using assms written [OF b] by (auto simp: import_bundle_def split: prod.splits sum.splits)
qed

lemma import_bundle_extends:
  assumes "import_bundle E key pinned older instant now v s = (result, s')"
    "verify_bundle E pinned v = Inr (snapshot, verified)" "dict_ok v" "\<forall>r \<in> set verified. first_hand r"
    "store_ok s es" "length es + length verified < 2 ^ 63" "timestamp now"
  shows "\<exists>new. store_ok s' (es @ new) \<and>
    (case result of Inr n \<Rightarrow> n = length new | Inl e \<Rightarrow> new = []) \<and>
    (\<forall>(out, t) \<in> set new. t = now \<and> countersigned_from E key verified out)"
  using assms(1)
proof (cases rule: import_bundle_cases)
  case refused
  then show ?thesis using assms(5) by (intro exI [of _ "[]"]) simp
next
  case (written snapshot' verified' kid batch)
  note w = written(3-5)
  have eq: "snapshot' = snapshot" "verified' = verified" using written(1) assms(2) by simp_all
  obtain schema where sn: "validate_snapshot (JObj snapshot) = Inr snapshot"
    and acc: "\<forall>r \<in> set verified. record_accepted E pinned schema r"
    by (rule verify_bundleD [OF assms(2)]) blast
  have b: "length batch = length verified" "batch_ok now batch"
      "\<forall>(f, out) \<in> set batch. countersigned_from E key verified out"
    using countersign_imports_batch [OF w(1) [unfolded eq] acc _ assms(7)] verified_records_ok [OF assms(2,3)] assms(4)
    by blast+
  from append_upstream_import_extends [OF assms(5) _ b(2) offer_of_ok [OF sn written(2) assms(7)], of instant older]
  obtain new where n: "store_ok s' (es @ new)" "set new \<subseteq> imported_entries now batch"
    "case fst (append_upstream_import instant batch now (offer_of kid now snapshot) older s) of
       Inr r \<Rightarrow> r_imported r = length new | Inl e \<Rightarrow> new = []"
    using assms(6) b(1) w(2) eq(1) by auto
  have "case result of Inr n \<Rightarrow> n = length new | Inl e \<Rightarrow> new = []"
    using n(3) w(3) eq(1) by (simp split: sum.splits)
  moreover have "\<forall>(out, t) \<in> set new. t = now \<and> countersigned_from E key verified out"
    using n(2) b(3) by (fastforce simp: imported_entries_def)
  ultimately show ?thesis using n(1) by blast
qed



section \<open>A record imported twice on its way\<close>

lemma get_or_ccj: "ccj_leaves (JObj r) \<Longrightarrow> ccj_leaves (get_or r x JNull)"
  by (auto simp: ccj_leaves_JObj dest!: map_of_SomeD split: option.split)

lemma prior_endorsements_ccj: "ccj_leaves (JObj r) \<Longrightarrow> e \<in> set (prior_endorsements r) \<Longrightarrow> ccj_leaves e"
  using get_or_ccj [of r "''endorsements''"]
  by (auto simp: prior_endorsements_def ccj_leaves_JArr split: option.splits json.splits)

lemma member_ok:
  "map_of d k = Some v \<Longrightarrow> dict_ok (JObj d) \<Longrightarrow> dict_ok v"
  "map_of d k = Some v \<Longrightarrow> ccj_leaves (JObj d) \<Longrightarrow> ccj_leaves v"
  by (auto simp: ccj_leaves_JObj dest!: map_of_SomeD)

lemma endorsement_signature_ok:
  assumes "endorsement_signature e = Some g"
  shows "dict_ok e \<Longrightarrow> dict_ok (JStr g)" "ccj_leaves e \<Longrightarrow> ccj_leaves (JStr g)"
proof -
  obtain d sig where e: "e = JObj d" "map_of d (lit ''sig'') = Some (JObj sig)"
    "map_of sig (lit ''signature'') = Some (JStr g)"
    using assms by (auto simp: endorsement_signature_def split: json.splits option.splits if_splits)
  show "dict_ok e \<Longrightarrow> dict_ok (JStr g)" using member_ok(1) [OF e(2)] member_ok(1) [OF e(3)] e(1) by blast
  show "ccj_leaves e \<Longrightarrow> ccj_leaves (JStr g)" using member_ok(2) [OF e(2)] member_ok(2) [OF e(3)] e(1) by blast
qed

lemma import_signature_ok:
  assumes "import_signature es = JStr g"
  shows "\<forall>e \<in> set es. dict_ok e \<Longrightarrow> dict_ok (JStr g)" "\<forall>e \<in> set es. ccj_leaves e \<Longrightarrow> ccj_leaves (JStr g)"
  using assms endorsement_signature_ok
  by (induction es) (auto simp: import_signature_step simp del: import_signature.simps(2) dict_ok.simps split: option.splits)

lemma own_signature_ok:
  assumes "dict_ok (JObj r)" "ccj_leaves (JObj r)"
  shows "dict_ok (own_signature r)" "ccj_leaves (own_signature r)"
proof -
  have "own_signature r = JNull \<or> (\<exists>sig. map_of r (lit ''sig'') = Some (JObj sig) \<and>
      map_of sig (lit ''signature'') = Some (own_signature r))"
    by (auto simp: own_signature_def split: option.splits json.splits)
  then show "dict_ok (own_signature r)" "ccj_leaves (own_signature r)"
    using member_ok(1) [OF _ assms(1)] member_ok(2) [OF _ assms(2)] member_ok by (metis dict_ok.simps(1) ccj_leaves.simps(1))+
qed

lemma fingerprint_fields_ok:
  assumes "dict_ok (JObj r)" "ccj_leaves (JObj r)" "dict_ok (JStr s)" "ccj_leaves (JStr s)"
  shows "dict_ok (JArr (fingerprint_fields r (JStr s)))" "ccj_leaves (JArr (fingerprint_fields r (JStr s)))"
    "\<forall>c \<in> set (json_dumps False (JArr (fingerprint_fields r (JStr s)))). scalar c"
proof -
  show ok: "dict_ok (JArr (fingerprint_fields r (JStr s)))" "ccj_leaves (JArr (fingerprint_fields r (JStr s)))"
    using assms(3,4) get_or_ok [OF assms(1)] get_or_ccj [OF assms(2)]
    by (simp_all only: fingerprint_fields_def dict_ok_JArr ccj_leaves_JArr list.set) blast+
  show "\<forall>c \<in> set (json_dumps False (JArr (fingerprint_fields r (JStr s)))). scalar c"
    using dumps_scalar [OF ok] by blast
qed

lemma fingerprint_payload_defined:
  assumes "dict_ok (JObj r)" "ccj_leaves (JObj r)" "dict_ok (JStr s)" "ccj_leaves (JStr s)"
  shows "\<exists>p. fingerprint_payload r (JStr s) = Inr p"
  unfolding fingerprint_payload_def using utf8_encode_Inr [OF fingerprint_fields_ok(3) [OF assms]] by blast

lemma fingerprint_payload_inj:
  assumes r: "dict_ok (JObj r)" "ccj_leaves (JObj r)"
    and ab: "dict_ok (JStr a)" "ccj_leaves (JStr a)" "dict_ok (JStr b)" "ccj_leaves (JStr b)"
    and p: "fingerprint_payload r (JStr a) = Inr p" "fingerprint_payload r (JStr b) = Inr p"
  shows "a = b"
proof -
  let ?v = "\<lambda>s. JArr (fingerprint_fields r (JStr s))"
  note ok = fingerprint_fields_ok [OF r]
  have "json_dumps False (?v a) = json_dumps False (?v b)"
    using utf8_encode_inj [OF ok(3) [OF ab(1,2)] ok(3) [OF ab(3,4)]] p by (simp only: fingerprint_payload_def)
  moreover have "json_loads (json_dumps False (?v s)) = Inr (?v s)" if "dict_ok (JStr s)" "ccj_leaves (JStr s)" for s
    by (rule json_loads_dumps_unsorted [OF ok(1) [OF that] ccj_leaves_plain [OF ok(2) [OF that]]])
  ultimately have "?v a = ?v b" using ab by (metis sum.inject(2))
  then show ?thesis by (simp add: fingerprint_fields_def)
qed


lemma countersigned_elsewhere:
  assumes "record_accepted E pinned schema r" "dict_ok (JObj r)" "countersign_import E key r = Inr (f, out)"
    and g: "import_signature (prior_endorsements r) = JStr g" "g \<noteq> []" "own_signature r \<noteq> JStr g"
  obtains p q where "fingerprint_payload r (own_signature r) = Inr p" "fingerprint_payload r (JStr g) = Inr q" "p \<noteq> q"
    "f = sha256_hex p" "import_fingerprint (JObj out) = Inr (Some (sha256_hex q))"
proof -
  have r: "validate_record (JObj r) = Inr r" "verify_signed E pinned r" using assms(1) by (simp_all add: record_accepted_def)
  have ck: "checked_signature r = JStr g" using g(1) by (simp add: checked_signature_def)
  have "nonempty_text (checked_signature r)" using g(2) by (simp add: ck nonempty_text_def)
  note c = countersigned_fingerprint [OF r assms(3) this, unfolded ck]
  obtain p where p: "fingerprint_payload r (own_signature r) = Inr p" "f = sha256_hex p" using c(1) by blast
  have ccj: "ccj_leaves (JObj r)" using validate_recordD(8) [OF r(1)] assms(2) by (auto simp: canonical_document_Inr)
  obtain h where h: "own_signature r = JStr h" using own_signature_nonempty [OF r(2)]
    by (auto simp: nonempty_text_def split: json.splits)
  have hok: "dict_ok (JStr h)" "ccj_leaves (JStr h)" using own_signature_ok [OF assms(2) ccj] h by metis+
  have gok: "dict_ok (JStr g)" "ccj_leaves (JStr g)"
    using import_signature_ok [of "prior_endorsements r"] prior_endorsements_ok [OF assms(2)]
      prior_endorsements_ccj [OF ccj] g(1) by metis+
  obtain q where q: "fingerprint_payload r (JStr g) = Inr q" using fingerprint_payload_defined [OF assms(2) ccj gok] by blast
  have "p \<noteq> q" using fingerprint_payload_inj [OF assms(2) ccj hok gok] p(1) q g(3) h by auto
  with p c(2) q that show thesis by simp
qed

end
