(* ===== verification/Cursor.thy ===== *)
theory Cursor
  imports Bundle
begin

text \<open>
  The pagination cursors of \<open>app.py\<close>: \<open>_url64\<close>, \<open>_unurl64\<close>, \<open>_query_digest\<close>, \<open>_encode_cursor\<close> and
  \<open>_cursor_state\<close>. A cursor is the canonical JSON of the query digest, the signed boundary,
  the offset and the expiry, with a signature of the service, in URL-safe base64.
\<close>

text \<open>
  What leaves a handler: an \<open>APIError\<close> with its status, code and \<open>Retry-After\<close> header, or any
  other exception, which the exception handlers of the application turn into a response.
  Diagnostic messages are not modelled.
\<close>

datatype failure =
    APIError int string "int option"
  | Raised exc


section \<open>URL-safe base64\<close>

definition to_url :: "nat \<Rightarrow> nat" where
  "to_url c = (if c = 43 then 45 else if c = 47 then 95 else c)"

definition of_url :: "nat \<Rightarrow> nat" where
  "of_url c = (if c = 45 then 43 else if c = 95 then 47 else c)"

definition url64 :: "bytes \<Rightarrow> str" where
  "url64 v = rev (dropWhile (\<lambda>c. c = 61) (rev (map to_url (b64encode v))))"

definition unurl64 :: "str \<Rightarrow> bytes res" where
  "unurl64 v = b64decode (map of_url (v @ replicate (nat ((- int (length v)) mod 4)) 61))"


section \<open>Cursors\<close>

definition CURSOR_TTL_SECONDS :: int where
  "CURSOR_TTL_SECONDS = 3600"

definition query_digest :: "string \<Rightarrow> obj \<Rightarrow> str res" where
  "query_digest endpoint query =
    bindE (canonical_document (JObj [(lit ''endpoint'', JStr (lit endpoint)), (lit ''query'', JObj query)])) (\<lambda>doc.
      Inr (sha256_hex doc))"

definition cursor_document :: "str \<Rightarrow> obj \<Rightarrow> int \<Rightarrow> int \<Rightarrow> obj" where
  "cursor_document digest boundary_snapshot offset expires_at =
    [(lit ''query'', JStr digest), (lit ''snapshot'', JObj boundary_snapshot),
     (lit ''offset'', JInt offset), (lit ''expires_at'', JInt expires_at)]"

definition encode_cursor :: "'k ed25519 \<Rightarrow> 'k \<Rightarrow> string \<Rightarrow> obj \<Rightarrow> obj \<Rightarrow> int \<Rightarrow> int \<Rightarrow> str res" where
  "encode_cursor E key endpoint query boundary_snapshot offset now =
    bindE (query_digest endpoint query) (\<lambda>digest.
    bindE (canonical_document (JObj (cursor_document digest boundary_snapshot offset (now + CURSOR_TTL_SECONDS)))) (\<lambda>payload.
    bindE (b64decode (sign E key payload)) (\<lambda>signature.
      Inr (url64 payload @ 46 # url64 signature))))"

definition carried_boundary :: "obj \<Rightarrow> snapshot_boundary res" where
  "carried_boundary snapshot =
    boundary_from_dict (JObj (map (\<lambda>field. (lit field, get_or snapshot field JNull))
      [''version'', ''log_size'', ''head'', ''merkle_root'', ''created_at'']))"

definition cursor_offset :: "int \<Rightarrow> obj \<Rightarrow> int res" where
  "cursor_offset now decoded =
    (case (get_int decoded (lit ''offset''), get_int decoded (lit ''expires_at'')) of
       (Some offset, Some expires_at) \<Rightarrow>
         (if offset < 0 \<or> expires_at < now then Inl (ValueError ''value'') else Inr offset)
     | _ \<Rightarrow> Inl (ValueError ''value''))"

text \<open>The body of the \<open>try\<close>: the envelope, and what it carries.\<close>

definition check_cursor ::
  "'k ed25519 \<Rightarrow> str list \<Rightarrow> string \<Rightarrow> obj \<Rightarrow> int \<Rightarrow> obj \<Rightarrow> store \<Rightarrow> (int \<times> snapshot_boundary \<times> obj) res" where
  "check_cursor E verification_keys endpoint query now decoded s =
    bindE (guardE (keys_of decoded = {lit ''query'', lit ''snapshot'', lit ''offset'', lit ''expires_at''})
             (ValueError ''shape'')) (\<lambda>_.
    bindE (query_digest endpoint query) (\<lambda>digest.
    bindE (guardE (get_or decoded ''query'' JNull = JStr digest) (ValueError ''query'')) (\<lambda>_.
    bindE (validate_snapshot (get_or decoded ''snapshot'' JNull)) (\<lambda>snapshot.
    bindE (guardE (list_ex (\<lambda>k. verify_signed E k snapshot) verification_keys)
             (ValueError ''snapshot signature'')) (\<lambda>_.
    bindE (carried_boundary snapshot) (\<lambda>boundary.
    bindE (boundary_available boundary s) (\<lambda>available.
    bindE (guardE available (ValueError ''snapshot'')) (\<lambda>_.
    bindE (cursor_offset now decoded) (\<lambda>offset.
      Inr (offset, boundary, snapshot))))))))))"

definition decode_cursor ::
  "'k ed25519 \<Rightarrow> str list \<Rightarrow> string \<Rightarrow> obj \<Rightarrow> int \<Rightarrow> str \<Rightarrow> store \<Rightarrow> (int \<times> snapshot_boundary \<times> obj) res" where
  "decode_cursor E verification_keys endpoint query now cursor s =
    (if length cursor > 4096 then Inl (ValueError ''length'')
     else if 46 \<notin> set cursor then Inl (ValueError ''not enough values to unpack'')
     else
       bindE (unurl64 (takeWhile (\<lambda>c. c \<noteq> 46) cursor)) (\<lambda>payload.
       bindE (unurl64 (tl (dropWhile (\<lambda>c. c \<noteq> 46) cursor))) (\<lambda>raw_signature.
       bindE (guardE (list_ex (\<lambda>k. verify E k payload (b64encode raw_signature)) verification_keys)
                (ValueError ''signature'')) (\<lambda>_.
       bindE (load_json payload) (\<lambda>v.
         case v of
           JObj decoded \<Rightarrow> check_cursor E verification_keys endpoint query now decoded s
         | _ \<Rightarrow> Inl (ValueError ''shape''))))))"

definition invalid_cursor :: failure where
  "invalid_cursor = APIError 404 ''invalid_cursor'' None"

definition cursor_state ::
  "'k ed25519 \<Rightarrow> str list \<Rightarrow> string \<Rightarrow> obj \<Rightarrow> int \<Rightarrow> str \<Rightarrow> store \<Rightarrow> failure + (int \<times> snapshot_boundary \<times> obj)" where
  "cursor_state E verification_keys endpoint query now cursor s =
    (case decode_cursor E verification_keys endpoint query now cursor s of
       Inr x \<Rightarrow> Inr x
     | Inl e \<Rightarrow> Inl (if is_ValueError e then invalid_cursor else Raised e))"


section \<open>Decoding inverts encoding\<close>

lemma to_url_alphabet: "n < 64 \<Longrightarrow> of_url (to_url (b64_char n)) = b64_char n \<and> to_url (b64_char n) \<noteq> 61 \<and> to_url (b64_char n) \<noteq> 46"
  by (auto simp: of_url_def to_url_def b64_char_def)

definition url_body :: "str \<Rightarrow> bool" where
  "url_body s \<longleftrightarrow> (\<forall>c \<in> set s. of_url (to_url c) = c \<and> to_url c \<noteq> 61 \<and> to_url c \<noteq> 46)"

definition url_shape :: "str \<Rightarrow> str \<Rightarrow> nat \<Rightarrow> bool" where
  "url_shape t s p \<longleftrightarrow> t = s @ replicate p 61 \<and> p \<le> 2 \<and> url_body s \<and> (length s + p) mod 4 = 0"

lemma url_body_Cons: "n < 64 \<Longrightarrow> url_body (b64_char n # s) \<longleftrightarrow> url_body s" "url_body []"
  by (simp_all add: url_body_def to_url_alphabet)

lemma b64encode_shape: "\<exists>s p. url_shape (b64encode v) s p"
proof (induction v rule: b64encode.induct)
  case 1
  have "url_shape [] [] 0" by (simp add: url_shape_def url_body_Cons)
  then show ?case by auto
next
  case (2 a)
  have "url_shape (b64encode [a]) [b64_char (unat a div 4), b64_char (unat a mod 4 * 16)] (Suc (Suc 0))"
    by (simp add: url_shape_def url_body_Cons)
  then show ?case by blast
next
  case (3 a b)
  have "url_shape (b64encode [a, b]) [b64_char (unat a div 4), b64_char (unat a mod 4 * 16 + unat b div 16),
      b64_char (unat b mod 16 * 4)] (Suc 0)"
    by (simp add: url_shape_def url_body_Cons)
  then show ?case by blast
next
  case (4 a b c bs)
  have c: "unat c mod 64 < 64" by simp
  from 4 obtain s p where "url_shape (b64encode bs) s p" by blast
  then have "url_shape (b64encode (a # b # c # bs)) (take 4 (b64encode (a # b # c # bs)) @ s) p"
    using c by (simp add: url_shape_def url_body_Cons)
  then show ?case by blast
qed

lemma pad_length:
  assumes "p \<le> 2" "(n + p) mod 4 = 0"
  shows "nat ((- int n) mod 4) = p"
proof -
  from assms(2) obtain k where "n + p = 4 * k" by auto
  then have "int n + int p = 4 * int k" by presburger
  then have "- int n = int p + 4 * (- int k)" by simp
  then have "(- int n) mod 4 = int p mod 4" by (metis mod_mult_self2)
  with assms(1) show ?thesis by simp
qed

lemma url64_shape: "\<exists>s p. url_shape (b64encode v) s p \<and> url64 v = map to_url s"
proof -
  obtain s p where sp: "url_shape (b64encode v) s p" using b64encode_shape by blast
  then have s: "b64encode v = s @ replicate p 61" "url_body s" by (simp_all add: url_shape_def)
  have "dropWhile (\<lambda>c. c = 61) (rev (map to_url s)) = rev (map to_url s)"
    using s(2) by (cases s rule: rev_cases) (simp_all add: url_body_def)
  moreover have "dropWhile (\<lambda>c. c = 61) (replicate p 61 @ t) = dropWhile (\<lambda>c. c = 61) t" for t :: str
    by (induction p) simp_all
  ultimately have "url64 v = map to_url s"
    by (simp add: url64_def s(1) to_url_def [of 61])
  with sp show ?thesis by blast
qed

lemma unurl64_url64: "unurl64 (url64 v) = Inr v"
proof -
  obtain s p where sp: "url_shape (b64encode v) s p" "url64 v = map to_url s" using url64_shape by blast
  then have s: "b64encode v = s @ replicate p 61" "p \<le> 2" "url_body s" "(length s + p) mod 4 = 0"
    by (simp_all add: url_shape_def)
  have "nat ((- int (length s)) mod 4) = p" using s(2,4) by (rule pad_length)
  moreover have "map of_url (map to_url s) = s" using s(3) by (simp add: url_body_def map_idI)
  ultimately have "map of_url (url64 v @ replicate (nat ((- int (length (url64 v))) mod 4)) 61) = b64encode v"
    by (simp add: s(1) sp(2) of_url_def [of 61])
  then show ?thesis by (simp add: unurl64_def)
qed

lemma url64_no_dot: "46 \<notin> set (url64 v)"
proof -
  obtain s p where "url_shape (b64encode v) s p" "url64 v = map to_url s" using url64_shape by blast
  then show ?thesis by (auto simp: url_shape_def url_body_def)
qed


lemma carried_boundary_sort:
  assumes "dict_ok (JObj snap)" "validate_snapshot (JObj snap) = Inr snap"
  shows "carried_boundary (sorted_record snap) = carried_boundary snap"
  using assms(2)
proof (rule validate_snapshotD)
  fix mroot head size version created
  assume "map_of snap (lit ''merkle_root'') = Some (JStr mroot)" "map_of snap (lit ''head'') = Some (JStr head)"
    "map_of snap (lit ''log_size'') = Some (JInt size)" "map_of snap (lit ''version'') = Some (JInt version)"
    "map_of snap (lit ''created_at'') = Some (JStr created)"
  then show ?thesis by (simp add: carried_boundary_def map_of_sorted_record [OF assms(1)])
qed

lemma hex_str_ok: "str_ok (sha256_hex m)"
  using hex_chars [of _ "sha256 m"] by (fastforce simp: str_ok_def sha256_hex_def)

lemma cursor_document_ok: "dict_ok (JObj snap) \<Longrightarrow> str_ok d \<Longrightarrow> dict_ok (JObj (cursor_document d snap offset expires))"
  by (simp add: cursor_document_def)

lemma cursor_split:
  "takeWhile (\<lambda>c. c \<noteq> 46) (url64 p @ 46 # url64 g) = url64 p"
  "tl (dropWhile (\<lambda>c. c \<noteq> 46) (url64 p @ 46 # url64 g)) = url64 g"
proof -
  have p: "\<forall>c \<in> set (url64 p). c \<noteq> 46" using url64_no_dot [of p] by metis
  show "takeWhile (\<lambda>c. c \<noteq> 46) (url64 p @ 46 # url64 g) = url64 p"
    using p takeWhile_append2 [of "url64 p" "\<lambda>c. c \<noteq> 46" "46 # url64 g"] by simp
  show "tl (dropWhile (\<lambda>c. c \<noteq> 46) (url64 p @ 46 # url64 g)) = url64 g"
    using p dropWhile_append2 [of "url64 p" "\<lambda>c. c \<noteq> 46" "46 # url64 g"] by simp
qed

lemma encode_cursor_Inr:
  assumes "encode_cursor E key endpoint query snap offset issued = Inr cursor"
  obtains digest payload where
    "query_digest endpoint query = Inr digest"
    "canonical_document (JObj (cursor_document digest snap offset (issued + CURSOR_TTL_SECONDS))) = Inr payload"
    "cursor = url64 payload @ 46 # url64 (ed_sign E key payload)"
  using assms by (auto simp: encode_cursor_def bindE_Inr_iff sign_def)

lemma decode_encode_cursor:
  assumes E: "ed25519_ok E" and key: "public_pinned E key \<in> set ks"
    and enc: "encode_cursor E key endpoint query snap offset issued = Inr cursor" "length cursor \<le> 4096"
    and snap: "dict_ok (JObj snap)" "validate_snapshot (JObj snap) = Inr snap" "k \<in> set ks" "verify_signed E k snap"
    and b: "carried_boundary snap = Inr b" "boundary_available b s = Inr True"
    and n: "0 \<le> offset" "now \<le> issued + CURSOR_TTL_SECONDS"
  shows "decode_cursor E ks endpoint query now cursor s = Inr (offset, b, sorted_record snap)"
  using enc(1)
proof (rule encode_cursor_Inr)
  fix digest payload
  let ?doc = "cursor_document digest snap offset (issued + CURSOR_TTL_SECONDS)"
  assume d: "query_digest endpoint query = Inr digest" and p: "canonical_document (JObj ?doc) = Inr payload"
    and c: "cursor = url64 payload @ 46 # url64 (ed_sign E key payload)"
  have "str_ok digest" using d by (auto simp: query_digest_def bindE_Inr_iff hex_str_ok)
  then have ok: "dict_ok (JObj ?doc)" using snap(1) by (intro cursor_document_ok)
  have load: "load_json payload = Inr (JObj (sorted_record ?doc))"
    using load_canonical [OF ok p] by (simp only: sort_json_JObj)
  have sig: "list_ex (\<lambda>k. verify E k payload (b64encode (ed_sign E key payload))) ks"
    using key verify_sign [OF E, of key payload] by (auto simp: list_ex_iff sign_def)
  have keys: "keys_of (sorted_record ?doc) = {lit ''query'', lit ''snapshot'', lit ''offset'', lit ''expires_at''}"
    by (auto simp: cursor_document_def)
  have gets: "get_or (sorted_record ?doc) ''query'' JNull = JStr digest"
    "get_or (sorted_record ?doc) ''snapshot'' JNull = JObj (sorted_record snap)"
    "get_int (sorted_record ?doc) (lit ''offset'') = Some offset"
    "get_int (sorted_record ?doc) (lit ''expires_at'') = Some (issued + CURSOR_TTL_SECONDS)"
    unfolding get_or_sorted_record [OF ok] sorted_lookup [OF ok]
    by (simp_all add: cursor_document_def get_int_def sort_json_JObj del: sort_json.simps(7))
  have "list_ex (\<lambda>k. verify_signed E k (sorted_record snap)) ks"
    using verify_signed_sort [OF snap(1,4)] snap(3) by (auto simp: list_ex_iff)
  moreover have "validate_snapshot (JObj (sorted_record snap)) = Inr (sorted_record snap)"
    by (rule validate_snapshot_sort [OF snap(1,2)])
  moreover have "carried_boundary (sorted_record snap) = Inr b"
    using carried_boundary_sort [OF snap(1,2)] b(1) by simp
  ultimately show ?thesis
    using enc(2) n b(2) d load sig keys gets
    by (simp add: decode_cursor_def check_cursor_def cursor_offset_def c cursor_split unurl64_url64 del: get_int_Some)
qed


section \<open>What an accepted cursor establishes\<close>

lemma decode_cursorD:
  assumes "decode_cursor E ks endpoint query now cursor s = Inr (offset, b, snap)"
  obtains payload signature decoded digest expires where
    "cursor = takeWhile (\<lambda>c. c \<noteq> 46) cursor @ 46 # tl (dropWhile (\<lambda>c. c \<noteq> 46) cursor)"
    "unurl64 (takeWhile (\<lambda>c. c \<noteq> 46) cursor) = Inr payload"
    "\<exists>k \<in> set ks. verify E k payload (b64encode signature)"
    "load_json payload = Inr (JObj decoded)"
    "query_digest endpoint query = Inr digest" "map_of decoded (lit ''query'') = Some (JStr digest)"
    "map_of decoded (lit ''snapshot'') = Some (JObj snap)" "validate_snapshot (JObj snap) = Inr snap"
    "\<exists>k \<in> set ks. verify_signed E k snap" "carried_boundary snap = Inr b" "boundary_available b s = Inr True"
    "map_of decoded (lit ''offset'') = Some (JInt offset)" "0 \<le> offset"
    "map_of decoded (lit ''expires_at'') = Some (JInt expires)" "now \<le> expires"
proof -
  have dot: "46 \<in> set cursor" using assms by (auto simp: decode_cursor_def split: if_splits)
  then have split: "cursor = takeWhile (\<lambda>c. c \<noteq> 46) cursor @ 46 # tl (dropWhile (\<lambda>c. c \<noteq> 46) cursor)"
    by (induction cursor) auto
  from assms dot obtain payload signature v where
    p: "unurl64 (takeWhile (\<lambda>c. c \<noteq> 46) cursor) = Inr payload" "\<exists>k \<in> set ks. verify E k payload (b64encode signature)"
      "load_json payload = Inr v"
    and ck: "(case v of JObj decoded \<Rightarrow> check_cursor E ks endpoint query now decoded s | _ \<Rightarrow> Inl (ValueError ''shape'')) =
      Inr (offset, b, snap)"
    by (auto simp: decode_cursor_def bindE_Inr_iff list_ex_iff split: if_splits)
  from ck obtain decoded where v: "v = JObj decoded" "check_cursor E ks endpoint query now decoded s = Inr (offset, b, snap)"
    by (cases v) simp_all
  note v2 = v(2) [unfolded check_cursor_def]
  obtain digest where q1: "query_digest endpoint query = Inr digest" and v3: "get_or decoded ''query'' JNull = JStr digest"
    using v2 by (auto simp only: bindE_Inr_iff guardE_Inr_iff)
  obtain snap' where q3: "validate_snapshot (get_or decoded ''snapshot'' JNull) = Inr snap'"
    using v2 by (auto simp only: bindE_Inr_iff guardE_Inr_iff)
  note v4 = v2 [unfolded q1 q3 bindE_simps v3]
  have q: "\<exists>k \<in> set ks. verify_signed E k snap'" "carried_boundary snap' = Inr b" "boundary_available b s = Inr True"
      "snap' = snap" and o: "cursor_offset now decoded = Inr offset"
    using v4 by (auto simp: bindE_Inr_iff list_ex_iff)
  from o obtain expires where e: "map_of decoded (lit ''offset'') = Some (JInt offset)" "0 \<le> offset"
      "map_of decoded (lit ''expires_at'') = Some (JInt expires)" "now \<le> expires"
    by (auto simp: cursor_offset_def split: option.splits if_splits)
  have s: "get_or decoded ''snapshot'' JNull = JObj snap" using q3 q(4) by (elim validate_snapshotD) simp
  show thesis
    using that [OF split p(1,2) _ q1 get_or_Some [OF v3] get_or_Some [OF s] _ _ _ q(3) e(1-4)] p(3) q3 q(1,2,4) s v(1)
    by auto
qed

end
