(* ===== verification/Auth.thy ===== *)
theory Auth
  imports Protocol "HOL-Library.Sublist"
begin

text \<open>
  \<open>auth.py\<close>: the auditor registry. Submission is gated by an opaque token of which only the
  SHA-256 is stored. The fields of an entry of the auditors file are arbitrary JSON values;
  the constructor of \<open>AuditorTokens\<close> checks them, and what it leaves are the typed fields of
  \<open>auditor\<close>. An operation applied to a value of the wrong type raises \<open>TypeError\<close> (or its
  relative \<open>AttributeError\<close>), which is the same branch here. The permission check of the
  file (\<open>permissions.py\<close>) is an argument of \<open>from_file\<close>.
\<close>

record auditor_args =
  arg_auditor_id :: json
  arg_org :: json
  arg_public_key :: json
  arg_token_sha256 :: json

record auditor =
  auditor_id :: str
  org :: str
  public_key :: str
  token_sha256 :: str

definition hex_digits :: str where
  "hex_digits = lit ''0123456789abcdef''"

text \<open>\<open>not x\<close> and \<open>len(x)\<close> on the values \<open>load_json\<close> produces (it produces no floats).\<close>

fun truthy :: "json \<Rightarrow> bool" where
  "truthy JNull = False"
| "truthy (JBool b) = b"
| "truthy (JInt i) = (i \<noteq> 0)"
| "truthy (JFloat t) = True"
| "truthy (JStr s) = (s \<noteq> [])"
| "truthy (JArr xs) = (xs \<noteq> [])"
| "truthy (JObj kvs) = (kvs \<noteq> [])"

fun py_len :: "json \<Rightarrow> nat res" where
  "py_len (JStr s) = Inr (length s)"
| "py_len (JArr xs) = Inr (length xs)"
| "py_len (JObj kvs) = Inr (length kvs)"
| "py_len v = Inl TypeError"

definition check_auditor_id :: "json \<Rightarrow> str res" where
  "check_auditor_id v =
    (let bad = ValueError ''auditor_id must be a non-empty control-free string''
     in if \<not> truthy v then Inl bad
        else bindE (py_len v) (\<lambda>n.
          if n > 8192 then Inl bad
          else case v of
            JStr s \<Rightarrow> (if \<exists>c \<in> set s. c \<le> 0x1F \<or> c = 0x7F then Inl bad else Inr s)
          | _ \<Rightarrow> Inl TypeError))"

definition check_org :: "json \<Rightarrow> str res" where
  "check_org v =
    (case v of
       JStr s \<Rightarrow> (if length s > 8192 then Inl (ValueError ''auditor has an invalid organization'') else Inr s)
     | _ \<Rightarrow> Inl (ValueError ''auditor has an invalid organization''))"

definition check_public_key :: "json \<Rightarrow> str res" where
  "check_public_key v =
    (case v of JStr s \<Rightarrow> bindE (parse_public_key s) (\<lambda>_. Inr s) | _ \<Rightarrow> Inl TypeError)"

text \<open>
  \<open>any(character not in "0123456789abcdef" for character in ...)\<close>: for a string the
  characters are its code points; for an array or an object the elements are tested, by
  substring, and a clean one still fails later because it cannot be hashed.
\<close>

fun check_hex_items :: "json list \<Rightarrow> unit res" where
  "check_hex_items [] = Inr ()"
| "check_hex_items (JStr s # xs) =
    (if sublist s hex_digits then check_hex_items xs
     else Inl (ValueError ''auditor has an invalid token digest''))"
| "check_hex_items (x # xs) = Inl TypeError"

definition check_token_digest :: "json \<Rightarrow> str res" where
  "check_token_digest v =
    (let bad = ValueError ''auditor has an invalid token digest''
     in bindE (py_len v) (\<lambda>n.
          if n \<noteq> 64 then Inl bad
          else case v of
            JStr s \<Rightarrow> (if \<exists>c \<in> set s. c \<notin> set hex_digits then Inl bad else Inr s)
          | JArr xs \<Rightarrow> bindE (check_hex_items xs) (\<lambda>_. Inl TypeError)
          | JObj kvs \<Rightarrow> bindE (check_hex_items (map (JStr \<circ> fst) kvs)) (\<lambda>_. Inl TypeError)
          | _ \<Rightarrow> Inl TypeError))"

fun check_auditors :: "str list \<Rightarrow> str list \<Rightarrow> auditor_args list \<Rightarrow> auditor list res" where
  "check_auditors ids digests [] = Inr []"
| "check_auditors ids digests (a # rest) =
    bindE (check_auditor_id (arg_auditor_id a)) (\<lambda>aid.
    bindE (check_org (arg_org a)) (\<lambda>organization.
    bindE (check_public_key (arg_public_key a)) (\<lambda>key.
    bindE (check_token_digest (arg_token_sha256 a)) (\<lambda>digest.
      if aid \<in> set ids then Inl (ValueError ''duplicate auditor_id'')
      else if digest \<in> set digests then Inl (ValueError ''two auditors cannot share one token digest'')
      else bindE (check_auditors (aid # ids) (digest # digests) rest) (\<lambda>checked.
        Inr (\<lparr>auditor_id = aid, org = organization, public_key = key, token_sha256 = digest\<rparr> # checked))))))"

type_synonym auditor_tokens = "auditor dict"

definition new_tokens :: "auditor_args list \<Rightarrow> auditor_tokens res" where
  "new_tokens auditors =
    bindE (check_auditors [] [] auditors) (\<lambda>checked.
      Inr (foldl (\<lambda>d a. AList.update (token_sha256 a) a d) [] checked))"

definition auditor_fields :: "str set" where
  "auditor_fields = {lit ''auditor_id'', lit ''org'', lit ''public_key'', lit ''token_sha256''}"

definition check_item :: "json \<Rightarrow> obj res" where
  "check_item item =
    (case item of
       JObj members \<Rightarrow>
        (if \<not> {lit ''auditor_id'', lit ''public_key'', lit ''token_sha256''} \<subseteq> keys_of members
         then Inl (ValueError ''auditor entry is malformed'')
         else if \<not> keys_of members \<subseteq> auditor_fields
         then Inl (ValueError ''auditor entry contains an unknown field'')
         else Inr members)
     | _ \<Rightarrow> Inl (ValueError ''auditor entry is malformed''))"

definition args_of :: "obj \<Rightarrow> auditor_args" where
  "args_of members =
    \<lparr>arg_auditor_id = get_or members ''auditor_id'' JNull, arg_org = get_or members ''org'' (JStr []),
     arg_public_key = get_or members ''public_key'' JNull, arg_token_sha256 = get_or members ''token_sha256'' JNull\<rparr>"

definition load_auditors :: "json \<Rightarrow> auditor_tokens res" where
  "load_auditors data =
    (case data of
       JObj document \<Rightarrow>
        (if keys_of document \<noteq> {lit ''auditors''}
         then Inl (ValueError ''auditors file must contain exactly one auditors array'')
         else case map_of document (lit ''auditors'') of
           Some (JArr items) \<Rightarrow> bindE (mapE check_item items) (\<lambda>objs. new_tokens (map args_of objs))
         | _ \<Rightarrow> Inl (ValueError ''auditors must be an array''))
     | _ \<Rightarrow> Inl (ValueError ''auditors file must contain exactly one auditors array''))"

definition from_file :: "unit res \<Rightarrow> bytes option \<Rightarrow> auditor_tokens res" where
  "from_file require_private file =
    (case file of
       None \<Rightarrow> new_tokens []
     | Some raw \<Rightarrow> bindE require_private (\<lambda>_. bindE (load_json raw) load_auditors))"

fun first_match :: "str \<Rightarrow> auditor_tokens \<Rightarrow> auditor option" where
  "first_match digest [] = None"
| "first_match digest ((candidate, a) # rest) = (if candidate = digest then Some a else first_match digest rest)"

definition resolve :: "auditor_tokens \<Rightarrow> str \<Rightarrow> auditor option res" where
  "resolve tokens token =
    (if length token < 22 then Inr None
     else bindE (utf8_encode token) (\<lambda>raw. Inr (first_match (sha256_hex raw) tokens)))"


section \<open>One auditor per token\<close>

lemma check_token_digest_Inr:
  "check_token_digest v = Inr s \<Longrightarrow> v = JStr s \<and> length s = 64 \<and> set s \<subseteq> set hex_digits"
  by (auto simp: check_token_digest_def Let_def bindE_Inr_iff split: json.splits if_splits)

lemma check_auditor_id_Inr:
  "check_auditor_id v = Inr s \<Longrightarrow>
    v = JStr s \<and> s \<noteq> [] \<and> length s \<le> 8192 \<and> (\<forall>c \<in> set s. 0x1F < c \<and> c \<noteq> 0x7F)"
  by (auto simp: check_auditor_id_def Let_def bindE_Inr_iff not_le split: json.splits if_splits)

lemma check_org_Inr: "check_org v = Inr s \<Longrightarrow> v = JStr s \<and> length s \<le> 8192"
  by (auto simp: check_org_def split: json.splits if_splits)

lemma check_public_key_Inr: "check_public_key v = Inr s \<Longrightarrow> v = JStr s \<and> (\<exists>raw. parse_public_key s = Inr raw)"
  by (auto simp: check_public_key_def bindE_Inr_iff split: json.splits)

lemmas check_field_Inr = check_token_digest_Inr check_auditor_id_Inr check_org_Inr check_public_key_Inr

definition auditor_ok :: "auditor \<Rightarrow> bool" where
  "auditor_ok a \<longleftrightarrow>
    auditor_id a \<noteq> [] \<and> length (auditor_id a) \<le> 8192 \<and> (\<forall>c \<in> set (auditor_id a). 0x1F < c \<and> c \<noteq> 0x7F) \<and>
    length (org a) \<le> 8192 \<and> (\<exists>raw. parse_public_key (public_key a) = Inr raw) \<and>
    length (token_sha256 a) = 64 \<and> set (token_sha256 a) \<subseteq> set hex_digits"

definition args_match :: "auditor_args \<Rightarrow> auditor \<Rightarrow> bool" where
  "args_match x a \<longleftrightarrow>
    arg_auditor_id x = JStr (auditor_id a) \<and> arg_org x = JStr (org a) \<and>
    arg_public_key x = JStr (public_key a) \<and> arg_token_sha256 x = JStr (token_sha256 a)"

lemma check_auditors_Inr:
  assumes "check_auditors ids digests xs = Inr as"
  shows "list_all2 args_match xs as \<and> list_all auditor_ok as \<and>
    distinct (map auditor_id as) \<and> distinct (map token_sha256 as) \<and>
    set (map auditor_id as) \<inter> set ids = {} \<and> set (map token_sha256 as) \<inter> set digests = {}"
  using assms
proof (induction xs arbitrary: ids digests as)
  case Nil
  then show ?case by simp
next
  case (Cons x xs)
  then obtain aid og key digest rest where f:
    "check_auditor_id (arg_auditor_id x) = Inr aid" "check_org (arg_org x) = Inr og"
    "check_public_key (arg_public_key x) = Inr key" "check_token_digest (arg_token_sha256 x) = Inr digest"
    "aid \<notin> set ids" "digest \<notin> set digests"
    "check_auditors (aid # ids) (digest # digests) xs = Inr rest"
    "as = \<lparr>auditor_id = aid, org = og, public_key = key, token_sha256 = digest\<rparr> # rest"
    by (auto simp: bindE_Inr_iff split: if_splits)
  from Cons.IH [OF f(7)] f show ?case
    by (auto simp: args_match_def auditor_ok_def dest!: check_field_Inr)
qed

definition tokens_ok :: "auditor_tokens \<Rightarrow> bool" where
  "tokens_ok tokens \<longleftrightarrow>
    (\<forall>(digest, a) \<in> set tokens. digest = token_sha256 a \<and> auditor_ok a) \<and>
    distinct (map fst tokens) \<and> distinct (map (auditor_id \<circ> snd) tokens)"

lemma by_hash_fresh:
  assumes "distinct (map token_sha256 as)" "fst ` set d \<inter> token_sha256 ` set as = {}"
  shows "foldl (\<lambda>d a. AList.update (token_sha256 a) a d) d as = d @ map (\<lambda>a. (token_sha256 a, a)) as"
  using assms by (induction as arbitrary: d) (auto simp: update_fresh)

lemma new_tokens_Inr:
  assumes "new_tokens xs = Inr tokens"
  shows "tokens_ok tokens \<and> list_all2 args_match xs (map snd tokens)"
proof -
  obtain as where as: "check_auditors [] [] xs = Inr as"
    and t: "tokens = foldl (\<lambda>d a. AList.update (token_sha256 a) a d) [] as"
    using assms by (auto simp: new_tokens_def bindE_Inr_iff)
  note c = check_auditors_Inr [OF as]
  have t: "tokens = map (\<lambda>a. (token_sha256 a, a)) as" using c by (simp add: t by_hash_fresh)
  show ?thesis using c by (auto simp: t tokens_ok_def comp_def list_all_iff)
qed

lemma load_auditors_ok: "load_auditors data = Inr tokens \<Longrightarrow> tokens_ok tokens"
  by (cases data) (auto simp: load_auditors_def bindE_Inr_iff dest: new_tokens_Inr split: option.splits json.splits if_splits)

lemma from_file_ok: "from_file private file = Inr tokens \<Longrightarrow> tokens_ok tokens"
  by (auto simp: from_file_def bindE_Inr_iff dest: new_tokens_Inr load_auditors_ok split: option.splits)

lemma first_match_map_of: "first_match digest tokens = map_of tokens digest"
  by (induction tokens) auto

lemma resolve_Inr:
  assumes "tokens_ok tokens" "utf8_encode token = Inr raw"
  shows "resolve tokens token = Inr (Some a) \<longleftrightarrow>
    22 \<le> length token \<and> a \<in> snd ` set tokens \<and> token_sha256 a = sha256_hex raw"
proof -
  have d: "distinct (map fst tokens)" and k: "(digest, a) \<in> set tokens \<longleftrightarrow> a \<in> snd ` set tokens \<and> digest = token_sha256 a" for digest a
    using assms(1) by (force simp: tokens_ok_def)+
  show ?thesis
    using assms(2) k by (auto simp: resolve_def first_match_map_of map_of_eq_Some_iff [OF d])
qed

lemma resolve_unique:
  assumes "tokens_ok tokens" "resolve tokens t1 = Inr (Some a)" "resolve tokens t2 = Inr (Some b)"
  shows "auditor_id a = auditor_id b \<longleftrightarrow> token_sha256 a = token_sha256 b"
proof -
  have mem: "\<exists>digest. (digest, c) \<in> set tokens" if "resolve tokens t = Inr (Some c)" for t c
    using that by (auto simp: resolve_def first_match_map_of bindE_Inr_iff split: if_splits dest: map_of_SomeD)
  obtain p q where p: "(p, a) \<in> set tokens" and q: "(q, b) \<in> set tokens" using mem assms(2,3) by meson
  have inj1: "inj_on fst (set tokens)" and inj2: "inj_on (auditor_id \<circ> snd) (set tokens)"
    and own: "p = token_sha256 a" "q = token_sha256 b"
    using assms(1) p q by (auto simp: tokens_ok_def distinct_map)
  show ?thesis
    using inj_onD [OF inj1 _ p q] inj_onD [OF inj2 _ p q] own by auto
qed

end
