(* ===== verification/RateLimits.thy ===== *)
theory RateLimits
  imports Prelude
begin

text \<open>
  \<open>limits.py\<close>: the fixed-window rate limiter. Its table is a dictionary in insertion order
  from a key to the start of its window, the requests counted in it, and the time it was
  last seen. Clock readings are rational numbers.
\<close>

record rate_decision =
  allowed :: bool
  retry_after :: int

type_synonym window = "rat \<times> int \<times> rat"

record limiter =
  requests :: int
  window_seconds :: int
  max_keys :: nat
  entries :: "window dict"

definition new_limiter :: "int \<Rightarrow> int \<Rightarrow> int \<Rightarrow> limiter res" where
  "new_limiter reqs window keys =
    (if reqs < 1 \<or> window < 1 \<or> keys < 1 then Inl (ValueError ''rate limiter bounds must be positive'')
     else Inr \<lparr>requests = reqs, window_seconds = window, max_keys = nat keys, entries = []\<rparr>)"

definition seen :: "str \<times> window \<Rightarrow> rat" where
  "seen e = (case e of (_, _, _, last_seen) \<Rightarrow> last_seen)"

text \<open>\<open>min(self._entries, key=...)\<close>: the first entry with the least time.\<close>

definition oldest :: "window dict \<Rightarrow> str" where
  "oldest es = fst (foldl (\<lambda>m e. if seen e < seen m then e else m) (hd es) (tl es))"

lemma foldl_min_mem: "foldl (\<lambda>m e. if f e < f m then e else m) x xs \<in> insert x (set xs)"
  by (induction xs arbitrary: x) auto

lemma oldest_mem: "es \<noteq> [] \<Longrightarrow> oldest es \<in> keys_of es"
  using foldl_min_mem [of seen "hd es" "tl es"]
  by (cases es) (auto simp: oldest_def keys_of_def)

lemma length_without: "k \<in> keys_of es \<Longrightarrow> length (without k es) < length es"
  unfolding without_def keys_of_def by (auto intro: length_filter_less)

function evict :: "nat \<Rightarrow> window dict \<Rightarrow> window dict" where
  "evict limit es = (if es \<noteq> [] \<and> length es > limit then evict limit (without (oldest es) es) else es)"
  by pat_completeness auto
termination
  by (relation "measure (\<lambda>(limit, es). length es)") (auto intro: length_without oldest_mem)

declare evict.simps [simp del]

definition bound_entries :: "rat \<Rightarrow> limiter \<Rightarrow> window dict \<Rightarrow> window dict" where
  "bound_entries now l es =
    (if length es \<le> max_keys l then es
     else evict (max_keys l) (filter (\<lambda>(_, start, _, _). \<not> now - start \<ge> of_int (window_seconds l)) es))"

definition allow :: "str \<Rightarrow> rat \<Rightarrow> limiter \<Rightarrow> rate_decision \<times> limiter" where
  "allow key instant l =
    (let (start0, count0, _) = (case map_of (entries l) key of Some w \<Rightarrow> w | None \<Rightarrow> (instant, 0, instant));
         (start, count) = (if instant - start0 \<ge> of_int (window_seconds l) then (instant, 0) else (start0, count0))
     in if count \<ge> requests l then
          (\<lparr>allowed = False, retry_after = max 1 \<lceil>of_int (window_seconds l) - (instant - start)\<rceil>\<rparr>,
           l\<lparr>entries := AList.update key (start, count, instant) (entries l)\<rparr>)
        else
          (\<lparr>allowed = True, retry_after = 0\<rparr>,
           l\<lparr>entries := bound_entries instant l (AList.update key (start, count + 1, instant) (entries l))\<rparr>))"


section \<open>Bounds\<close>

definition limiter_ok :: "limiter \<Rightarrow> bool" where
  "limiter_ok l \<longleftrightarrow>
    1 \<le> requests l \<and> 1 \<le> window_seconds l \<and> 1 \<le> max_keys l \<and>
    length (entries l) \<le> max_keys l \<and> distinct (map fst (entries l)) \<and>
    (\<forall>(k, start, count, last_seen) \<in> set (entries l). 1 \<le> count \<and> count \<le> requests l)"

lemma evict_props:
  "length (evict limit es) \<le> limit" "set (evict limit es) \<subseteq> set es"
  "distinct (map fst es) \<Longrightarrow> distinct (map fst (evict limit es))"
proof -
  have "length (evict limit es) \<le> limit \<and> set (evict limit es) \<subseteq> set es \<and>
      (distinct (map fst es) \<longrightarrow> distinct (map fst (evict limit es)))"
  proof (induction limit es rule: evict.induct)
    case (1 limit es)
    have sub: "set (without k es) \<subseteq> set es" for k by (auto simp: without_def)
    show ?case
    proof (cases "es \<noteq> [] \<and> length es > limit")
      case True
      with 1 [OF True] sub [of "oldest es"] show ?thesis by (auto simp: evict.simps [of limit es])
    next
      case False
      then show ?thesis by (auto simp: evict.simps [of limit es])
    qed
  qed
  then show "length (evict limit es) \<le> limit" "set (evict limit es) \<subseteq> set es"
    "distinct (map fst es) \<Longrightarrow> distinct (map fst (evict limit es))" by blast+
qed

lemma set_update_subset: "set (AList.update k v es) \<subseteq> insert (k, v) (set es)"
  by (induction es) auto

lemma length_update: "length (AList.update k v es) = (if k \<in> fst ` set es then length es else length es + 1)"
  by (induction es) auto

lemma bound_entries_props:
  "length (bound_entries now l es) \<le> max_keys l" "set (bound_entries now l es) \<subseteq> set es"
  "distinct (map fst es) \<Longrightarrow> distinct (map fst (bound_entries now l es))"
  using evict_props [where limit = "max_keys l" and
      es = "filter (\<lambda>(_, start, _, _). \<not> now - start \<ge> of_int (window_seconds l)) es"]
  by (auto simp: bound_entries_def distinct_map_filter)


section \<open>One key\<close>

text \<open>
  The contract of the limiter for one key: the window a request falls into and the
  decision on it. \<^const>\<open>allow\<close> is this step on the entry of its key, followed by the bound
  on the table.
\<close>

definition window_step :: "limiter \<Rightarrow> window option \<Rightarrow> rat \<Rightarrow> rate_decision \<times> window" where
  "window_step l w instant =
    (let (start0, count0, _) = (case w of Some w \<Rightarrow> w | None \<Rightarrow> (instant, 0, instant));
         (start, count) = (if instant - start0 \<ge> of_int (window_seconds l) then (instant, 0) else (start0, count0))
     in if count \<ge> requests l then
          (\<lparr>allowed = False, retry_after = max 1 \<lceil>of_int (window_seconds l) - (instant - start)\<rceil>\<rparr>, (start, count, instant))
        else (\<lparr>allowed = True, retry_after = 0\<rparr>, (start, count + 1, instant)))"

lemma allow_step:
  "allow key instant l =
    (let (d, w) = window_step l (map_of (entries l) key) instant; es = AList.update key w (entries l)
     in (d, l\<lparr>entries := if allowed d then bound_entries instant l es else es\<rparr>))"
  by (cases "map_of (entries l) key") (auto simp: allow_def window_step_def Let_def split: prod.splits)

lemma window_step_entries [simp]: "window_step (l\<lparr>entries := es\<rparr>) = window_step l"
  by (simp add: fun_eq_iff window_step_def Let_def cong: if_cong split: prod.split)

lemma window_step_count:
  assumes "window_step l w instant = (d, (start, count, t))" "1 \<le> requests l"
    and "\<And>s c x. w = Some (s, c, x) \<Longrightarrow> 1 \<le> c \<and> c \<le> requests l"
  shows "1 \<le> count \<and> count \<le> requests l \<and> t = instant \<and> (\<not> allowed d \<longrightarrow> w \<noteq> None)"
  using assms by (cases w) (auto simp: window_step_def Let_def split: if_splits prod.splits)

lemma allow_ok:
  assumes ok: "limiter_ok l"
  shows "limiter_ok (snd (allow key instant l))"
proof -
  obtain d start count t where w: "window_step l (map_of (entries l) key) instant = (d, (start, count, t))"
    by (metis prod_cases4)
  have inv: "1 \<le> c \<and> c \<le> requests l" if "(k, s, c, x) \<in> set (entries l)" for k s c x
    using ok that by (auto simp: limiter_ok_def)
  have c: "1 \<le> count \<and> count \<le> requests l \<and> t = instant \<and> (\<not> allowed d \<longrightarrow> map_of (entries l) key \<noteq> None)"
    by (rule window_step_count [OF w]) (use ok inv in \<open>auto simp: limiter_ok_def dest: map_of_SomeD\<close>)
  let ?es = "AList.update key (start, count, t) (entries l)"
  have es: "1 \<le> c \<and> c \<le> requests l" if "(k, s, c, x) \<in> set ?es" for k s c x
    using that set_update_subset [of key "(start, count, t)" "entries l"] inv c by auto
  have distinct: "distinct (map fst ?es)" using ok by (simp add: limiter_ok_def distinct_update)
  have bounded: "length ?es \<le> max_keys l" if "\<not> allowed d"
    using that c ok by (auto simp: length_update limiter_ok_def map_of_eq_None_iff)
  let ?new = "if allowed d then bound_entries instant l ?es else ?es"
  have new: "set ?new \<subseteq> set ?es" "distinct (map fst ?new)" "length ?new \<le> max_keys l"
    using distinct bounded bound_entries_props [where now = instant and l = l and es = ?es] by simp_all
  have "snd (allow key instant l) = l\<lparr>entries := ?new\<rparr>" by (simp add: allow_step w Let_def)
  then show ?thesis using ok es new by (auto simp: limiter_ok_def)
qed

text \<open>A refused client is told to wait between one second and one window, and is served after that wait.\<close>

definition fresh_starts :: "rat \<Rightarrow> limiter \<Rightarrow> bool" where
  "fresh_starts instant l \<longleftrightarrow> (\<forall>(k, start, _, _) \<in> set (entries l). start \<le> instant)"

lemma window_step_denied:
  assumes "window_step l (Some (start0, count0, x)) instant = (d, (start, count, t))" "\<not> allowed d"
    "1 \<le> requests l" "1 \<le> window_seconds l" "start0 \<le> instant"
  shows "start = start0" "1 \<le> retry_after d" "retry_after d \<le> window_seconds l"
    "instant + of_int (retry_after d) - start \<ge> of_int (window_seconds l)"
proof -
  have sc: "start = start0" and r: "retry_after d = max 1 \<lceil>of_int (window_seconds l) - (instant - start)\<rceil>"
    using assms by (auto simp: window_step_def Let_def split: if_splits prod.splits)
  show "start = start0" "1 \<le> retry_after d" using sc r by auto
  show "retry_after d \<le> window_seconds l"
    using r assms(4,5) sc by (simp add: ceiling_le_iff)
  have "of_int (window_seconds l) - (instant - start) \<le> of_int (retry_after d)"
    unfolding r by (meson ceiling_le_iff max.cobounded2)
  then show "instant + of_int (retry_after d) - start \<ge> of_int (window_seconds l)" by simp
qed

lemma retry_after_honest:
  assumes ok: "limiter_ok l" "fresh_starts instant l"
    and denied: "allow key instant l = (d, l')" "\<not> allowed d"
    and later: "instant + of_int (retry_after d) \<le> instant'"
  shows "1 \<le> retry_after d \<and> retry_after d \<le> window_seconds l \<and> allowed (fst (allow key instant' l'))"
proof -
  obtain d' start count t where w: "window_step l (map_of (entries l) key) instant = (d', (start, count, t))"
    by (metis prod_cases4)
  have dd: "d' = d" and l': "l' = l\<lparr>entries := AList.update key (start, count, t) (entries l)\<rparr>"
    using denied by (simp_all add: allow_step w Let_def split: if_splits)
  have lo: "1 \<le> requests l" "1 \<le> window_seconds l" using ok(1) by (auto simp: limiter_ok_def)
  obtain s c x where old: "map_of (entries l) key = Some (s, c, x)"
    using w denied(2) lo by (cases "map_of (entries l) key") (auto simp: dd window_step_def)
  have "s \<le> instant" using ok(2) map_of_SomeD [OF old] by (auto simp: fresh_starts_def)
  note facts = window_step_denied [OF w [unfolded old dd] denied(2) lo this]
  have "instant' - start \<ge> of_int (window_seconds l)" using facts(4) later by simp
  then show ?thesis using facts(2,3) lo
    by (simp add: allow_step l' update_conv' window_step_def Let_def)
qed


section \<open>A trace of requests\<close>

fun allow_all :: "(str \<times> rat) list \<Rightarrow> limiter \<Rightarrow> rate_decision list \<times> limiter" where
  "allow_all [] l = ([], l)"
| "allow_all ((key, instant) # rs) l =
    (let (d, l') = allow key instant l; (ds, l'') = allow_all rs l' in (d # ds, l''))"

fun window_run :: "limiter \<Rightarrow> window option \<Rightarrow> rat list \<Rightarrow> rate_decision list" where
  "window_run l w [] = []"
| "window_run l w (t # ts) = (let (d, w') = window_step l w t in d # window_run l (Some w') ts)"

definition room_for :: "(str \<times> rat) list \<Rightarrow> limiter \<Rightarrow> bool" where
  "room_for rs l \<longleftrightarrow> card (keys_of (entries l) \<union> fst ` set rs) \<le> max_keys l"

lemma keys_of_finite [simp]: "finite (keys_of es)"
  by (simp add: keys_of_def)

lemma allow_room:
  assumes ok: "limiter_ok l" and room: "room_for ((key, instant) # rs) l"
    and step: "window_step l (map_of (entries l) key) instant = (d, w)"
  shows "allow key instant l = (d, l\<lparr>entries := AList.update key w (entries l)\<rparr>)"
    "room_for rs (l\<lparr>entries := AList.update key w (entries l)\<rparr>)"
proof -
  let ?es = "AList.update key w (entries l)"
  have d: "distinct (map fst ?es)" using ok by (simp add: limiter_ok_def distinct_update)
  have "length ?es = card (keys_of ?es)" using distinct_card [OF d] by (simp add: keys_of_def)
  also have "\<dots> \<le> card (keys_of (entries l) \<union> fst ` set ((key, instant) # rs))"
    by (rule card_mono) auto
  also have "\<dots> \<le> max_keys l" using room by (simp add: room_for_def)
  finally show "allow key instant l = (d, l\<lparr>entries := ?es\<rparr>)"
    by (simp add: allow_step step bound_entries_def Let_def)
  show "room_for rs (l\<lparr>entries := ?es\<rparr>)"
    using room by (simp add: room_for_def)
qed

text \<open>Keys do not influence each other as long as the table has room for all of them.\<close>

lemma decisions_isolated:
  assumes "limiter_ok l" "room_for rs l"
  shows "map snd (filter (\<lambda>((k, _), _). k = key) (zip rs (fst (allow_all rs l)))) =
    window_run l (map_of (entries l) key) (map snd (filter (\<lambda>(k, _). k = key) rs))"
  using assms
proof (induction rs arbitrary: l)
  case Nil
  then show ?case by simp
next
  case (Cons r rs)
  obtain k t where r: "r = (k, t)" by force
  obtain d w where step: "window_step l (map_of (entries l) k) t = (d, w)" by (metis surj_pair)
  let ?l = "l\<lparr>entries := AList.update k w (entries l)\<rparr>"
  note room = allow_room [OF Cons.prems(1) Cons.prems(2) [unfolded r] step]
  have ok: "limiter_ok ?l" using allow_ok [OF Cons.prems(1), of k t] room(1) by simp
  have same: "window_run ?l v ts = window_run l v ts" for v ts
    by (induction ts arbitrary: v) (simp_all split: prod.split)
  obtain ds l' where rest: "allow_all rs ?l = (ds, l')" by (metis surj_pair)
  then have eq: "fst (allow_all (r # rs) l) = d # ds" by (simp add: r room(1))
  show ?case
    unfolding eq using Cons.IH [OF ok room(2), unfolded rest same] step
    by (cases "k = key") (simp_all add: r rest same update_conv')
qed

text \<open>Within one window exactly the first \<open>requests\<close> requests of a key are served.\<close>

lemma window_run_open:
  assumes "1 \<le> window_seconds l" "0 \<le> count"
    and "\<forall>t \<in> set ts. start \<le> t \<and> t < start + of_int (window_seconds l)"
  shows "map allowed (window_run l (Some (start, count, x)) ts) = map (\<lambda>i. count + int i < requests l) [0..<length ts]"
  using assms
proof (induction ts arbitrary: count x)
  case Nil
  then show ?case by simp
next
  case (Cons t ts)
  have t: "\<not> t - start \<ge> of_int (window_seconds l)" using Cons.prems(3) by simp
  have idx: "[0..<length (t # ts)] = 0 # map Suc [0..<length ts]"
    by (simp add: upt_conv_Cons map_Suc_upt del: upt_Suc)
  show ?case
  proof (cases "count \<ge> requests l")
    case True
    then show ?thesis
      using Cons.IH [of count t] Cons.prems t unfolding idx
      by (auto simp: window_step_def comp_def)
  next
    case False
    then show ?thesis
      using Cons.IH [of "count + 1" t] Cons.prems t unfolding idx
      by (auto simp: window_step_def comp_def algebra_simps)
  qed
qed

lemma window_run_fresh:
  assumes "1 \<le> window_seconds l" "\<forall>t \<in> set (start # ts). start \<le> t \<and> t < start + of_int (window_seconds l)"
  shows "map allowed (window_run l None (start # ts)) = map (\<lambda>i. int i < requests l) [0..<length (start # ts)]"
proof -
  have eq: "window_run l None (start # ts) = window_run l (Some (start, 0, start)) (start # ts)"
    using assms by (simp add: window_step_def)
  show ?thesis using window_run_open [of l 0 "start # ts" start start] assms unfolding eq by simp
qed

text \<open>Every trace keeps the invariant and the configured bound.\<close>

lemma allow_all_ok:
  "limiter_ok l \<Longrightarrow> limiter_ok (snd (allow_all rs l)) \<and> max_keys (snd (allow_all rs l)) = max_keys l"
proof (induction rs arbitrary: l)
  case (Cons r rs)
  obtain k t where r: "r = (k, t)" by force
  obtain d l' where a: "allow k t l = (d, l')" by (metis surj_pair)
  have "max_keys l' = max_keys l" using a by (auto simp: allow_step Let_def split: prod.splits)
  moreover have "limiter_ok l'" using allow_ok [OF Cons.prems, of k t] a by simp
  moreover have "snd (allow_all (r # rs) l) = snd (allow_all rs l')" by (simp add: r a split: prod.split)
  ultimately show ?case using Cons.IH [of l'] by simp
qed simp

end
