(* ===== verification/App.thy ===== *)
theory App
  imports Cursor Auth RateLimits
begin

text \<open>
  \<open>app.py\<close>: the HTTP handlers. A handler is a function of the parsed request, the clock
  readings it takes and the state; what FastAPI and the ASGI server do before (routing,
  conversion of query parameters, header decoding, chunking of the body) is its input. Header
  text is Latin-1. A read handler takes two lock scopes one after the other, so it takes the
  store at each of them. The structured audit log is output and not modelled.
\<close>

record 'k service =
  sv_ed25519 :: "'k ed25519"
  sv_signing_key :: 'k
  sv_verification_keys :: "str list"
  sv_tokens :: auditor_tokens

definition MAX_PAGE_SIZE :: int where "MAX_PAGE_SIZE = 1000"
definition MAX_BODY_BYTES :: nat where "MAX_BODY_BYTES = 16 * 1024 * 1024"
definition IDEMPOTENCY_TTL_SECONDS :: int where "IDEMPOTENCY_TTL_SECONDS = 26 * 3600"

text \<open>\<open>tuple(dict.fromkeys(...))\<close>: the distinct values in the order of their first occurrence.\<close>

definition dict_fromkeys :: "str list \<Rightarrow> str list" where
  "dict_fromkeys xs = rev (remdups (rev xs))"

definition accepted_signing_keys :: "'k service \<Rightarrow> str list" where
  "accepted_signing_keys sv =
    dict_fromkeys (public_pinned (sv_ed25519 sv) (sv_signing_key sv) # sv_verification_keys sv)"

definition raised :: "'a res \<Rightarrow> failure + 'a" where
  "raised m = (case m of Inl e \<Rightarrow> Inl (Raised e) | Inr x \<Rightarrow> Inr x)"

definition invalid_query :: failure where
  "invalid_query = APIError 400 ''invalid_query'' None"


section \<open>Reads\<close>

definition get_health :: "rat \<Rightarrow> store \<Rightarrow> failure + obj" where
  "get_health now s =
    (let v = health_verdict now s in
     if v_ready v then Inr [(lit ''status'', JStr (lit ''ok''))]
     else if v_code v = ''not_ready'' then Inl (APIError 503 ''not_ready'' None)
     else Inl (APIError 503 (v_code v) None))"

definition get_meta :: "str \<Rightarrow> str \<Rightarrow> 'k service \<Rightarrow> obj" where
  "get_meta registry_name package_version sv =
    [(lit ''name'', JStr registry_name), (lit ''version'', JStr package_version),
     (lit ''public_keys'', JArr (map JStr (accepted_signing_keys sv))),
     (lit ''record_schema_versions'', JArr [JInt 1, JInt 2]),
     (lit ''policy'', JStr (lit ''append-only signed records with deny-wins revocation'')),
     (lit ''limits'', JObj [(lit ''max_page_size'', JInt MAX_PAGE_SIZE), (lit ''max_body_bytes'', JInt (int MAX_BODY_BYTES))])]"

fun validate_query_parameters :: "str set \<Rightarrow> str list \<Rightarrow> (str \<times> str) list \<Rightarrow> failure + unit" where
  "validate_query_parameters permitted previous [] = Inr ()"
| "validate_query_parameters permitted previous ((key, value) # items) =
    (if key \<notin> permitted \<or> key \<in> set previous \<or> value = [] then Inl invalid_query
     else validate_query_parameters permitted (key # previous) items)"

text \<open>\<open>Query(ge=1, le=MAX_PAGE_SIZE)\<close> and \<open>Query(ge=0)\<close>: a violation is a validation error of the request.\<close>

definition check_limit :: "int \<Rightarrow> failure + unit" where
  "check_limit limit = guardE (1 \<le> limit \<and> limit \<le> MAX_PAGE_SIZE) invalid_query"

definition page_failure :: "exc \<Rightarrow> failure" where
  "page_failure e = (case e of CursorBoundaryMismatch m \<Rightarrow> invalid_cursor | _ \<Rightarrow> Raised e)"

definition cursor_page :: "'a res \<Rightarrow> failure + 'a" where
  "cursor_page m = (case m of Inl e \<Rightarrow> Inl (page_failure e) | Inr x \<Rightarrow> Inr x)"

text \<open>
  The shape the two paged reads share. \<open>page offset max_seq boundary\<close> is the call of the store;
  \<open>now\<close> and \<open>issued\<close> are the clock at decoding and at encoding a cursor.
\<close>

definition select_page ::
  "'k service \<Rightarrow> string \<Rightarrow> obj \<Rightarrow> str \<Rightarrow> int \<Rightarrow> store \<Rightarrow>
   (nat \<Rightarrow> int option \<Rightarrow> snapshot_boundary option \<Rightarrow> ('a list \<times> bool) res) \<Rightarrow>
   failure + (int \<times> obj \<times> 'a list \<times> bool)" where
  "select_page sv endpoint query cursor now s page =
    (if cursor \<noteq> [] then
       bindE (cursor_state (sv_ed25519 sv) (accepted_signing_keys sv) endpoint query now cursor s)
         (\<lambda>(offset, boundary, snapshot).
       bindE (cursor_page (page (nat offset) None (Some boundary))) (\<lambda>(found, remains).
         Inr (offset, snapshot, found, remains)))
     else
       bindE (raised (snapshot_boundary None s)) (\<lambda>boundary.
       bindE (raised (build_snapshot (sv_ed25519 sv) (sv_signing_key sv) (Some boundary) None None s)) (\<lambda>snapshot.
       bindE (raised (page 0 (Some (sb_log_size boundary)) None)) (\<lambda>(found, remains).
         Inr (0, snapshot, found, remains)))))"

definition next_cursor ::
  "'k service \<Rightarrow> string \<Rightarrow> obj \<Rightarrow> obj \<Rightarrow> int \<Rightarrow> bool \<Rightarrow> int \<Rightarrow> failure + json" where
  "next_cursor sv endpoint query snapshot offset remains issued =
    (if remains then
       bindE (raised (encode_cursor (sv_ed25519 sv) (sv_signing_key sv) endpoint query snapshot offset issued))
         (\<lambda>c. Inr (JStr c))
     else Inr JNull)"

definition paged ::
  "'k service \<Rightarrow> string \<Rightarrow> obj \<Rightarrow> str \<Rightarrow> int \<Rightarrow> int \<Rightarrow> store \<Rightarrow>
   (nat \<Rightarrow> int option \<Rightarrow> snapshot_boundary option \<Rightarrow> ('a list \<times> bool) res) \<Rightarrow>
   failure + ('a list \<times> json \<times> obj)" where
  "paged sv endpoint query cursor now issued s page =
    bindE (select_page sv endpoint query cursor now s page) (\<lambda>(offset, snapshot, found, remains).
    bindE (next_cursor sv endpoint query snapshot (offset + int (length found)) remains issued) (\<lambda>next.
      Inr (found, next, snapshot)))"

record records_args =
  q_source_identity :: str
  q_commit :: str
  q_content_sha256 :: str
  q_hash_version :: str
  q_limit :: int
  q_cursor :: str

definition check_records_args :: "records_args \<Rightarrow> failure + int option" where
  "check_records_args a =
    (if (q_source_identity a \<noteq> []) \<noteq> (q_commit a \<noteq> []) then Inl invalid_query
     else if \<not> ((q_source_identity a \<noteq> [] \<and> q_commit a \<noteq> []) \<or> q_content_sha256 a \<noteq> []) then Inl invalid_query
     else bindE (if q_source_identity a \<noteq> [] then
                   (case validate_source_identity (JStr (q_source_identity a)) of
                      Inr _ \<Rightarrow> Inr ()
                    | Inl e \<Rightarrow> (if is_ProtocolError e then Inl invalid_query else Inl (Raised e)))
                 else Inr ()) (\<lambda>_.
       if q_commit a \<noteq> [] \<and> \<not> COMMIT (q_commit a) then Inl invalid_query
       else if q_content_sha256 a \<noteq> [] \<and> \<not> SHA256 (q_content_sha256 a) then Inl invalid_query
       else if q_hash_version a \<noteq> [] \<and>
               (q_hash_version a \<notin> {lit ''1'', lit ''2''} \<or> q_content_sha256 a = []) then Inl invalid_query
       else Inr (if q_content_sha256 a \<noteq> [] then Some (if q_hash_version a = lit ''2'' then 2 else 1) else None)))"

definition records_query :: "records_args \<Rightarrow> int option \<Rightarrow> obj" where
  "records_query a selected =
    [(lit ''source_identity'', JStr (q_source_identity a)), (lit ''commit'', JStr (q_commit a)),
     (lit ''content_sha256'', JStr (q_content_sha256 a)), (lit ''limit'', JInt (q_limit a))] @
    (if selected = Some 2 then [(lit ''hash_version'', JInt 2)] else [])"

definition get_records ::
  "'k service \<Rightarrow> (str \<times> str) list \<Rightarrow> records_args \<Rightarrow> int \<Rightarrow> int \<Rightarrow> store \<Rightarrow> store \<Rightarrow> failure + obj" where
  "get_records sv items a now issued s s_page =
    bindE (check_limit (q_limit a)) (\<lambda>_.
    bindE (validate_query_parameters {lit ''source_identity'', lit ''commit'', lit ''content_sha256'',
             lit ''hash_version'', lit ''limit'', lit ''cursor''} [] items) (\<lambda>_.
    bindE (check_records_args a) (\<lambda>selected.
    bindE (paged sv ''records'' (records_query a selected) (q_cursor a) now issued s
             (\<lambda>offset max_seq boundary. records_page (q_source_identity a) (q_commit a) (q_content_sha256 a) selected
               (nat (q_limit a)) offset max_seq boundary (st_db s_page))) (\<lambda>(found, next, snapshot).
      Inr [(lit ''records'', JArr found), (lit ''next_cursor'', next), (lit ''boundary'', JObj snapshot)]))))"

definition get_snapshot :: "'k service \<Rightarrow> store \<Rightarrow> failure + obj" where
  "get_snapshot sv s = raised (build_snapshot (sv_ed25519 sv) (sv_signing_key sv) None None None s)"

record log_args =
  g_since :: int
  g_limit :: int
  g_cursor :: str

definition log_query :: "log_args \<Rightarrow> obj" where
  "log_query a = [(lit ''since'', JInt (g_since a)), (lit ''limit'', JInt (g_limit a))]"

definition encode_entry :: "log_entry \<Rightarrow> json" where
  "encode_entry e =
    JObj [(lit ''seq'', JInt (e_seq e)), (lit ''entry_hash'', JStr (e_entry_hash e)),
          (lit ''prev_hash'', JStr (e_prev_hash e)), (lit ''record'', JObj (e_record e))]"

definition get_log :: "'k service \<Rightarrow> (str \<times> str) list \<Rightarrow> log_args \<Rightarrow> int \<Rightarrow> int \<Rightarrow> store \<Rightarrow> store \<Rightarrow> failure + obj" where
  "get_log sv items a now issued s s_page =
    bindE (guardE (0 \<le> g_since a) invalid_query) (\<lambda>_.
    bindE (check_limit (g_limit a)) (\<lambda>_.
    bindE (validate_query_parameters {lit ''since'', lit ''limit'', lit ''cursor''} [] items) (\<lambda>_.
    bindE (paged sv ''log'' (log_query a) (g_cursor a) now issued s
             (\<lambda>offset max_seq boundary. log_page (g_since a) (nat (g_limit a)) offset max_seq boundary (st_db s_page)))
      (\<lambda>(found, next, snapshot).
      Inr [(lit ''entries'', JArr (map encode_entry found)), (lit ''next_cursor'', next),
           (lit ''boundary'', JObj snapshot)]))))"



section \<open>Request bodies and headers\<close>

definition strip :: "str \<Rightarrow> str" where
  "strip s = rev (dropWhile isspace (rev (dropWhile isspace s)))"

definition strip_quotes :: "str \<Rightarrow> str" where
  "strip_quotes s = rev (dropWhile (\<lambda>c. c = 34) (rev (dropWhile (\<lambda>c. c = 34) s)))"

text \<open>\<open>str.lower\<close> on Latin-1 text that is compared with ASCII text.\<close>

definition lower :: "str \<Rightarrow> str" where
  "lower s = map ascii_lower s"

definition charset_utf8 :: "str \<Rightarrow> bool" where
  "charset_utf8 parameter \<longleftrightarrow>
    parameter = [] \<or>
    (61 \<in> set parameter \<and> lower (strip (takeWhile (\<lambda>c. c \<noteq> 61) parameter)) = lit ''charset'' \<and>
     lower (strip_quotes (strip (tl (dropWhile (\<lambda>c. c \<noteq> 61) parameter)))) \<in> {lit ''utf-8'', lit ''utf8''})"

definition is_utf8_json :: "str \<Rightarrow> bool" where
  "is_utf8_json content_type =
    (case map strip (split_on 59 content_type) of
       [] \<Rightarrow> False
     | kind # parameters \<Rightarrow> lower kind = lit ''application/json'' \<and> list_all charset_utf8 parameters)"

text \<open>
  \<open>str.isdigit\<close> accepts the superscript digits of Latin-1, which \<open>int\<close> then refuses with
  \<open>ValueError\<close>, as it does with more than 4300 digits.
\<close>

definition isdigit :: "nat \<Rightarrow> bool" where
  "isdigit c \<longleftrightarrow> is_digit c \<or> c \<in> {178, 179, 185}"

definition declared_too_large :: "str option \<Rightarrow> bool res" where
  "declared_too_large header =
    (case header of
       None \<Rightarrow> Inr False
     | Some text \<Rightarrow>
        (if text = [] \<or> \<not> list_all isdigit text then Inr False
         else if \<not> list_all is_digit text \<or> length text > 4300 then Inl (ValueError ''invalid literal for int()'')
         else Inr (nat_of_digits text > MAX_BODY_BYTES)))"

text \<open>The pieces that arrive, and whether the stream ended before the deadline.\<close>

fun read_request_body :: "nat \<Rightarrow> nat \<Rightarrow> bytes list \<Rightarrow> bool \<Rightarrow> failure + bytes" where
  "read_request_body limit received [] ended =
    (if ended then Inr [] else Inl (APIError 503 ''request_timeout'' None))"
| "read_request_body limit received (piece # pieces) ended =
    (if received + length piece > limit then Inl (APIError 413 ''request_too_large'' None)
     else bindE (read_request_body limit (received + length piece) pieces ended) (\<lambda>later. Inr (piece @ later)))"

record submit_request =
  h_content_type :: str
  h_content_encoding :: "str option"
  h_content_length :: "str option"
  h_authorization :: str
  h_idempotency_key :: str
  body_chunks :: "bytes list"
  body_complete :: bool

definition check_headers :: "submit_request \<Rightarrow> failure + unit" where
  "check_headers rq =
    (if \<not> is_utf8_json (h_content_type rq) then Inl (APIError 415 ''unsupported_media_type'' None)
     else if lower (strip (case h_content_encoding rq of Some e \<Rightarrow> e | None \<Rightarrow> lit ''identity''))
             \<notin> {[], lit ''identity''} then Inl (APIError 415 ''unsupported_media_type'' None)
     else bindE (raised (declared_too_large (h_content_length rq))) (\<lambda>too_large.
       guardE (\<not> too_large) (APIError 413 ''request_too_large'' None)))"


section \<open>Submission\<close>

definition invalid_token :: failure where
  "invalid_token = APIError 401 ''invalid_token'' None"

definition authenticate :: "auditor_tokens \<Rightarrow> str \<Rightarrow> failure + auditor" where
  "authenticate tokens authorization =
    (if take 7 authorization \<noteq> lit ''Bearer '' then Inl invalid_token
     else bindE (raised (resolve tokens (strip (drop 7 authorization)))) (\<lambda>found.
       case found of None \<Rightarrow> Inl invalid_token | Some a \<Rightarrow> Inr a))"

definition record_failure :: "exc \<Rightarrow> failure" where
  "record_failure e =
    (if e = JSONDepthError \<or> e = CanonicalDepthError then APIError 400 ''invalid_json'' None
     else if is_ProtocolError e then APIError 400 ''invalid_record'' None
     else Raised e)"

definition parse_record :: "bytes \<Rightarrow> failure + obj" where
  "parse_record raw =
    (case bindE (load_json raw) validate_record of Inl e \<Rightarrow> Inl (record_failure e) | Inr r \<Rightarrow> Inr r)"

definition countersigned_body :: "str \<Rightarrow> obj \<Rightarrow> obj" where
  "countersigned_body endorser record =
    (let endorsement = JObj [(lit ''endorser'', JStr endorser), (lit ''sig'', get_or record ''sig'' JNull)];
         body = AList.update (lit ''schema_version'') (get_or record ''schema_version'' (JInt 1))
                  (without (lit ''sig'') record)
     in AList.update (lit ''endorsements'')
          (case map_of body (lit ''endorsements'') of
             Some (JArr existing) \<Rightarrow> JArr (existing @ [endorsement]) | _ \<Rightarrow> JArr [endorsement]) body)"

definition countersign :: "'k ed25519 \<Rightarrow> 'k \<Rightarrow> str \<Rightarrow> obj \<Rightarrow> obj res" where
  "countersign E key endorser record = sign_record E key (countersigned_body endorser record)"

text \<open>Clock readings of a submission: the two monotonic ones, \<open>utc_now()\<close> and \<open>int(time.time())\<close>.\<close>

record clocks =
  k_limiter :: rat
  k_store :: rat
  k_utc :: str
  k_time :: int

definition commit_record ::
  "'k service \<Rightarrow> auditor \<Rightarrow> str \<Rightarrow> clocks \<Rightarrow> obj \<Rightarrow> store \<Rightarrow> (failure + (int \<times> obj)) \<times> store" where
  "commit_record sv a key t record s =
    (case raised (countersign (sv_ed25519 sv) (sv_signing_key sv) (auditor_id a) record) of
       Inl f \<Rightarrow> (Inl f, s)
     | Inr countersigned \<Rightarrow>
        (if key \<noteq> [] then
           (if \<not> printable_key key then (Inl (APIError 400 ''invalid_idempotency_key'' None), s)
            else case canonical_bytes record of
              Inl e \<Rightarrow> (Inl (if e = CanonicalDepthError then APIError 400 ''invalid_json'' None else Raised e), s)
            | Inr canonical \<Rightarrow>
               (case append_idempotent (k_store t) countersigned (auditor_id a) key (sha256_hex canonical)
                       (k_utc t) (k_time t) IDEMPOTENCY_TTL_SECONDS s of
                  (Inr (response, replayed), s') \<Rightarrow> (Inr (if replayed then 200 else 201, response), s')
                | (Inl e, s') \<Rightarrow>
                   (Inl (if e = IdempotencyConflict then APIError 409 ''idempotency_conflict'' None else Raised e), s')))
         else
           (case append (k_store t) countersigned (k_utc t) s of
              (Inr entry, s') \<Rightarrow> (Inr (201, entry_response entry), s')
            | (Inl e, s') \<Rightarrow> (Inl (if is_ValueError e then APIError 409 ''non_appendable'' None else Raised e), s'))))"

definition submit ::
  "'k service \<Rightarrow> submit_request \<Rightarrow> clocks \<Rightarrow> limiter \<times> store \<Rightarrow> (failure + (int \<times> obj)) \<times> (limiter \<times> store)" where
  "submit sv rq t st =
    (case st of (auditor_limiter, s) \<Rightarrow>
      (case bindE (check_headers rq) (\<lambda>_.
            bindE (read_request_body MAX_BODY_BYTES 0 (body_chunks rq) (body_complete rq)) (\<lambda>raw.
            bindE (authenticate (sv_tokens sv) (h_authorization rq)) (\<lambda>a. Inr (raw, a)))) of
         Inl f \<Rightarrow> (Inl f, (auditor_limiter, s))
       | Inr (raw, a) \<Rightarrow>
          (case allow (lit ''auditor:'' @ auditor_id a) (k_limiter t) auditor_limiter of (decision, limiter') \<Rightarrow>
            (if \<not> allowed decision
             then (Inl (APIError 429 ''rate_limited'' (Some (retry_after decision))), (limiter', s))
             else case bindE (parse_record raw) (\<lambda>record.
                    bindE (guardE (verify_signed (sv_ed25519 sv) (public_key a) record)
                             (APIError 400 ''invalid_signature'' None)) (\<lambda>_. Inr record)) of
               Inl f \<Rightarrow> (Inl f, (limiter', s))
             | Inr record \<Rightarrow>
                (case commit_record sv a (h_idempotency_key rq) t record s of
                   (result, s') \<Rightarrow> (result, (limiter', s')))))))"


section \<open>Exception handlers and resource controls\<close>

record response =
  rs_status :: int
  rs_error :: "string option"
  rs_retry_after :: "int option"
  rs_body :: obj

definition error_response :: "int \<Rightarrow> string \<Rightarrow> int option \<Rightarrow> response" where
  "error_response status ecode retry =
    \<lparr>rs_status = status, rs_error = Some ecode, rs_retry_after = retry,
     rs_body = [(lit ''error'', JObj [(lit ''code'', JStr (lit ecode))])]\<rparr>"

definition handle_failure :: "failure \<Rightarrow> response" where
  "handle_failure f =
    (case f of
       APIError status ecode retry \<Rightarrow> error_response status ecode retry
     | Raised (StoreIntegrityError m) \<Rightarrow> error_response 503 ''storage_unavailable'' None
     | Raised (DatabaseError m) \<Rightarrow> error_response 503 ''storage_unavailable'' None
     | Raised e \<Rightarrow> error_response 500 ''internal_error'' None)"

text \<open>Requests that FastAPI itself refuses: parameters that do not parse, unknown routes and methods.\<close>

definition validation_error :: "string \<Rightarrow> string \<Rightarrow> response" where
  "validation_error http_method path =
    error_response 400 (if http_method = ''GET'' \<and> path \<in> {''/v1/records'', ''/v1/log''} then ''invalid_query'' else ''invalid_request'') None"

definition http_error :: "int \<Rightarrow> response" where
  "http_error status = error_response status (if status = 404 then ''not_found'' else ''method_not_allowed'') None"

definition respond :: "failure + (int \<times> obj) \<Rightarrow> response" where
  "respond result =
    (case result of
       Inl f \<Rightarrow> handle_failure f
     | Inr (status, payload) \<Rightarrow>
        \<lparr>rs_status = status, rs_error = None, rs_retry_after = None, rs_body = payload\<rparr>)"

record 's gate =
  gt_network :: limiter
  gt_inflight :: nat
  gt_inner :: 's

text \<open>\<open>acquired\<close> tells whether the semaphore was obtained within its timeout.\<close>

definition resource_controls ::
  "str \<Rightarrow> rat \<Rightarrow> bool \<Rightarrow> ('s \<Rightarrow> response \<times> 's) \<Rightarrow> 's gate \<Rightarrow> response \<times> 's gate" where
  "resource_controls client_host instant acquired call_next g =
    (case allow (lit ''network:'' @ client_host) instant (gt_network g) of (decision, network) \<Rightarrow>
      let g = g\<lparr>gt_network := network\<rparr> in
      if \<not> allowed decision then (error_response 429 ''rate_limited'' (Some (retry_after decision)), g)
      else if \<not> acquired then (error_response 503 ''overloaded'' (Some 1), g)
      else let g = g\<lparr>gt_inflight := gt_inflight g + 1\<rparr> in
        (case call_next (gt_inner g) of (r, inner) \<Rightarrow>
          (r, g\<lparr>gt_inner := inner, gt_inflight := gt_inflight g - 1\<rparr>)))"


section \<open>Startup\<close>

datatype posture = NotConfigured | Passed | Refused string

definition enforce_startup_checkpoint ::
  "'k ed25519 \<Rightarrow> str list \<Rightarrow> rat \<Rightarrow> bytes res option \<Rightarrow> store \<Rightarrow> posture res \<times> store" where
  "enforce_startup_checkpoint E accepted_keys now configured s =
    (case configured of
       None \<Rightarrow> (Inr NotConfigured, s)
     | Some (Inl e) \<Rightarrow> (Inl (RuntimeError ''startup checkpoint is unreadable''), s)
     | Some (Inr raw) \<Rightarrow>
        (case bindE (load_json raw) (\<lambda>v. bindE (validate_snapshot v) (\<lambda>snapshot.
                bindE (from_snapshot snapshot) (\<lambda>checkpoint. Inr (snapshot, checkpoint)))) of
           Inl e \<Rightarrow> (Inl (if is_ProtocolError e
                          then RuntimeError ''startup checkpoint is not a signed registry-snapshot-v1 object'' else e), s)
         | Inr (snapshot, checkpoint) \<Rightarrow>
            (case snapshot_boundary None s of
               Inl e \<Rightarrow> (Inl e, s)
             | Inr live \<Rightarrow>
                (if \<not> list_ex (\<lambda>k. verify_signed E k snapshot) accepted_keys
                 then (case refuse_startup_checkpoint now ''checkpoint_signature_invalid''
                              ''startup checkpoint comparison refused'' s of
                         (Inr _, s') \<Rightarrow> (Inr (Refused ''checkpoint_signature_invalid''), s')
                       | (Inl e, s') \<Rightarrow> (Inl e, s'))
                 else (case apply_startup_checkpoint now checkpoint s of
                         (Inr None, s') \<Rightarrow> (Inr Passed, s')
                       | (Inr (Some diagnostic), s') \<Rightarrow> (Inr (Refused diagnostic), s')
                       | (Inl e, s') \<Rightarrow> (Inl e, s'))))))"

end
