(* ===== verification/ProtocolValues.thy ===== *)
theory ProtocolValues
  imports Protocol JsonValues
begin

text \<open>
  What \<open>load_json\<close> returns, for any bytes: strings of code points and objects with distinct
  keys. It is the well-formedness every later step of a submission, a bundle or a cursor needs
  of a document that came from outside.
\<close>

lemma byte_lt: "unat (b :: byte) < 256"
  using byte_bound [of b] .

lemma utf8_decode_ok: "utf8_decode b = Inr s \<Longrightarrow> str_ok s"
proof (induction b arbitrary: s rule: utf8_decode.induct)
  case (2 b bs)
  let ?n = "unat b"
  consider "?n < 0x80" | "0x80 \<le> ?n" "?n < 0xC0" | "0xC0 \<le> ?n" "?n < 0xE0" | "0xE0 \<le> ?n" "?n < 0xF0" | "0xF0 \<le> ?n"
    by linarith
  then show ?case
  proof cases
    case 1
    then show ?thesis using 2 by (auto simp: bindE_Inr_iff)
  next
    case 2
    then show ?thesis using "2.prems" by simp
  next
    case 3
    obtain c r where bs: "bs = c # r" using "2.prems" 3 by (cases bs) (auto split: if_splits)
    have "(?n - 0xC0) * 64 + unat c mod 64 < 0x110000" using 3 mod_less_divisor [of 64 "unat c"] by linarith
    then show ?thesis using "2.IH"(2) "2.prems" 3 bs by (auto simp: bindE_Inr_iff Let_def split: if_splits)
  next
    case 4
    obtain c d r where bs: "bs = c # d # r" using "2.prems" 4 by (cases bs; cases "tl bs") (auto split: if_splits)
    have "(?n - 0xE0) * 4096 + unat c mod 64 * 64 + unat d mod 64 < 0x110000"
      using 4 mod_less_divisor [of 64 "unat c"] mod_less_divisor [of 64 "unat d"] by linarith
    then show ?thesis using "2.IH"(3) "2.prems" 4 bs by (auto simp: bindE_Inr_iff Let_def split: if_splits)
  next
    case 5
    obtain c d e r where bs: "bs = c # d # e # r"
      using "2.prems" 5 by (cases bs; cases "tl bs"; cases "tl (tl bs)") (auto split: if_splits)
    show ?thesis using "2.IH"(4) "2.prems" 5 bs by (auto simp: bindE_Inr_iff Let_def split: if_splits)
  qed
qed simp

lemma utf32_decode_ok: "utf32_decode le b = Inr s \<Longrightarrow> str_ok s"
  by (induction le b arbitrary: s rule: utf32_decode.induct) (auto simp: bindE_Inr_iff Let_def split: if_splits)

lemma units16_bound: "units16 le b = Inr us \<Longrightarrow> \<forall>u \<in> set us. u < 65536"
proof (induction le b arbitrary: us rule: units16.induct)
  case (3 le a b r)
  have "unat a + 256 * unat b < 65536" "256 * unat a + unat b < 65536" using byte_lt [of a] byte_lt [of b] by linarith+
  with 3 show ?case by (auto simp: bindE_Inr_iff)
qed simp_all

lemma join_surrogates_ok: "\<forall>u \<in> set us. u < 65536 \<Longrightarrow> str_ok (join_surrogates us)"
  by (induction us rule: join_surrogates.induct) auto

lemma decode_document_ok: "decode_document b = Inr s \<Longrightarrow> str_ok s"
  using units16_bound join_surrogates_ok utf8_decode_ok utf32_decode_ok
  by (auto simp: decode_document_def utf16_decode_def Let_def bindE_Inr_iff split: if_splits)

lemma object_pairs_hook_ok:
  "object_pairs_hook d ps = Inr v \<Longrightarrow> dict_ok (JObj d) \<Longrightarrow> \<forall>(k, x) \<in> set ps. str_ok k \<and> dict_ok x \<Longrightarrow> dict_ok v"
proof (induction d ps rule: object_pairs_hook.induct)
  case (2 d k x ps)
  then have k: "k \<notin> fst ` set d" by (auto simp: keys_of_def split: if_splits)
  then have "dict_ok (JObj (AList.update k x d))" using 2(3,4) by (auto simp: update_fresh)
  with 2 show ?case by (auto split: if_splits)
qed simp

lemma hooks_ok_protocol: "hooks_ok protocol_hooks"
  using object_pairs_hook_ok [of "[]"]
  by (fastforce simp: hooks_ok_def protocol_hooks_def parse_integer_def reject_number_def bindE_Inr_iff split: if_splits)

lemma load_json_ok: "load_json raw = Inr v \<Longrightarrow> dict_ok v"
proof -
  assume "load_json raw = Inr v"
  then obtain t where "decode_document raw = Inr t" "json_decode protocol_hooks t = Inr v"
    by (auto simp: load_json_def bindE_Inr_iff split: if_splits)
  then show "dict_ok v" using json_decode_ok [OF hooks_ok_protocol] decode_document_ok by blast
qed

end
