(* ===== verification/AppSubmit.thy ===== *)
theory AppSubmit
  imports App ProtocolValues
begin

text \<open>
  The submission path: what countersigning keeps of a validated record, what a successful
  submission commits, and that nothing reaches the log without a token and a signature.
\<close>

section \<open>The countersigned record is valid\<close>

definition endorsed :: "str \<Rightarrow> obj \<Rightarrow> obj" where
  "endorsed endorser r = AList.update (lit ''sig'') (get_or r ''sig'' JNull) (countersigned_body endorser r)"

lemma countersigned_body_eq:
  "countersigned_body endorser r =
    AList.update (lit ''endorsements'') (JArr (prior_endorsements r @ [import_endorsement endorser r]))
      (AList.update (lit ''schema_version'') (get_or r ''schema_version'' (JInt 1)) (without (lit ''sig'') r))"
  by (auto simp: countersigned_body_def prior_endorsements_def import_endorsement_def Let_def update_conv'
      split: option.splits json.splits)

lemma update_same: "map_of d k = Some v \<Longrightarrow> AList.update k v d = d"
  by (induction d) (auto split: if_splits)

lemma countersigned_body_import:
  assumes "\<exists>v. map_of r (lit ''schema_version'') = Some v"
  shows "countersigned_body x r = countersign_body x r"
proof -
  obtain v where v: "map_of r (lit ''schema_version'') = Some v" using assms by blast
  then have "map_of (without (lit ''sig'') r) (lit ''schema_version'') = Some v" by simp
  from update_same [OF this] v show ?thesis by (simp add: countersigned_body_eq countersign_body_eq)
qed

lemma sign_endorsed: "sign_record E k (endorsed x r) = sign_record E k (countersigned_body x r)"
proof -
  have b: "lit ''sig'' \<notin> keys_of (countersigned_body x r)" by (simp add: countersigned_body_eq)
  then have "endorsed x r = countersigned_body x r @ [(lit ''sig'', get_or r ''sig'' JNull)]"
    by (simp add: endorsed_def update_fresh keys_of_def)
  then have "without (lit ''sig'') (endorsed x r) = without (lit ''sig'') (countersigned_body x r)"
    by (simp add: without_def)
  moreover note without_absent [OF b]
  ultimately show ?thesis by (simp add: sign_record_def canonical_bytes_def Let_def)
qed

lemma endorsed_fields:
  "map_of (endorsed x r) (lit k) =
    (if k = ''sig'' then Some (get_or r ''sig'' JNull)
     else if k = ''endorsements'' then Some (JArr (prior_endorsements r @ [import_endorsement x r]))
     else if k = ''schema_version'' then Some (get_or r ''schema_version'' (JInt 1))
     else map_of r (lit k))"
  by (simp add: endorsed_def countersigned_body_eq update_conv')

lemma document_member: "document_ok (Suc n) (JObj r) \<Longrightarrow> map_of r k = Some v \<Longrightarrow> document_ok n v"
  by (force simp: document_ok_def ccj_leaves_JObj json_depth_JObj_le dest!: map_of_SomeD)

lemma prior_endorsements_member:
  "e \<in> set (prior_endorsements r) \<Longrightarrow> \<exists>es. map_of r (lit ''endorsements'') = Some (JArr es) \<and> e \<in> set es"
  by (cases "map_of r (lit ''endorsements'')") (auto simp: prior_endorsements_def split: json.splits)

lemma signature_document:
  assumes "validate_signature v = Inr ()" "document_ok n v"
  shows "document_ok 1 v"
proof -
  obtain sig where v: "v = JObj sig" and k: "keys_of sig = sig_fields"
    and f: "map_of sig (lit ''algorithm'') = Some (JStr (lit ''ed25519''))"
      "\<exists>s. map_of sig (lit ''key_id'') = Some (JStr s)" "\<exists>s. map_of sig (lit ''signature'') = Some (JStr s)"
    using assms(1) by (auto simp: validate_signature_def bindE_Inr_iff split: json.splits option.splits)
  have d: "distinct (map fst sig)" using assms(2) v by (simp add: document_ok_def)
  have "json_depth x \<le> 0" if "(y, x) \<in> set sig" for y x
  proof -
    have "map_of sig y = Some x" using d that by simp
    moreover have "y \<in> sig_fields" using that k by (force simp: keys_of_def)
    ultimately show ?thesis using f by (auto simp: sig_fields_def)
  qed
  then show ?thesis using assms(2) by (auto simp: document_ok_def v json_depth_JObj_le)
qed

lemma validated_document:
  "validate_record (JObj r) = Inr r \<Longrightarrow> dict_ok (JObj r) \<Longrightarrow> document_ok MAX_JSON_DEPTH (JObj r)"
  using validate_recordD(8) [of "JObj r" r] by (auto simp: document_ok_def canonical_document_Inr)

text \<open>The endorser the service writes: an auditor identifier.\<close>

definition endorser_ok :: "str \<Rightarrow> bool" where
  "endorser_ok x \<longleftrightarrow> clean x \<and> x \<noteq> [] \<and> length x \<le> 8192"

lemma endorsement_document:
  assumes "validate_record (JObj r) = Inr r" "dict_ok (JObj r)" "endorser_ok x"
  shows "document_ok (MAX_JSON_DEPTH - 1) (JArr (prior_endorsements r @ [import_endorsement x r]))"
    and "\<forall>e \<in> set (prior_endorsements r @ [import_endorsement x r]). validate_endorsement e = Inr ()"
proof -
  have d: "document_ok (Suc (MAX_JSON_DEPTH - 1)) (JObj r)"
    using validated_document [OF assms(1,2)] by (simp add: MAX_JSON_DEPTH_def)
  obtain sg where sg: "map_of r (lit ''sig'') = Some sg" "validate_signature sg = Inr ()"
    using validate_recordD(7) [OF assms(1)] by blast
  have s1: "document_ok 1 sg" by (rule signature_document [OF sg(2) document_member [OF d sg(1)]])
  have "document_ok (Suc 1) (import_endorsement x r)"
    using s1 assms(3) sg(1) clean_lit [of "''sig''"] clean_lit [of "''endorser''"]
    by (auto simp: import_endorsement_def document_ok_def ccj_leaves_JObj json_depth_JObj_le endorser_ok_def clean_def)
  moreover have "document_ok (MAX_JSON_DEPTH - 2) e" if e: "e \<in> set (prior_endorsements r)" for e
  proof -
    obtain es where es: "map_of r (lit ''endorsements'') = Some (JArr es)" "e \<in> set es"
      using prior_endorsements_member [OF e] by blast
    from document_member [OF d es(1)] es(2) show ?thesis
      by (auto simp: document_ok_def ccj_leaves_JArr json_depth_JArr_le MAX_JSON_DEPTH_def)
  qed
  ultimately show "document_ok (MAX_JSON_DEPTH - 1) (JArr (prior_endorsements r @ [import_endorsement x r]))"
    by (fastforce simp: document_ok_def ccj_leaves_JArr json_depth_JArr_le MAX_JSON_DEPTH_def)
  have "validate_endorsement e = Inr ()" if "e \<in> set (prior_endorsements r)" for e
    using prior_endorsements_member [OF that] assms(1) [unfolded validate_record_Inr] by auto
  moreover have "validate_endorsement (import_endorsement x r) = Inr ()"
    using sg assms(3) by (auto simp: validate_endorsement_def import_endorsement_def endorser_ok_def get_str_def)
  ultimately show "\<forall>e \<in> set (prior_endorsements r @ [import_endorsement x r]). validate_endorsement e = Inr ()" by auto
qed


lemma endorsed_valid:
  assumes "validate_record (JObj r) = Inr r" "dict_ok (JObj r)" "endorser_ok x"
  shows "dict_ok (JObj (endorsed x r))" "validate_record (JObj (endorsed x r)) = Inr (endorsed x r)"
proof -
  let ?n = "MAX_JSON_DEPTH - 1"
  note e = endorsement_document [OF assms]
  have d: "document_ok (Suc ?n) (JObj r)"
    using validated_document [OF assms(1,2)] by (simp add: MAX_JSON_DEPTH_def)
  have "document_ok ?n (get_or r ''sig'' JNull)" "document_ok ?n (get_or r ''schema_version'' (JInt 1))"
    using document_member [OF d] by (auto simp: document_ok_def MAX_SAFE_INTEGER_def split: option.split)
  then have doc: "document_ok (Suc ?n) (JObj (endorsed x r))"
    unfolding endorsed_def countersigned_body_eq
    by (intro document_ok_update document_ok_without d e(1))
  then show "dict_ok (JObj (endorsed x r))" by (simp add: document_ok_def)
  note v = assms(1) [unfolded validate_record_Inr]
  have keys: "keys_of (endorsed x r) = keys_of r \<union> {lit ''sig'', lit ''endorsements'', lit ''schema_version''}"
    by (auto simp: endorsed_def countersigned_body_eq)
  have hv: "validate_hash_version (endorsed x r) = validate_hash_version r"
    by (simp add: validate_hash_version_def endorsed_fields keys split: option.split json.split)
  have "\<exists>b. canonical_document (JObj (endorsed x r)) = Inr b"
    using document_ok_canonical doc by (simp add: MAX_JSON_DEPTH_def)
  then show "validate_record (JObj (endorsed x r)) = Inr (endorsed x r)"
    using v e(2) hv unfolding validate_record_Inr
    by (simp add: endorsed_fields keys record_fields_def get_str_def del: set_append)
qed

lemma countersign_valid:
  assumes "ed25519_ok E" "validate_record (JObj r) = Inr r" "dict_ok (JObj r)" "endorser_ok x"
  obtains out where "countersign E k x r = Inr out" "validate_record (JObj out) = Inr out" "dict_ok (JObj out)"
    "verify_signed E (public_pinned E k) out"
proof -
  note e = endorsed_valid [OF assms(2-4)]
  obtain c where "canonical_bytes (endorsed x r) = Inr c"
    using canonical_without [OF e(1)] validate_recordD(8) [OF e(2)] by blast
  then obtain out where s: "sign_record E k (endorsed x r) = Inr out" by (auto simp: sign_record_Inr)
  have "dict_ok (JObj out)"
    using s sig_envelope_ccj(2) str_ok_lit by (auto simp only: sign_record_envelope intro!: dict_ok_update dict_ok_without e(1))
  then show thesis
    using that s validate_sign_record [OF assms(1) e s] verify_signed_sign_record [OF assms(1) s]
    by (simp add: countersign_def sign_endorsed)
qed



section \<open>What a submission does\<close>

lemma parse_recordD:
  assumes "parse_record raw = Inr r"
  shows "validate_record (JObj r) = Inr r" "dict_ok (JObj r)"
proof -
  from assms obtain v where v: "load_json raw = Inr v" "validate_record v = Inr r"
    by (auto simp: parse_record_def bindE_Inr_iff split: sum.splits)
  then have "v = JObj r" using validate_recordD(1) by blast
  with v load_json_ok [OF v(1)] show "validate_record (JObj r) = Inr r" "dict_ok (JObj r)" by simp_all
qed

text \<open>A request that passes every check before the record reaches the store.\<close>

definition admitted :: "'k service \<Rightarrow> submit_request \<Rightarrow> clocks \<Rightarrow> limiter \<Rightarrow> auditor \<Rightarrow> obj \<Rightarrow> bool" where
  "admitted sv rq t l a r \<longleftrightarrow>
    (\<exists>raw. check_headers rq = Inr () \<and>
      read_request_body MAX_BODY_BYTES 0 (body_chunks rq) (body_complete rq) = Inr raw \<and>
      authenticate (sv_tokens sv) (h_authorization rq) = Inr a \<and>
      allowed (fst (allow (lit ''auditor:'' @ auditor_id a) (k_limiter t) l)) \<and>
      parse_record raw = Inr r \<and> verify_signed (sv_ed25519 sv) (public_key a) r)"

lemma admitted_record: "admitted sv rq t l a r \<Longrightarrow> validate_record (JObj r) = Inr r \<and> dict_ok (JObj r)"
  unfolding admitted_def using parse_recordD by blast

lemma submit_admitted:
  assumes "admitted sv rq t l a r"
  shows "submit sv rq t (l, s) =
    (case commit_record sv a (h_idempotency_key rq) t r s of
       (result, s') \<Rightarrow> (result, (snd (allow (lit ''auditor:'' @ auditor_id a) (k_limiter t) l), s')))"
  using assms by (auto simp: admitted_def submit_def split: prod.splits)

lemma submit_commits:
  assumes E: "ed25519_ok (sv_ed25519 sv)"
    and rq: "admitted sv rq t l a r" "h_idempotency_key rq = []" "endorser_ok (auditor_id a)"
    and s: "store_ok s es" "length es + 1 < 2 ^ 63" "require_writes_allowed (k_store t) s = Inr ()" "timestamp (k_utc t)"
  obtains out s' l' where
    "submit sv rq t (l, s) = (Inr (201, entry_response (entry_at es out)), (l', s'))"
    "countersign (sv_ed25519 sv) (sv_signing_key sv) (auditor_id a) r = Inr out"
    "validate_record (JObj out) = Inr out"
    "verify_signed (sv_ed25519 sv) (public_pinned (sv_ed25519 sv) (sv_signing_key sv)) out"
    "store_ok s' (es @ [(out, k_utc t)])"
proof -
  have r: "validate_record (JObj r) = Inr r" "dict_ok (JObj r)" using admitted_record [OF rq(1)] by blast+
  obtain out where out: "countersign (sv_ed25519 sv) (sv_signing_key sv) (auditor_id a) r = Inr out"
    "validate_record (JObj out) = Inr out" "dict_ok (JObj out)"
    "verify_signed (sv_ed25519 sv) (public_pinned (sv_ed25519 sv) (sv_signing_key sv)) out"
    using countersign_valid [OF E r rq(3)] by blast
  have "entry_ok (out, k_utc t)" by (rule validated_admitted [OF out(2,3) s(4)])
  then obtain b where "value_ok out (k_utc t)" "admit out (k_utc t) = Inr b" by (auto simp: entry_ok_iff)
  from append_commits [OF s(1,2) this(1) s(3) this(2)] obtain s' where
    s': "append (k_store t) out (k_utc t) s = (Inr (entry_at es out), s')" "store_ok s' (es @ [(out, k_utc t)])"
    by blast
  have "commit_record sv a [] t r s = (Inr (201, entry_response (entry_at es out)), s')"
    by (simp add: commit_record_def raised_def out(1) s'(1))
  then show thesis using that out s'(2) submit_admitted [OF rq(1)] rq(2) by simp
qed

text \<open>The errors a body can produce.\<close>

lemma guard_protocol: "guardE b (ProtocolError m) = Inl e \<Longrightarrow> is_ProtocolError e"
  by (auto simp: guardE_def split: if_splits)

lemma validator_errors:
  "validate_signature v = Inl e \<Longrightarrow> is_ProtocolError e"
  "validate_hash_version r = Inl e \<Longrightarrow> is_ProtocolError e"
  "validate_source_identity v = Inl e \<Longrightarrow> is_ProtocolError e"
  "check_status v = Inl e \<Longrightarrow> is_ProtocolError e \<or> e = TypeError"
  by (auto simp: validate_signature_def validate_hash_version_def validate_source_identity_def check_status_def
      bindE_Inl_iff Let_def split: json.splits option.splits if_splits sum.splits)

lemma validate_endorsement_errors: "validate_endorsement v = Inl e \<Longrightarrow> is_ProtocolError e"
  using validator_errors(1)
  by (cases v) (auto simp: validate_endorsement_def bindE_Inl_iff)

lemma validate_record_errors:
  assumes "validate_record v = Inl e" "canonical_document v = Inr b"
  shows "is_ProtocolError e \<or> e = TypeError"
proof (cases v)
  case (JObj r)
  have c: "canonicalize_validated (JObj r) = Inr ()" using assms(2) by (simp add: canonicalize_validated_def JObj)
  have "is_ProtocolError e'" if "(case x of JArr es \<Rightarrow> eachE validate_endorsement es | _ \<Rightarrow> Inl (ProtocolError m)) = Inl e'" for x e' m
    using that eachE_Inl [of validate_endorsement _ e'] validate_endorsement_errors by (cases x) auto
  with assms(1) c show ?thesis
    unfolding JObj validate_record_def json.case
    by (auto simp only: bindE_Inl_iff bindE_Inr_iff dest: guard_protocol validator_errors)
qed (use assms in \<open>auto simp: validate_record_def\<close>)

lemma parse_record_errors:
  assumes "parse_record raw = Inl f"
  shows "f \<in> {APIError 400 ''invalid_json'' None, APIError 400 ''invalid_record'' None, Raised TypeError}"
proof -
  from assms obtain e where e: "bindE (load_json raw) validate_record = Inl e" "f = record_failure e"
    by (auto simp: parse_record_def split: sum.splits)
  have "is_ProtocolError e \<or> e = TypeError"
    using e(1) load_json_error load_json_canonical validate_record_errors by (fastforce simp: bindE_Inl_iff)
  then show ?thesis by (auto simp: e(2) record_failure_def)
qed

lemma authenticated_registered:
  assumes "authenticate tokens header = Inr a"
  shows "\<exists>digest. (digest, a) \<in> set tokens"
proof -
  obtain digest where "map_of tokens digest = Some a"
    using assms by (auto simp: authenticate_def raised_def resolve_def bindE_Inr_iff first_match_map_of split: if_splits option.splits sum.splits)
  then show ?thesis by (blast dest: map_of_SomeD)
qed

lemma body_from: "read_request_body limit n pieces ended = Inr raw \<Longrightarrow> raw = concat pieces \<and> (n \<le> limit \<longrightarrow> n + length raw \<le> limit)"
  by (induction pieces arbitrary: n raw) (fastforce simp: bindE_Inr_iff split: if_splits)+

lemma body_within_limit: "read_request_body limit 0 pieces ended = Inr raw \<Longrightarrow> raw = concat pieces \<and> length raw \<le> limit"
  using body_from [of limit 0 pieces ended raw] by auto

end
