(* ===== verification/AppRead.thy ===== *)
theory AppRead
  imports App ProtocolValues
begin

text \<open>
  The paged reads: the signed boundary a page carries is valid and names the prefix it was
  made for, the cursors the service issues fit its own length limit, and a client that follows
  them reads the log of the first boundary whatever is committed meanwhile.
\<close>

section \<open>Signed boundaries\<close>

definition boundary_ok :: "snapshot_boundary \<Rightarrow> bool" where
  "boundary_ok b \<longleftrightarrow>
    HEX256 (sb_merkle_root b) \<and> HEX256 (sb_head b) \<and> sb_version b = sb_log_size b \<and>
    0 \<le> sb_log_size b \<and> sb_log_size b \<le> MAX_SAFE_INTEGER \<and> timestamp (sb_created_at b)"

lemma timestamp_shape: "timestamp t \<Longrightarrow> TIMESTAMP t \<and> length t = 20 \<and> (\<forall>c \<in> set t. 32 < c \<and> c < 127 \<and> c \<noteq> 34 \<and> c \<noteq> 92)"
proof -
  assume "timestamp t"
  then have "TIMESTAMP t" by (simp add: timestamp_def)
  then have l: "list_all2 shape_char (lit ''0000-00-00T00:00:00Z'') t" by (simp add: TIMESTAMP_def)
  have "32 < c \<and> c < 127 \<and> c \<noteq> 34 \<and> c \<noteq> 92" if "c \<in> set t" for c
  proof -
    obtain p where "p \<in> set (lit ''0000-00-00T00:00:00Z'')" "shape_char p c" using list_all2_witness [OF l \<open>c \<in> set t\<close>] by blast
    then show ?thesis by (auto simp: lit_def shape_char_def is_digit_def split: if_splits)
  qed
  with \<open>TIMESTAMP t\<close> list_all2_lengthD [OF l] show ?thesis by simp
qed

lemma hex256_plain: "HEX256 h \<Longrightarrow> length h = 64 \<and> (\<forall>c \<in> set h. 32 < c \<and> c < 127 \<and> c \<noteq> 34 \<and> c \<noteq> 92)"
  by (auto simp: HEX256_def is_hex_def is_digit_def)

lemma clean_plain: "\<forall>c \<in> set s. 32 < c \<and> c < 127 \<and> c \<noteq> 34 \<and> c \<noteq> 92 \<Longrightarrow> clean s"
  by (rule clean_low) auto

lemma snapshot_body_document:
  assumes "boundary_ok b"
  shows "document_ok 1 (JObj (snapshot_body b))"
proof -
  have "clean (sb_merkle_root b)" "clean (sb_head b)" "clean (sb_created_at b)"
    using assms timestamp_shape hex256_plain clean_plain by (auto simp: boundary_ok_def)
  then show ?thesis
    using assms clean_lit
    by (auto simp: document_ok_def snapshot_body_def ccj_leaves_JObj json_depth_JObj_le clean_def boundary_ok_def MAX_SAFE_INTEGER_def)
qed

lemma snapshot_valid:
  assumes "ed25519_ok E" "boundary_ok b"
  obtains m snap where "sign_record E key (snapshot_body b) = Inr snap"
    "snap = snapshot_body b @ [(lit ''sig'', sig_envelope E key m)]"
    "document_ok 2 (JObj snap)" "validate_snapshot (JObj snap) = Inr snap"
    "verify_signed E (public_pinned E key) snap" "carried_boundary snap = Inr b"
proof -
  have d: "document_ok 1 (JObj (snapshot_body b))" by (rule snapshot_body_document [OF assms(2)])
  have nosig: "lit ''sig'' \<notin> keys_of (snapshot_body b)" by (simp add: snapshot_body_def)
  have "document_ok MAX_JSON_DEPTH (JObj (snapshot_body b))" using d by (simp add: document_ok_def MAX_JSON_DEPTH_def)
  then obtain m where m: "canonical_bytes (snapshot_body b) = Inr m"
    using document_ok_canonical by (auto simp: canonical_bytes_def without_absent [OF nosig])
  define snap where "snap = snapshot_body b @ [(lit ''sig'', sig_envelope E key m)]"
  have "AList.update (lit ''sig'') (sig_envelope E key m) (snapshot_body b) = snap"
    using nosig by (simp add: update_fresh snap_def keys_of_def)
  then have s: "sign_record E key (snapshot_body b) = Inr snap"
    using m by (auto simp: sign_record_envelope without_absent [OF nosig])
  have "document_ok 1 (sig_envelope E key m)" using sig_envelope_ccj [of E key m] by (simp add: document_ok_def)
  moreover have "document_ok (Suc 1) (JObj (snapshot_body b))" using d by (simp add: document_ok_def)
  ultimately have doc: "document_ok 2 (JObj snap)"
    using document_ok_update [of 1 "snapshot_body b" "sig_envelope E key m" "''sig''"] \<open>AList.update _ _ _ = snap\<close>
    by (simp add: numeral_2_eq_2)
  have c: "\<exists>c. canonical_document (JObj snap) = Inr c"
    by (rule document_ok_canonical) (use doc in \<open>simp add: document_ok_def MAX_JSON_DEPTH_def\<close>)
  have "validate_snapshot (JObj snap) = Inr snap"
    using assms(2) c timestamp_shape validate_signature_envelope [OF assms(1), of key m]
    by (auto simp: validate_snapshot_def snap_def snapshot_body_def snapshot_fields_def boundary_ok_def get_str_def get_int_def
        py_eq_int_def canonicalize_validated_def bindE_def split: sum.splits)
  moreover have "carried_boundary snap = Inr b"
  proof -
    have "sb_created_at b \<noteq> []" using assms(2) timestamp_shape by (force simp: boundary_ok_def)
    then show ?thesis
      using assms(2)
      by (simp add: carried_boundary_def boundary_from_dict_def snap_def snapshot_body_def boundary_ok_def
          get_str_def get_int_def hex256_HEX256 insert_commute)
  qed
  ultimately show thesis using that s snap_def doc verify_signed_sign_record [OF assms(1) s] by blast
qed

lemma next_level_32: "b \<in> set (next_level xs) \<Longrightarrow> length b = 32"
  by (induction xs rule: next_level.induct) (auto simp: merkle_pair_hash_def)

lemma root_of_length: "xs \<noteq> [] \<Longrightarrow> \<forall>b \<in> set xs. length b = 32 \<Longrightarrow> length (root_of xs) = 32"
proof (induction xs rule: merkle_reduce.induct)
  case (1 xs)
  show ?case
  proof (cases "length xs > 1")
    case True
    then have "root_of xs = root_of (next_level xs)" by (simp add: root_of_def merkle_reduce.simps [of xs])
    then show ?thesis using 1(1) [OF True] True next_level_32 1(2) by auto
  next
    case False
    then show ?thesis using 1(2,3) by (auto simp: root_of_def merkle_reduce.simps [of xs])
  qed
qed

lemma boundary_spec_ok:
  assumes "db_ok d es" "n \<le> length es" "int n \<le> MAX_SAFE_INTEGER"
  shows "boundary_ok (boundary_spec (created_of d) es n)"
proof (cases "n = 0")
  case True
  have "timestamp (created_of d)"
    using assms(1) by (auto simp: db_ok_def ledgers_ok_def metadata_ok_def created_of_def split: option.splits)
  moreover have "HEX256 GENESIS" by (auto simp: GENESIS_def HEX256_def is_hex_def is_digit_def)
  ultimately show ?thesis by (simp add: True boundary_ok_def boundary_spec_def MAX_SAFE_INTEGER_def)
next
  case False
  let ?i = "n - 1"
  have i: "?i < length es" using False assms(2) by simp
  have "entry_ok (es ! ?i)" using assms(1) i by (auto simp: db_ok_def tables_ok_def)
  then have t: "timestamp (snd (es ! ?i))" by (simp add: entry_ok_def)
  have "HEX256 (hex x)" if "length x = 32" for x using that hex_is_hex by (auto simp: HEX256_def)
  moreover have "length (leaves es ! ?i) = 32" using i by (intro leaves_32 [of _ es]) simp
  moreover have "length (root_of (take n (leaves es))) = 32" using False assms(2) 
    by (intro root_of_length) (auto dest!: in_set_takeD leaves_32)
  ultimately show ?thesis using False assms(3) t by (simp add: boundary_ok_def boundary_spec_def)
qed



section \<open>Issued cursors fit the limit\<close>

text \<open>The length of a document, whatever the order of its keys.\<close>

primrec dump_size :: "json \<Rightarrow> nat" where
  "dump_size JNull = 4"
| "dump_size (JBool b) = (if b then 4 else 5)"
| "dump_size (JInt i) = length (int_text i)"
| "dump_size (JFloat t) = length t"
| "dump_size (JStr s) = length (quote s)"
| "dump_size (JArr xs) = 2 + sum_list (map dump_size xs) + (length xs - 1)"
| "dump_size (JObj kvs) =
    2 + sum_list (map (\<lambda>(k, n). length (quote k) + 1 + n) (map (map_prod id dump_size) kvs)) + (length kvs - 1)"

lemma length_join: "length (join xs) = sum_list (map length xs) + (length xs - 1)"
  by (induction xs rule: join.induct) auto

lemma sum_list_sort_key: "sum_list (map f (sort_key g xs)) = (sum_list (map f xs) :: nat)"
  by (metis mset_map mset_sort sum_mset_sum_list)

lemma length_dumps: "length (json_dumps b v) = dump_size v"
proof (induction v)
  case (JArr xs)
  then have "sum_list (map (length \<circ> json_dumps b) xs) = sum_list (map dump_size xs)"
    by (intro arg_cong [where f = sum_list]) simp
  then show ?case by (simp add: length_join)
next
  case (JObj kvs)
  let ?items = "map (map_prod id (json_dumps b)) kvs"
  let ?f = "\<lambda>p :: str \<times> str. length (quote (fst p)) + 1 + length (snd p)"
  let ?sum = "sum_list (map (\<lambda>(k, n). length (quote k) + 1 + n) (map (map_prod id dump_size) kvs))"
  have f: "length (join (map (\<lambda>(k, t). quote k @ 58 # t) xs)) = sum_list (map ?f xs) + (length xs - 1)" for xs
    by (simp add: length_join comp_def case_prod_beta)
  have "sum_list (map ?f ?items) = ?sum"
    using JObj by (intro arg_cong [where f = sum_list]) (auto simp: snds.simps)
  then have "length (join (map (\<lambda>(k, t). quote k @ 58 # t) (if b then sort_key fst ?items else ?items))) =
      ?sum + (length kvs - 1)"
    by (cases b) (simp_all only: f sum_list_sort_key length_sort length_map if_True if_False)
  then show ?case by (simp only: json_dumps.simps dump_size.simps Let_def length_append list.size)
qed simp_all

lemma quote_plain: "\<forall>c \<in> set s. 32 < c \<and> c < 127 \<and> c \<noteq> 34 \<and> c \<noteq> 92 \<Longrightarrow> length (quote s) = length s + 2"
proof -
  assume "\<forall>c \<in> set s. 32 < c \<and> c < 127 \<and> c \<noteq> 34 \<and> c \<noteq> 92"
  then have "concat (map esc_char s) = s" by (induction s) (auto simp: esc_char_def)
  then show ?thesis by (simp add: quote_def)
qed

lemma utf8_char_length: "length (utf8_char c) \<le> 4"
  by (simp add: utf8_char_def)

lemma b64encode_length: "3 * length (b64encode v) \<le> 4 * length v + 8"
  by (induction v rule: b64encode.induct) auto

lemma url64_length: "3 * length (url64 v) \<le> 4 * length v + 8"
proof -
  obtain s p where "url_shape (b64encode v) s p" "url64 v = map to_url s" using url64_shape by blast
  then show ?thesis using b64encode_length [of v] by (auto simp: url_shape_def)
qed

lemma utf8_length: "utf8_encode s = Inr b \<Longrightarrow> length b \<le> 4 * length s"
proof -
  assume "utf8_encode s = Inr b"
  then have b: "b = concat (map utf8_char s)" by (auto simp: utf8_encode_def split: if_splits)
  show ?thesis unfolding b
  proof (induction s)
    case (Cons c s)
    then show ?case using utf8_char_length [of c] by simp
  qed simp
qed

definition plain_text :: "str \<Rightarrow> bool" where
  "plain_text s \<longleftrightarrow> (\<forall>c \<in> set s. 32 < c \<and> c < 127 \<and> c \<noteq> 34 \<and> c \<noteq> 92)"

lemma b64_char_plain: "n < 64 \<Longrightarrow> 32 < b64_char n \<and> b64_char n < 127 \<and> b64_char n \<noteq> 34 \<and> b64_char n \<noteq> 92"
  by (auto simp: b64_char_def)

lemma b64encode_plain: "plain_text (b64encode v)"
  unfolding plain_text_def by (induction v rule: b64encode.induct) (auto simp: b64_char_plain)

lemma int_text_length: "0 \<le> i \<Longrightarrow> i \<le> MAX_SAFE_INTEGER \<Longrightarrow> length (int_text i) \<le> 16"
  using length_nat_text [of "nat i" 16] by (simp add: int_text_def MAX_SAFE_INTEGER_def nat_less_iff)

lemma plain_hex: "plain_text (sha256_hex m)" "plain_text (take n (sha256_hex m))"
  using hex_chars [of _ "sha256 m"] by (fastforce simp: plain_text_def sha256_hex_def dest!: in_set_takeD)+

lemma quote_lit [simp]: "plain_text (lit k) \<Longrightarrow> length (quote (lit k)) = length k + 2"
  by (simp add: quote_plain plain_text_def)

lemma cursor_document_size:
  assumes "ed25519_ok E" "boundary_ok b" "0 \<le> offset" "offset \<le> MAX_SAFE_INTEGER"
    "0 \<le> expires" "expires \<le> MAX_SAFE_INTEGER" "length d = 64" "plain_text d"
  shows "dump_size (JObj (cursor_document d (snapshot_body b @ [(lit ''sig'', sig_envelope E key m)]) offset expires)) \<le> 600"
proof -
  have q: "length (quote s) = length s + 2" if "plain_text s" for s using that by (simp add: quote_plain plain_text_def)
  have b: "length (quote (sb_merkle_root b)) = 66" "length (quote (sb_head b)) = 66" "length (quote (sb_created_at b)) = 22"
    using assms(2) hex256_plain timestamp_shape q by (auto simp: boundary_ok_def plain_text_def)
  have ints: "length (int_text (sb_version b)) \<le> 16" "length (int_text (sb_log_size b)) \<le> 16"
      "length (int_text offset) \<le> 16" "length (int_text expires) \<le> 16" "length (int_text 1) \<le> 16"
    using assms by (auto simp: boundary_ok_def MAX_SAFE_INTEGER_def intro!: int_text_length)
  have "length (sign E key m) \<le> 88"
    using assms(1) b64encode_length [of "ed_sign E key m"] by (simp add: sign_def ed25519_ok_def)
  then have sg: "length (quote (sign E key m)) \<le> 90" by (simp add: q sign_def b64encode_plain)
  have kid: "length (quote (key_id E key)) = 18" by (simp add: q key_id_def plain_hex)
  have keys: "plain_text (lit k)" if "k \<in> {''query'', ''snapshot'', ''offset'', ''expires_at'', ''schema_version'', ''merkle_root'',
      ''log_size'', ''head'', ''version'', ''created_at'', ''sig'', ''key_id'', ''algorithm'', ''signature'', ''ed25519''}" for k
    using that by (auto simp: plain_text_def lit_def)
  show ?thesis
    using b ints sg kid assms(7,8)
    by (simp add: cursor_document_def snapshot_body_def sig_envelope_def keys q)
qed


lemma encode_cursor_fits:
  assumes "ed25519_ok E" "boundary_ok b" "sign_record E k0 (snapshot_body b) = Inr snap"
    "query_digest endpoint query = Inr digest" "0 \<le> offset" "offset \<le> MAX_SAFE_INTEGER"
    "0 \<le> issued" "issued + CURSOR_TTL_SECONDS \<le> MAX_SAFE_INTEGER"
  obtains cursor where "encode_cursor E key endpoint query snap offset issued = Inr cursor" "length cursor \<le> 4096" "cursor \<noteq> []"
proof -
  let ?doc = "cursor_document digest snap offset (issued + CURSOR_TTL_SECONDS)"
  obtain m where snap: "snap = snapshot_body b @ [(lit ''sig'', sig_envelope E k0 m)]" and sd: "document_ok 2 (JObj snap)"
    using snapshot_valid [OF assms(1,2), of k0] assms(3) by (metis sum.inject(2))
  obtain x where dg: "digest = sha256_hex x" using assms(4) by (auto simp: query_digest_def bindE_Inr_iff)
  have "clean digest" using clean_plain [of digest] plain_hex(1) [of x] by (simp add: dg plain_text_def)
  then have "document_ok 3 (JObj ?doc)"
    using sd assms(5-8) clean_lit [of "''query''"] clean_lit [of "''snapshot''"] clean_lit [of "''offset''"] clean_lit [of "''expires_at''"]
    by (auto simp: cursor_document_def document_ok_def ccj_leaves_JObj json_depth_JObj_le clean_def CURSOR_TTL_SECONDS_def)
  then obtain payload where p: "canonical_document (JObj ?doc) = Inr payload"
    using document_ok_canonical [of "JObj ?doc"] by (auto simp: document_ok_def MAX_JSON_DEPTH_def)
  have "dump_size (JObj ?doc) \<le> 600"
    unfolding snap using assms by (intro cursor_document_size) (auto simp: dg plain_hex CURSOR_TTL_SECONDS_def)
  moreover have "length payload \<le> 4 * length (json_dumps True (JObj ?doc))"
    using p utf8_length by (simp only: canonical_document_def bindE_Inr_iff) blast
  ultimately have "length payload \<le> 2400" by (simp only: length_dumps)
  then have "3 * length (url64 payload) \<le> 9608" using url64_length [of payload] by simp
  moreover have "3 * length (url64 (ed_sign E key payload)) \<le> 264"
    using url64_length [of "ed_sign E key payload"] assms(1) by (simp add: ed25519_ok_def)
  ultimately have "length (url64 payload @ 46 # url64 (ed_sign E key payload)) \<le> 4096" by simp
  then show thesis
    using that assms(4) p by (simp add: encode_cursor_def sign_def)
qed

lemma canonical_document_cong:
  assumes "canonical_document v = Inr b" "sort_json v = sort_json w"
  shows "canonical_document w = Inr b"
proof -
  have "json_depth v = json_depth w" "ccj_leaves v = ccj_leaves w"
    using assms(2) json_depth_sort_json [of v] json_depth_sort_json [of w] ccj_leaves_sort_json [of v] ccj_leaves_sort_json [of w]
    by simp_all
  then show ?thesis
    using assms by (simp add: canonical_document_def bindE_Inr_iff validate_ccj_top json_dumps_sorted)
qed

text \<open>A cursor page re-encodes the boundary it decoded, whose keys are sorted: the cursor is the same.\<close>

lemma encode_cursor_sorted:
  assumes "encode_cursor E key endpoint query snap offset issued = Inr cursor"
  shows "encode_cursor E key endpoint query (sorted_record snap) offset issued = Inr cursor"
  using assms
proof (rule encode_cursor_Inr)
  fix digest payload
  let ?doc = "\<lambda>s. JObj (cursor_document digest s offset (issued + CURSOR_TTL_SECONDS))"
  assume "query_digest endpoint query = Inr digest" "canonical_document (?doc snap) = Inr payload"
    "cursor = url64 payload @ 46 # url64 (ed_sign E key payload)"
  moreover have "sort_json (JObj (sorted_record snap)) = sort_json (JObj snap)"
    using sort_json_idem [of "JObj snap"] by (simp only: sort_json_JObj)
  then have "sort_json (?doc snap) = sort_json (?doc (sorted_record snap))" by (simp add: cursor_document_def)
  ultimately show ?thesis
    using canonical_document_cong [of "?doc snap" payload "?doc (sorted_record snap)"]
    by (simp add: encode_cursor_def sign_def)
qed



section \<open>Following cursors\<close>

text \<open>A clock within the safe integers, and a store at or after the boundary of \<open>es\<close>.\<close>

definition clock_ok :: "int \<Rightarrow> bool" where
  "clock_ok t \<longleftrightarrow> 0 \<le> t \<and> t + CURSOR_TTL_SECONDS \<le> MAX_SAFE_INTEGER"

text \<open>A store at or after the boundary of \<open>es\<close>.\<close>

definition at_boundary :: "str \<Rightarrow> entry list \<Rightarrow> store \<Rightarrow> bool" where
  "at_boundary created es s \<longleftrightarrow> (\<exists>es'. db_ok (st_db s) (es @ es')) \<and> created_of (st_db s) = created \<and>
    int (length es) \<le> MAX_SAFE_INTEGER"

definition served_snapshot :: "'k service \<Rightarrow> str \<Rightarrow> entry list \<Rightarrow> obj \<Rightarrow> bool" where
  "served_snapshot sv created es snap \<longleftrightarrow>
    sign_record (sv_ed25519 sv) (sv_signing_key sv) (snapshot_body (boundary_spec created es (length es))) = Inr snap"

lemma at_boundary_ok: "at_boundary created es s \<Longrightarrow> boundary_ok (boundary_spec created es (length es))"
  using boundary_spec_ok [of "st_db s" _ "length es"] by (fastforce simp: at_boundary_def boundary_spec_append)

lemma at_boundary_available:
  assumes "at_boundary created es s"
  shows "boundary_available (boundary_spec created es (length es)) s = Inr True"
proof -
  obtain es' where d: "db_ok (st_db s) (es @ es')" "created_of (st_db s) = created" using assms by (auto simp: at_boundary_def)
  then have "snapshot_boundary (Some (int (length es))) s = Inr (boundary_spec created es (length es))"
    by (simp add: snapshot_boundary_def snapshot_boundary_ok boundary_spec_append)
  then show ?thesis by (simp add: boundary_available_def)
qed

lemma accepted_own_key: "public_pinned (sv_ed25519 sv) (sv_signing_key sv) \<in> set (accepted_signing_keys sv)"
  by (simp add: accepted_signing_keys_def dict_fromkeys_def)

lemma issued_cursor_accepted:
  assumes ok: "ed25519_ok (sv_ed25519 sv)" "at_boundary created es s" "served_snapshot sv created es snap"
    and c: "encode_cursor (sv_ed25519 sv) (sv_signing_key sv) endpoint query snap (int offset) earlier = Inr cursor"
      "length cursor \<le> 4096" "now \<le> earlier + CURSOR_TTL_SECONDS"
  shows "cursor_state (sv_ed25519 sv) (accepted_signing_keys sv) endpoint query now cursor s =
    Inr (int offset, boundary_spec created es (length es), sorted_record snap)"
proof -
  let ?b = "boundary_spec created es (length es)" and ?key = "public_pinned (sv_ed25519 sv) (sv_signing_key sv)"
  have "document_ok 2 (JObj snap) \<and> validate_snapshot (JObj snap) = Inr snap \<and>
      verify_signed (sv_ed25519 sv) ?key snap \<and> carried_boundary snap = Inr ?b"
    using snapshot_valid [OF ok(1) at_boundary_ok [OF ok(2)], of "sv_signing_key sv"] ok(3)
    unfolding served_snapshot_def by (metis sum.inject(2))
  then have snap: "dict_ok (JObj snap)" "validate_snapshot (JObj snap) = Inr snap"
    "verify_signed (sv_ed25519 sv) ?key snap" "carried_boundary snap = Inr ?b"
    by (simp_all add: document_ok_def)
  from decode_encode_cursor [OF ok(1) accepted_own_key c(1,2) snap(1,2) accepted_own_key snap(3,4)
      at_boundary_available [OF ok(2)] _ c(3)] show ?thesis by (simp add: cursor_state_def)
qed

text \<open>
  A client that asks a paged read and follows \<open>next_cursor\<close> until there is none. Page \<open>i\<close> is
  served by the store \<open>st i\<close> at time \<open>clk i\<close>; the fuel bounds the number of pages.
\<close>

fun follow_pages ::
  "string \<Rightarrow> (str \<Rightarrow> int \<Rightarrow> store \<Rightarrow> failure + obj) \<Rightarrow> (nat \<Rightarrow> int) \<Rightarrow> (nat \<Rightarrow> store) \<Rightarrow> nat \<Rightarrow> nat \<Rightarrow> str \<Rightarrow>
   (failure + json list) option" where
  "follow_pages key request clk st 0 i cursor = None"
| "follow_pages key request clk st (Suc fuel) i cursor =
    (case request cursor (clk i) (st i) of
       Inl f \<Rightarrow> Some (Inl f)
     | Inr reply \<Rightarrow>
        (let page = (case map_of reply (lit key) of Some (JArr xs) \<Rightarrow> xs | _ \<Rightarrow> []) in
         case map_of reply (lit ''next_cursor'') of
           Some (JStr c) \<Rightarrow>
             (case follow_pages key request clk st fuel (Suc i) c of
                Some (Inr rest) \<Rightarrow> Some (Inr (page @ rest)) | other \<Rightarrow> other)
         | _ \<Rightarrow> Some (Inr page)))"

text \<open>
  The contract of a paged read: an admissible request has a digest and a positive limit, the
  store's page at a boundary is a slice of one list that the boundary determines, the first page is
  a page at the live boundary, and the handler answers with what \<open>select_page\<close> and
  \<open>next_cursor\<close> deliver.
\<close>

locale paged_read =
  fixes endpoint :: string
    and key :: string
    and request_ok :: "'k service \<Rightarrow> 'q \<Rightarrow> bool"
    and query :: "'q \<Rightarrow> obj"
    and page_size :: "'q \<Rightarrow> nat"
    and page :: "'q \<Rightarrow> nat \<Rightarrow> int option \<Rightarrow> snapshot_boundary option \<Rightarrow> store \<Rightarrow> ('r list \<times> bool) res"
    and encode :: "'r \<Rightarrow> json"
    and view :: "'q \<Rightarrow> entry list \<Rightarrow> 'r list"
    and get :: "'k service \<Rightarrow> 'q \<Rightarrow> str \<Rightarrow> int \<Rightarrow> int \<Rightarrow> store \<Rightarrow> failure + obj"
  assumes honest_key: "request_ok sv a \<Longrightarrow> ed25519_ok (sv_ed25519 sv)"
    and page_size_positive: "request_ok sv a \<Longrightarrow> 1 \<le> page_size a"
    and query_digested: "request_ok sv a \<Longrightarrow> \<exists>digest. query_digest endpoint (query a) = Inr digest"
    and view_bounded: "length (view a es) \<le> length es"
    and page_at: "request_ok sv a \<Longrightarrow> at_boundary created es s \<Longrightarrow> int offset \<le> MAX_SAFE_INTEGER \<Longrightarrow>
      page a offset None (Some (boundary_spec created es (length es))) s =
        Inr (take (page_size a) (drop offset (view a es)), length (view a es) > offset + page_size a)"
    and page_live: "request_ok sv a \<Longrightarrow> store_ok s es \<Longrightarrow>
      page a 0 (Some (int (length es))) None s = page a 0 None (Some (boundary_spec (created_of (st_db s)) es (length es))) s"
    and get_page: "request_ok sv a \<Longrightarrow>
      select_page sv endpoint (query a) cursor now s (\<lambda>offset max_seq boundary. page a offset max_seq boundary s) =
        Inr (offset, shown, found, remains) \<Longrightarrow>
      next_cursor sv endpoint (query a) shown (offset + int (length found)) remains issued = Inr nx \<Longrightarrow>
      get sv a cursor now issued s =
        Inr [(lit key, JArr (map encode found)), (lit ''next_cursor'', nx), (lit ''boundary'', JObj shown)]"
    and key_differs: "key \<noteq> ''next_cursor''"
begin

text \<open>What a page at \<open>offset\<close> answers, and the cursor it hands out.\<close>

definition page_reply :: "'k service \<Rightarrow> 'q \<Rightarrow> entry list \<Rightarrow> obj \<Rightarrow> nat \<Rightarrow> int \<Rightarrow> obj \<Rightarrow> obj \<Rightarrow> bool" where
  "page_reply sv a es snap offset issued shown reply \<longleftrightarrow>
    (\<exists>next_cursor. reply =
        [(lit key, JArr (map encode (take (page_size a) (drop offset (view a es))))),
         (lit ''next_cursor'', next_cursor), (lit ''boundary'', JObj shown)] \<and>
       (if length (view a es) > offset + page_size a
        then \<exists>c. next_cursor = JStr c \<and> length c \<le> 4096 \<and> c \<noteq> [] \<and>
          encode_cursor (sv_ed25519 sv) (sv_signing_key sv) endpoint (query a) snap (int (offset + page_size a)) issued = Inr c
        else next_cursor = JNull))"

lemma issue_next:
  assumes "request_ok sv a" "at_boundary created es s" "served_snapshot sv created es snap" "clock_ok issued"
    "length (view a es) > offset + page_size a"
  obtains c where "length c \<le> 4096" "c \<noteq> []"
    "encode_cursor (sv_ed25519 sv) (sv_signing_key sv) endpoint (query a) snap (int (offset + page_size a)) issued = Inr c"
proof -
  obtain digest where d: "query_digest endpoint (query a) = Inr digest" using query_digested [OF assms(1)] by blast
  have c: "0 \<le> issued" "issued + CURSOR_TTL_SECONDS \<le> MAX_SAFE_INTEGER" using assms(4) by (simp_all add: clock_ok_def)
  have "offset + page_size a \<le> length es" using assms(5) view_bounded [of a es] by linarith
  then have o: "int (offset + page_size a) \<le> MAX_SAFE_INTEGER" using assms(2) unfolding at_boundary_def by linarith
  from encode_cursor_fits [OF honest_key [OF assms(1)] at_boundary_ok [OF assms(2)] assms(3) [unfolded served_snapshot_def] d
      of_nat_0_le_iff o c] that
  show thesis by blast
qed

lemma get_reply:
  assumes ok: "request_ok sv a" "at_boundary created es s" "served_snapshot sv created es snap" "clock_ok issued"
    and shown: "shown = snap \<or> shown = sorted_record snap"
    and sel: "select_page sv endpoint (query a) cursor now s (\<lambda>offset max_seq boundary. page a offset max_seq boundary s) =
      Inr (int offset, shown, take (page_size a) (drop offset (view a es)), length (view a es) > offset + page_size a)"
  shows "\<exists>reply. get sv a cursor now issued s = Inr reply \<and> page_reply sv a es snap offset issued shown reply"
proof -
  let ?found = "take (page_size a) (drop offset (view a es))"
  have "\<exists>nx. next_cursor sv endpoint (query a) shown (int offset + int (length ?found))
        (length (view a es) > offset + page_size a) issued = Inr nx \<and>
      page_reply sv a es snap offset issued shown
        [(lit key, JArr (map encode ?found)), (lit ''next_cursor'', nx), (lit ''boundary'', JObj shown)]"
  proof (cases "length (view a es) > offset + page_size a")
    case False
    then show ?thesis by (simp add: page_reply_def next_cursor_def)
  next
    case m: True
    from issue_next [OF ok m] obtain c where c: "length c \<le> 4096" "c \<noteq> []"
      "encode_cursor (sv_ed25519 sv) (sv_signing_key sv) endpoint (query a) snap (int (offset + page_size a)) issued = Inr c"
      by blast
    have "int offset + int (length ?found) = int (offset + page_size a)" using m by simp
    then have "next_cursor sv endpoint (query a) shown (int offset + int (length ?found)) True issued = Inr (JStr c)"
      using c(3) encode_cursor_sorted [OF c(3)] shown by (auto simp only: next_cursor_def raised_def sum.case bindE_simps if_True)
    then show ?thesis using m c by (auto simp: page_reply_def)
  qed
  with get_page [OF ok(1) sel] show ?thesis by blast
qed

lemma get_first:
  assumes ok: "request_ok sv a" "store_ok s es" "int (length es) \<le> MAX_SAFE_INTEGER" "clock_ok issued"
    and created: "created = created_of (st_db s)"
  obtains snap reply where "get sv a [] now issued s = Inr reply"
    "served_snapshot sv created es snap" "page_reply sv a es snap 0 issued snap reply"
proof -
  have d: "db_ok (st_db s) es" using ok(2) by (simp add: store_ok_def)
  let ?b = "boundary_spec created es (length es)"
  have "db_ok (st_db s) (es @ [])" using d by simp
  then have at: "at_boundary created es s" using ok(3) created unfolding at_boundary_def by blast
  obtain snap where snap: "sign_record (sv_ed25519 sv) (sv_signing_key sv) (snapshot_body ?b) = Inr snap"
    by (rule snapshot_valid [OF honest_key [OF ok(1)] at_boundary_ok [OF at]])
  have sb: "snapshot_boundary None s = Inr ?b" "sb_log_size ?b = int (length es)"
    using created by (simp_all add: snapshot_boundary_def snapshot_boundary_ok [OF d] boundary_spec_size)
  have sv: "served_snapshot sv created es snap" using snap by (simp add: served_snapshot_def)
  have "page a 0 (Some (int (length es))) None s =
      Inr (take (page_size a) (drop 0 (view a es)), length (view a es) > 0 + page_size a)"
    using page_live [OF ok(1,2)] page_at [OF ok(1) at, of 0] created by (simp add: MAX_SAFE_INTEGER_def)
  then have "select_page sv endpoint (query a) [] now s (\<lambda>offset max_seq boundary. page a offset max_seq boundary s) =
      Inr (int 0, snap, take (page_size a) (drop 0 (view a es)), length (view a es) > 0 + page_size a)"
    using sb snap by (simp add: select_page_def build_snapshot_def raised_def)
  from get_reply [OF ok(1) at sv ok(4) disjI1 [OF refl] this] that sv show thesis by blast
qed

lemma get_next:
  assumes ok: "request_ok sv a" "at_boundary created es s" "served_snapshot sv created es snap" "clock_ok issued"
    and c: "encode_cursor (sv_ed25519 sv) (sv_signing_key sv) endpoint (query a) snap (int offset) earlier = Inr cursor"
      "length cursor \<le> 4096" "cursor \<noteq> []" "now \<le> earlier + CURSOR_TTL_SECONDS"
    and o: "int offset \<le> MAX_SAFE_INTEGER"
  obtains reply where "get sv a cursor now issued s = Inr reply" "page_reply sv a es snap offset issued (sorted_record snap) reply"
proof -
  note st = issued_cursor_accepted [OF honest_key [OF ok(1)] ok(2,3) c(1,2,4)]
  have "select_page sv endpoint (query a) cursor now s (\<lambda>offset max_seq boundary. page a offset max_seq boundary s) =
      Inr (int offset, sorted_record snap, take (page_size a) (drop offset (view a es)), length (view a es) > offset + page_size a)"
    using c(3) st page_at [OF ok(1,2) o] by (simp add: select_page_def cursor_page_def)
  from get_reply [OF ok disjI2 [OF refl] this] that show thesis by blast
qed

abbreviation follow :: "'k service \<Rightarrow> 'q \<Rightarrow> (nat \<Rightarrow> int) \<Rightarrow> (nat \<Rightarrow> store) \<Rightarrow> nat \<Rightarrow> nat \<Rightarrow> str \<Rightarrow> (failure + json list) option" where
  "follow sv a \<equiv> follow_pages key (\<lambda>cursor t s. get sv a cursor t t s)"

lemma follow_step:
  assumes "get sv a cursor (clk i) (clk i) (st i) = Inr reply" "page_reply sv a es snap offset (clk i) shown reply"
    and rest: "\<And>c. length (view a es) > offset + page_size a \<Longrightarrow> length c \<le> 4096 \<Longrightarrow> c \<noteq> [] \<Longrightarrow>
      encode_cursor (sv_ed25519 sv) (sv_signing_key sv) endpoint (query a) snap (int (offset + page_size a)) (clk i) = Inr c \<Longrightarrow>
      follow sv a clk st fuel (Suc i) c = Some (Inr (map encode (drop (offset + page_size a) (view a es))))"
  shows "follow sv a clk st (Suc fuel) i cursor = Some (Inr (map encode (drop offset (view a es))))"
proof (cases "length (view a es) > offset + page_size a")
  case True
  with assms(2) obtain c where r: "reply = [(lit key, JArr (map encode (take (page_size a) (drop offset (view a es))))),
        (lit ''next_cursor'', JStr c), (lit ''boundary'', JObj shown)]" and c: "length c \<le> 4096" "c \<noteq> []"
      "encode_cursor (sv_ed25519 sv) (sv_signing_key sv) endpoint (query a) snap (int (offset + page_size a)) (clk i) = Inr c"
    by (auto simp: page_reply_def)
  have "take (page_size a) (drop offset (view a es)) @ drop (offset + page_size a) (view a es) = drop offset (view a es)"
    by (metis add.commute append_take_drop_id drop_drop)
  then have "map encode (take (page_size a) (drop offset (view a es))) @ map encode (drop (offset + page_size a) (view a es)) =
      map encode (drop offset (view a es))" by (metis map_append)
  then show ?thesis using assms(1) rest [OF True c] key_differs by (simp add: r)
next
  case False
  with assms(2) have "reply = [(lit key, JArr (map encode (take (page_size a) (drop offset (view a es))))),
        (lit ''next_cursor'', JNull), (lit ''boundary'', JObj shown)]"
    by (auto simp: page_reply_def)
  then show ?thesis using assms(1) False key_differs by simp
qed

lemma follow_from:
  assumes ok: "request_ok sv a" "\<And>i. at_boundary created es (st i)" "served_snapshot sv created es snap"
    "\<And>i. clock_ok (clk i)" "\<And>i. clk (Suc i) \<le> clk i + CURSOR_TTL_SECONDS"
  shows "length (view a es) > offset \<Longrightarrow> length (view a es) < offset + fuel \<Longrightarrow> length cursor \<le> 4096 \<Longrightarrow> cursor \<noteq> [] \<Longrightarrow>
    encode_cursor (sv_ed25519 sv) (sv_signing_key sv) endpoint (query a) snap (int offset) (clk i) = Inr cursor \<Longrightarrow>
    follow sv a clk st fuel (Suc i) cursor = Some (Inr (map encode (drop offset (view a es))))"
proof (induction fuel arbitrary: offset i cursor)
  case (Suc fuel)
  have "int offset \<le> MAX_SAFE_INTEGER"
    using Suc.prems(1) ok(2) [of 0] view_bounded [of a es] by (simp add: at_boundary_def)
  from get_next [OF ok(1,2,3,4) Suc.prems(5,3,4) ok(5) this] obtain reply where
    "get sv a cursor (clk (Suc i)) (clk (Suc i)) (st (Suc i)) = Inr reply"
    "page_reply sv a es snap offset (clk (Suc i)) (sorted_record snap) reply" by blast
  moreover have "1 \<le> page_size a" by (rule page_size_positive [OF ok(1)])
  ultimately show ?case
    using Suc.IH [of "offset + page_size a"] Suc.prems(2) by (intro follow_step) simp_all
qed simp

text \<open>The whole list of the first boundary, whatever is committed meanwhile.\<close>

lemma follow_all:
  assumes ok: "request_ok sv a" "store_ok (st 0) es" "int (length es) \<le> MAX_SAFE_INTEGER"
    "\<And>i. at_boundary (created_of (st_db (st 0))) es (st i)" "\<And>i. clock_ok (clk i)"
    "\<And>i. clk (Suc i) \<le> clk i + CURSOR_TTL_SECONDS"
  shows "follow sv a clk st (Suc (length es)) 0 [] = Some (Inr (map encode (view a es)))"
proof -
  obtain snap reply where r: "get sv a [] (clk 0) (clk 0) (st 0) = Inr reply"
    "served_snapshot sv (created_of (st_db (st 0))) es snap" "page_reply sv a es snap 0 (clk 0) snap reply"
    by (rule get_first [OF ok(1,2,3,5) refl])
  have "1 \<le> page_size a" by (rule page_size_positive [OF ok(1)])
  moreover have "length (view a es) \<le> length es" by (rule view_bounded)
  ultimately have "follow sv a clk st (Suc (length es)) 0 [] = Some (Inr (map encode (drop 0 (view a es))))"
    using follow_from [where st = st and clk = clk and offset = "page_size a" and fuel = "length es", OF ok(1,4) r(2) ok(5,6)]
    by (intro follow_step [where st = st and clk = clk and i = 0, OF r(1,3)]) simp_all
  then show ?thesis by simp
qed

end


section \<open>The log\<close>

text \<open>A service with an honest key, and a query within the safe integers.\<close>

definition log_request_ok :: "'k service \<Rightarrow> log_args \<Rightarrow> bool" where
  "log_request_ok sv a \<longleftrightarrow>
    ed25519_ok (sv_ed25519 sv) \<and> 0 \<le> g_since a \<and> g_since a \<le> MAX_SAFE_INTEGER \<and> 1 \<le> g_limit a \<and> g_limit a \<le> MAX_PAGE_SIZE"

lemma at_boundary_page:
  assumes "at_boundary created es s" "bind_ints [since, int limit + 1, int offset] = Inr ()"
  shows "log_page since limit offset None (Some (boundary_spec created es (length es))) (st_db s) =
    Inr (take limit (drop offset (view_between es since (length es))),
         length (view_between es since (length es)) > offset + limit)"
proof -
  obtain es' where d: "db_ok (st_db s) (es @ es')" "created_of (st_db s) = created" using assms(1) by (auto simp: at_boundary_def)
  show ?thesis
    using log_page_ok [OF d(1) _ assms(2), of "length es"] by (simp add: d(2) boundary_spec_append view_between_append)
qed

lemma log_query_digest:
  assumes "log_request_ok sv a"
  shows "\<exists>digest. query_digest ''log'' (log_query a) = Inr digest"
proof -
  have "document_ok 2 (JObj [(lit ''endpoint'', JStr (lit ''log'')), (lit ''query'', JObj (log_query a))])"
    using assms clean_lit [of "''endpoint''"] clean_lit [of "''query''"] clean_lit [of "''since''"] clean_lit [of "''limit''"] clean_lit [of "''log''"]
    by (auto simp: document_ok_def log_query_def log_request_ok_def ccj_leaves_JObj json_depth_JObj_le clean_def
        MAX_PAGE_SIZE_def MAX_SAFE_INTEGER_def)
  then show ?thesis
    using document_ok_canonical [of "JObj [(lit ''endpoint'', JStr (lit ''log'')), (lit ''query'', JObj (log_query a))]"]
    by (auto simp: query_digest_def document_ok_def MAX_JSON_DEPTH_def)
qed

lemma bind_page:
  "log_request_ok sv a \<Longrightarrow> int offset \<le> MAX_SAFE_INTEGER \<Longrightarrow>
   bind_ints [g_since a, int (nat (g_limit a)) + 1, int offset] = Inr ()"
  by (auto simp: bind_ints_def log_request_ok_def MAX_PAGE_SIZE_def MAX_SAFE_INTEGER_def)

lemma view_length: "length (view_between es since n) \<le> n"
  using length_filter_le [of "\<lambda>i. since < int (i + 1)" "[0..<n]"] by (simp add: view_between_def)

definition read_log :: "'k service \<Rightarrow> log_args \<Rightarrow> str \<Rightarrow> int \<Rightarrow> int \<Rightarrow> store \<Rightarrow> failure + obj" where
  "read_log sv a cursor now issued s = get_log sv [] (a\<lparr>g_cursor := cursor\<rparr>) now issued s s"

definition follow_log ::
  "'k service \<Rightarrow> log_args \<Rightarrow> (nat \<Rightarrow> int) \<Rightarrow> (nat \<Rightarrow> store) \<Rightarrow> nat \<Rightarrow> nat \<Rightarrow> str \<Rightarrow> (failure + json list) option" where
  "follow_log sv a = follow_pages ''entries'' (\<lambda>cursor t s. read_log sv a cursor t t s)"

interpretation log_pages: paged_read "''log''" "''entries''" log_request_ok log_query "\<lambda>a. nat (g_limit a)"
  "\<lambda>a offset max_seq boundary s. log_page (g_since a) (nat (g_limit a)) offset max_seq boundary (st_db s)"
  encode_entry "\<lambda>a es. view_between es (g_since a) (length es)" read_log
proof (unfold_locales, goal_cases)
  case (1 sv a)
  then show ?case by (simp add: log_request_ok_def)
next
  case (2 sv a)
  then show ?case unfolding log_request_ok_def by linarith
next
  case (3 sv a)
  then show ?case by (rule log_query_digest)
next
  case (4 a es)
  then show ?case by (rule view_length)
next
  case (5 sv a created es s offset)
  then show ?case using at_boundary_page [OF 5(2) bind_page [OF 5(1,3)]] by simp
next
  case (6 sv a s es)
  then have d: "db_ok (st_db s) es" by (simp add: store_ok_def)
  then show ?case by (simp add: log_page_def page_boundary_ok [OF d] page_boundary_locked_def snapshot_boundary_ok [OF d])
next
  case (7 sv a cursor now s offset shown found remains issued nx)
  moreover have "log_query (a\<lparr>g_cursor := cursor\<rparr>) = log_query a" by (simp add: log_query_def)
  ultimately show ?case by (simp add: read_log_def get_log_def paged_def log_request_ok_def check_limit_def)
next
  case 8
  then show ?case by simp
qed

lemma follow_log_all:
  assumes "log_request_ok sv a" "store_ok (st 0) es" "int (length es) \<le> MAX_SAFE_INTEGER"
    "\<And>i. at_boundary (created_of (st_db (st 0))) es (st i)" "\<And>i. clock_ok (clk i)"
    "\<And>i. clk (Suc i) \<le> clk i + CURSOR_TTL_SECONDS"
  shows "follow_log sv a clk st (Suc (length es)) 0 [] = Some (Inr (map encode_entry (view_between es (g_since a) (length es))))"
  unfolding follow_log_def by (rule log_pages.follow_all [where st = st and clk = clk, OF assms])

lemma boundary_available_spec:
  assumes "store_ok s es" "boundary_available b s = Inr True"
  shows "\<exists>n \<le> length es. b = boundary_spec (created_of (st_db s)) es n"
proof -
  have d: "db_ok (st_db s) es" using assms(1) by (simp add: store_ok_def)
  have "snapshot_boundary_locked (Some (sb_log_size b)) (st_db s) = Inr b"
    using assms(2) by (auto simp: boundary_available_def snapshot_boundary_def split: sum.splits if_splits)
  then show ?thesis using snapshot_boundary_ok [OF d, of "Some (sb_log_size b)"] 
    by (intro exI [of _ "nat (sb_log_size b)"]) (auto simp: Let_def split: if_splits)
qed

end
