(* ===== verification/AppErrors.thy ===== *)
theory AppErrors
  imports AppSubmit AppRead
begin

text \<open>
  The failure side of the service: which answers a request that is not admitted can get, what a
  refused startup checkpoint leaves running, and what an oversized \<open>since\<close> does. With them
  the converse: a snapshot the registry has served is a checkpoint it accepts later.
\<close>

section \<open>Answers to a request that is not admitted\<close>

fun refusal :: "failure \<Rightarrow> bool" where
  "refusal (APIError status ecode retry) \<longleftrightarrow>
    (status, ecode) \<in> {(415, ''unsupported_media_type''), (413, ''request_too_large''), (503, ''request_timeout''),
      (401, ''invalid_token''), (400, ''invalid_json''), (400, ''invalid_record''), (400, ''invalid_signature'')} \<and>
      retry = None \<or>
    (status, ecode) = (429, ''rate_limited'') \<and> retry \<noteq> None"
| "refusal (Raised e) \<longleftrightarrow> e = TypeError \<or> is_ValueError e"

lemma check_headers_refusal: "check_headers rq = Inl f \<Longrightarrow> refusal f"
  by (auto simp: check_headers_def raised_def declared_too_large_def bindE_Inl_iff
      split: if_splits option.splits sum.splits)

lemma read_request_body_refusal: "read_request_body limit n pieces ended = Inl f \<Longrightarrow> refusal f"
  by (induction pieces arbitrary: n) (auto simp: bindE_Inl_iff split: if_splits)

lemma utf8_encode_error: "utf8_encode s = Inl e \<Longrightarrow> e = UnicodeError"
  by (auto simp: utf8_encode_def split: if_splits)

lemma authenticate_refusal: "authenticate tokens header = Inl f \<Longrightarrow> refusal f"
  by (auto simp: authenticate_def invalid_token_def resolve_def raised_def bindE_Inl_iff
      dest!: utf8_encode_error split: if_splits option.splits sum.splits)

lemma parse_record_refusal: "parse_record raw = Inl f \<Longrightarrow> refusal f"
  using parse_record_errors by fastforce

lemma submit_refused:
  assumes "\<nexists>a r. admitted sv rq t l a r"
  shows "\<exists>f l'. submit sv rq t (l, s) = (Inl f, (l', s)) \<and> refusal f"
proof (cases "bindE (check_headers rq) (\<lambda>_.
      bindE (read_request_body MAX_BODY_BYTES 0 (body_chunks rq) (body_complete rq)) (\<lambda>raw.
      bindE (authenticate (sv_tokens sv) (h_authorization rq)) (\<lambda>a. Inr (raw, a))))")
  case (Inl f)
  then have "refusal f"
    using check_headers_refusal read_request_body_refusal authenticate_refusal by (auto simp: bindE_Inl_iff)
  with Inl show ?thesis by (simp add: submit_def)
next
  case (Inr x)
  obtain raw a where x: "x = (raw, a)" by force
  obtain decision l' where al: "allow (lit ''auditor:'' @ auditor_id a) (k_limiter t) l = (decision, l')" by force
  have ok: "check_headers rq = Inr ()"
      "read_request_body MAX_BODY_BYTES 0 (body_chunks rq) (body_complete rq) = Inr raw"
      "authenticate (sv_tokens sv) (h_authorization rq) = Inr a"
    using Inr by (auto simp: x bindE_Inr_iff)
  show ?thesis
  proof (cases "allowed decision")
    case False
    then show ?thesis using Inr by (simp add: submit_def x al)
  next
    case True
    then have "\<not> (\<exists>r. parse_record raw = Inr r \<and> verify_signed (sv_ed25519 sv) (public_key a) r)"
      using assms ok al by (auto simp: admitted_def)
    then have "\<exists>f. bindE (parse_record raw) (\<lambda>record.
        bindE (guardE (verify_signed (sv_ed25519 sv) (public_key a) record) (APIError 400 ''invalid_signature'' None))
          (\<lambda>_. Inr record)) = Inl f \<and> refusal f"
      by (cases "parse_record raw") (auto simp: bindE_Inl_iff dest: parse_record_refusal)
    then show ?thesis using Inr True by (auto simp: submit_def x al)
  qed
qed


section \<open>The startup checkpoint\<close>

definition refused_state :: "rat \<Rightarrow> string \<Rightarrow> store \<Rightarrow> store" where
  "refused_state now diagnostic s =
    latch_integrity_failure now ''startup checkpoint comparison refused'' (s\<lparr>health_code := diagnostic\<rparr>)"

lemma refuse_startup_checkpoint_eq:
  assumes "diagnostic \<in> REFUSAL_DIAGNOSTICS" "\<not> integrity_failed s"
  shows "refuse_startup_checkpoint now diagnostic ''startup checkpoint comparison refused'' s =
    (Inr (), refused_state now diagnostic s)"
  using assms by (simp add: refuse_startup_checkpoint_def refused_state_def)

lemma apply_startup_checkpoint_refused:
  assumes "apply_startup_checkpoint now c s = (Inr (Some diagnostic), s')" "\<not> integrity_failed s"
  shows "diagnostic \<in> REFUSAL_DIAGNOSTICS \<and> s' = refused_state now diagnostic s"
proof -
  obtain live prefix where "compare_checkpoint live c prefix = Some diagnostic" "diagnostic \<in> REFUSAL_DIAGNOSTICS"
    "refuse_startup_checkpoint now diagnostic ''startup checkpoint comparison refused'' s = (Inr (), s')"
  proof -
    from assms(1) obtain live where live: "snapshot_boundary_locked None (st_db s) = Inr live"
      by (cases "snapshot_boundary_locked None (st_db s)") (simp_all add: apply_startup_checkpoint_def)
    from assms(1) obtain prefix where prefix: "(case compare_checkpoint live c prefix of
        None \<Rightarrow> (Inr None, s)
      | Some diagnostic \<Rightarrow>
         (case refuse_startup_checkpoint now diagnostic ''startup checkpoint comparison refused'' s of
            (Inr _, s') \<Rightarrow> (Inr (Some diagnostic), s') | (Inl e, s') \<Rightarrow> (Inl e, s'))) = (Inr (Some diagnostic), s')"
      by (auto simp: apply_startup_checkpoint_def live split: sum.splits if_splits)
    then have c: "compare_checkpoint live c prefix = Some diagnostic"
      using compare_checkpoint_closed [of live c prefix] refuse_startup_checkpoint_eq [OF _ assms(2)]
      by (cases "compare_checkpoint live c prefix") auto
    with compare_checkpoint_closed [OF c] prefix refuse_startup_checkpoint_eq [OF _ assms(2)] that show thesis by simp
  qed
  with refuse_startup_checkpoint_eq [OF _ assms(2)] show ?thesis by simp
qed

lemma refused_checkpoint:
  assumes "enforce_startup_checkpoint E ks now configured s = (Inr (Refused diagnostic), s')" "\<not> integrity_failed s"
  shows "diagnostic \<in> REFUSAL_DIAGNOSTICS \<and> s' = refused_state now diagnostic s"
proof -
  obtain raw where raw: "configured = Some (Inr raw)"
    using assms(1) by (auto simp: enforce_startup_checkpoint_def split: option.splits sum.splits)
  let ?parsed = "bindE (load_json raw) (\<lambda>v. bindE (validate_snapshot v) (\<lambda>snapshot.
                bindE (from_snapshot snapshot) (\<lambda>checkpoint. Inr (snapshot, checkpoint))))"
  obtain snap c where p: "?parsed = Inr (snap, c)" using assms(1) by (cases ?parsed) (auto simp: enforce_startup_checkpoint_def raw)
  obtain live where b: "snapshot_boundary None s = Inr live"
    using assms(1) by (cases "snapshot_boundary None s") (simp_all add: enforce_startup_checkpoint_def raw p)
  have bad: "''checkpoint_signature_invalid'' \<in> REFUSAL_DIAGNOSTICS" by (simp add: REFUSAL_DIAGNOSTICS_def)
  show ?thesis
  proof (cases "list_ex (\<lambda>k. verify_signed E k snap) ks")
    case False
    then show ?thesis
      using assms(1) bad refuse_startup_checkpoint_eq [OF bad assms(2)] by (auto simp: enforce_startup_checkpoint_def raw p b)
  next
    case True
    obtain r s1 where a: "apply_startup_checkpoint now c s = (r, s1)" by force
    with True assms(1) have "r = Inr (Some diagnostic)" "s1 = s'"
      by (auto simp: enforce_startup_checkpoint_def raw p b split: sum.splits option.splits)
    with apply_startup_checkpoint_refused [OF _ assms(2)] a show ?thesis by blast
  qed
qed

lemma refused_state_fields:
  "\<not> integrity_failed s \<Longrightarrow> integrity_failed (refused_state now d s) \<and> \<not> health_ready (refused_state now d s) \<and>
    health_code (refused_state now d s) = d \<and> st_db (refused_state now d s) = st_db s"
  by (simp add: refused_state_def latch_integrity_failure_def)

lemma refused_health:
  assumes "\<not> health_ready s" "health_code s \<in> REFUSAL_DIAGNOSTICS"
  shows "get_health now s = Inl (APIError 503 (health_code s) None)"
  using assms by (auto simp: get_health_def health_verdict_def REFUSAL_DIAGNOSTICS_def)

lemma commit_latched:
  assumes "integrity_failed s"
  shows "\<exists>f. commit_record sv a key t r s = (Inl f, s)"
proof (cases "countersign (sv_ed25519 sv) (sv_signing_key sv) (auditor_id a) r")
  case (Inl e)
  then show ?thesis by (simp add: commit_record_def raised_def)
next
  case (Inr out)
  note w = writes_refused_latched [OF assms, of "k_store t"]
  have i: "\<exists>e. append_idempotent (k_store t) out b k d u now ttl s = (Inl e, s)" for b k d u now ttl
    by (rule append_idempotent_closed) (simp add: w)
  obtain e where i': "append_idempotent (k_store t) out (auditor_id a) key
      (sha256_hex (case canonical_bytes r of Inr c \<Rightarrow> c | Inl _ \<Rightarrow> [])) (k_utc t) (k_time t) IDEMPOTENCY_TTL_SECONDS s = (Inl e, s)"
    using i by blast
  show ?thesis
    using i' append_refused [OF w] Inr by (cases "canonical_bytes r") (simp_all add: commit_record_def raised_def)
qed

lemma submit_latched:
  assumes "integrity_failed s"
  shows "\<exists>f l'. submit sv rq t (l, s) = (Inl f, (l', s))"
proof (cases "\<exists>a r. admitted sv rq t l a r")
  case True
  then obtain a r where "admitted sv rq t l a r" by blast
  moreover obtain f where "commit_record sv a (h_idempotency_key rq) t r s = (Inl f, s)" using commit_latched [OF assms] by blast
  ultimately show ?thesis by (simp add: submit_admitted)
next
  case False
  then show ?thesis using submit_refused by blast
qed

text \<open>A snapshot that was served is accepted as the startup checkpoint of every later state.\<close>

lemma from_snapshot_sorted: "dict_ok (JObj r) \<Longrightarrow> from_snapshot (sorted_record r) = from_snapshot r"
  by (simp add: from_snapshot_def sorted_lookup)

lemma own_checkpoint_passes:
  assumes "store_ok s (es @ new)" "b = boundary_spec (created_of (st_db s)) es (length es)"
    "c_version c = sb_version b" "c_log_size c = sb_log_size b" "c_head c = sb_head b" "c_merkle_root c = sb_merkle_root b"
  shows "apply_startup_checkpoint now c s = (Inr None, s)"
proof -
  have d: "db_ok (st_db s) (es @ new)" using assms(1) by (simp add: store_ok_def)
  have live: "snapshot_boundary_locked None (st_db s) = Inr (boundary_spec (created_of (st_db s)) (es @ new) (length (es @ new)))"
    using snapshot_boundary_ok [OF d, of None] by (simp add: nat_add_distrib)
  have b: "snapshot_boundary_locked (Some (int (length es))) (st_db s) = Inr b"
    using snapshot_boundary_ok [OF d, of "Some (int (length es))"] by (simp add: assms(2) boundary_spec_append)
  have v: "sb_version b = int (length es)" "sb_log_size b = int (length es)"
    by (simp_all add: assms(2) boundary_spec_def)
  have l: "sb_version (boundary_spec (created_of (st_db s)) (es @ new) (length (es @ new))) = int (length (es @ new))"
    "sb_log_size (boundary_spec (created_of (st_db s)) (es @ new) (length (es @ new))) = int (length (es @ new))"
    by (simp_all add: boundary_spec_def)
  show ?thesis
  proof (cases "new = []")
    case True
    with live have "snapshot_boundary_locked None (st_db s) = Inr b" by (simp add: assms(2))
    with assms(3-6) show ?thesis by (simp add: apply_startup_checkpoint_def compare_checkpoint_def)
  next
    case False
    with live b v l assms(3-6) show ?thesis
      by (simp add: apply_startup_checkpoint_def compare_checkpoint_def)
  qed
qed

lemma served_snapshot_parses:
  assumes E: "ed25519_ok (sv_ed25519 sv)"
    and s0: "store_ok s0 es" "int (length es) \<le> MAX_SAFE_INTEGER" "get_snapshot sv s0 = Inr snap"
    and raw: "canonical_document (JObj snap) = Inr raw"
    and b: "b = boundary_spec (created_of (st_db s0)) es (length es)"
  shows "bindE (load_json raw) (\<lambda>v. bindE (validate_snapshot v) (\<lambda>snapshot.
      bindE (from_snapshot snapshot) (\<lambda>checkpoint. Inr (snapshot, checkpoint)))) =
    Inr (sorted_record snap, \<lparr>c_version = sb_version b, c_log_size = sb_log_size b, c_head = sb_head b,
      c_merkle_root = sb_merkle_root b, c_created_at = sb_created_at b\<rparr>)"
    and "verify_signed (sv_ed25519 sv) (public_pinned (sv_ed25519 sv) (sv_signing_key sv)) (sorted_record snap)"
proof -
  have d: "db_ok (st_db s0) es" using s0(1) by (simp add: store_ok_def)
  have "snapshot_boundary None s0 = Inr b"
    using snapshot_boundary_ok [OF d, of None] by (simp add: snapshot_boundary_def b)
  then have sg: "sign_record (sv_ed25519 sv) (sv_signing_key sv) (snapshot_body b) = Inr snap"
    using s0(3) by (auto simp: get_snapshot_def raised_def build_snapshot_def split: sum.splits)
  obtain m where snap: "snap = snapshot_body b @ [(lit ''sig'', sig_envelope (sv_ed25519 sv) (sv_signing_key sv) m)]"
    "document_ok 2 (JObj snap)" "validate_snapshot (JObj snap) = Inr snap"
    "verify_signed (sv_ed25519 sv) (public_pinned (sv_ed25519 sv) (sv_signing_key sv)) snap"
    using snapshot_valid [OF E boundary_spec_ok [OF d le_refl s0(2)], of "sv_signing_key sv"] sg by (auto simp: b)
  have dk: "dict_ok (JObj snap)" using snap(2) by (simp add: document_ok_def)
  have ld: "load_json raw = Inr (JObj (sorted_record snap))" using load_canonical [OF dk raw] by (simp only: sort_json_JObj)
  have "from_snapshot snap = Inr \<lparr>c_version = sb_version b, c_log_size = sb_log_size b, c_head = sb_head b,
      c_merkle_root = sb_merkle_root b, c_created_at = sb_created_at b\<rparr>"
    by (simp add: snap(1) snapshot_body_def from_snapshot_def get_int_def get_str_def)
  then show "bindE (load_json raw) (\<lambda>v. bindE (validate_snapshot v) (\<lambda>snapshot.
      bindE (from_snapshot snapshot) (\<lambda>checkpoint. Inr (snapshot, checkpoint)))) =
    Inr (sorted_record snap, \<lparr>c_version = sb_version b, c_log_size = sb_log_size b, c_head = sb_head b,
      c_merkle_root = sb_merkle_root b, c_created_at = sb_created_at b\<rparr>)"
    by (simp add: ld validate_snapshot_sort [OF dk snap(3)] from_snapshot_sorted [OF dk])
  show "verify_signed (sv_ed25519 sv) (public_pinned (sv_ed25519 sv) (sv_signing_key sv)) (sorted_record snap)"
    by (rule verify_signed_sort [OF dk snap(4)])
qed

lemma served_snapshot_passes:
  assumes "ed25519_ok (sv_ed25519 sv)"
    and "store_ok s0 es" "int (length es) \<le> MAX_SAFE_INTEGER" "get_snapshot sv s0 = Inr snap"
    and s: "store_ok s (es @ new)" "created_of (st_db s) = created_of (st_db s0)"
    and ks: "public_pinned (sv_ed25519 sv) (sv_signing_key sv) \<in> set ks"
    and raw: "canonical_document (JObj snap) = Inr raw"
  shows "enforce_startup_checkpoint (sv_ed25519 sv) ks now (Some (Inr raw)) s = (Inr Passed, s)"
proof -
  note p = served_snapshot_parses [OF assms(1-4) raw refl]
  have "list_ex (\<lambda>k. verify_signed (sv_ed25519 sv) k (sorted_record snap)) ks" using ks p(2) by (auto simp: list_ex_iff)
  moreover have "\<exists>live. snapshot_boundary None s = Inr live"
    using snapshot_boundary_ok [of "st_db s" "es @ new" None] s(1) by (auto simp: snapshot_boundary_def store_ok_def)
  ultimately show ?thesis
    using p(1) own_checkpoint_passes [OF s(1) refl] by (auto simp: enforce_startup_checkpoint_def s(2))
qed


section \<open>An oversized \<open>since\<close>\<close>

lemma since_overflow:
  assumes "ed25519_ok (sv_ed25519 sv)" "store_ok s es" "int (length es) \<le> MAX_SAFE_INTEGER"
    "1 \<le> g_limit a" "g_limit a \<le> MAX_PAGE_SIZE" "g_cursor a = []" "2 ^ 63 \<le> g_since a"
  shows "get_log sv [] a now issued s s = Inl (Raised OverflowError)"
    "handle_failure (Raised OverflowError) = error_response 500 ''internal_error'' None"
proof -
  have d: "db_ok (st_db s) es" using assms(2) by (simp add: store_ok_def)
  let ?b = "boundary_spec (created_of (st_db s)) es (length es)"
  have b: "snapshot_boundary None s = Inr ?b" "page_boundary_locked None (Some (int (length es))) (st_db s) = Inr ?b"
    by (simp_all add: snapshot_boundary_def page_boundary_locked_def snapshot_boundary_ok [OF d])
  obtain snap where "sign_record (sv_ed25519 sv) (sv_signing_key sv) (snapshot_body ?b) = Inr snap"
    by (rule snapshot_valid [OF assms(1) boundary_spec_ok [OF d le_refl assms(3)]])
  then have "build_snapshot (sv_ed25519 sv) (sv_signing_key sv) (Some ?b) None None s = Inr snap"
    by (simp add: build_snapshot_def)
  moreover have "log_page (g_since a) (nat (g_limit a)) 0 (Some (sb_log_size ?b)) None (st_db s) = Inl OverflowError"
    using assms(7) by (simp add: log_page_def b bind_ints_def boundary_spec_size)
  ultimately show "get_log sv [] a now issued s s = Inl (Raised OverflowError)"
    using assms(4-7) by (simp add: get_log_def check_limit_def paged_def select_page_def b raised_def)
  show "handle_failure (Raised OverflowError) = error_response 500 ''internal_error'' None"
    by (simp add: handle_failure_def)
qed

end
