(* ===== verification/RecordPages.thy ===== *)
theory RecordPages
  imports AppRead
begin

text \<open>
  \<open>GET /v1/records\<close> as a paged read: the list a boundary determines is the latest row of every
  matching group, and a client that follows the cursors reads that list to its end.
\<close>


section \<open>The records of a boundary\<close>

definition selected_version :: "records_args \<Rightarrow> int option" where
  "selected_version a = (case check_records_args a of Inr v \<Rightarrow> v | Inl _ \<Rightarrow> None)"

definition record_of_row :: "log_row \<Rightarrow> json" where
  "record_of_row row = (case json_loads (l_record_json row) of Inr v \<Rightarrow> v | Inl _ \<Rightarrow> JNull)"

definition matching_rows :: "records_args \<Rightarrow> entry list \<Rightarrow> log_row list" where
  "matching_rows a es =
    (case record_rows (q_source_identity a) (q_commit a) (q_content_sha256 a)
            (case selected_version a of Some v \<Rightarrow> v | None \<Rightarrow> 1) (int (length es)) ((new_db [])\<lparr>db_log := rows_of es\<rparr>) of
       Inr rows \<Rightarrow> rows | Inl _ \<Rightarrow> [])"

text \<open>
  An admissible request, with an honest key. Its texts are decoded from UTF-8, so they hold no
  surrogates.
\<close>

definition records_request_ok :: "'k service \<Rightarrow> records_args \<Rightarrow> bool" where
  "records_request_ok sv a \<longleftrightarrow>
    ed25519_ok (sv_ed25519 sv) \<and> 1 \<le> q_limit a \<and> q_limit a \<le> MAX_PAGE_SIZE \<and>
    (\<exists>v. check_records_args a = Inr v) \<and> clean (q_source_identity a)"

lemma row_decodes:
  assumes "entry_ok (es ! i)"
  shows "json_loads (l_record_json (row_at es i)) = Inr (JObj (sorted_record (fst (es ! i))))"
proof -
  from assms have "dict_ok (JObj (fst (es ! i)))" "plain (JObj (fst (es ! i)))" by (simp_all add: entry_ok_def)
  from json_loads_dumps [OF this] show ?thesis
    by (simp add: row_at_def mk_row_def sort_json_JObj del: sort_json.simps json_dumps.simps)
qed

lemma mapE_total: "\<forall>x \<in> set xs. \<exists>y. f x = Inr y \<Longrightarrow> \<exists>ys. mapE f xs = Inr ys"
  by (induction xs) auto

lemma last_per_group_subset: "set (last_per_group ps) \<subseteq> set ps \<and> length (last_per_group ps) \<le> length ps"
proof (induction ps rule: last_per_group.induct)
  case (2 g row rows)
  then show ?case by (cases "g \<in> fst ` set rows") (simp_all add: subset_insertI2)
qed simp

lemma record_rows_total:
  assumes "\<forall>row \<in> set (db_log d). \<exists>v. json_loads (l_record_json row) = Inr v"
  shows "\<exists>rows. record_rows si c h hv cap d = Inr rows"
proof -
  have "\<exists>ps. mapE (\<lambda>row. bindE (row_hash_version row) (\<lambda>hv. Inr (row, hv))) (filter p (db_log d)) = Inr ps" for p
    using assms by (intro mapE_total) (fastforce simp: row_hash_version_def)
  from this [of "\<lambda>row. l_seq row \<le> cap \<and> (si = [] \<or> l_source_identity row = si \<and> l_commit_hash row = c) \<and>
      (h = [] \<or> l_content_sha256 row = h)"]
  show ?thesis unfolding record_rows_def by (elim exE) simp
qed

lemma record_rows_within:
  assumes "record_rows si c h hv cap d = Inr rows"
  shows "set rows \<subseteq> set (db_log d)" "length rows \<le> length (db_log d)"
proof -
  let ?f = "filter (\<lambda>row. l_seq row \<le> cap \<and> (si = [] \<or> l_source_identity row = si \<and> l_commit_hash row = c) \<and>
      (h = [] \<or> l_content_sha256 row = h)) (db_log d)"
  obtain ps where ps: "mapE (\<lambda>row. bindE (row_hash_version row) (\<lambda>hv. Inr (row, hv))) ?f = Inr ps"
    and rows: "rows = map snd (sort_key fst (last_per_group (map (\<lambda>(row, v). (group_of row v, row)) (filter (\<lambda>(row, v). h = [] \<or> v = Some hv) ps))))"
    using assms unfolding record_rows_def by (auto simp: bindE_Inr_iff)
  have m: "map fst ps = ?f" by (rule mapE_pair(1) [OF ps])
  let ?g = "map (\<lambda>(row, v). (group_of row v, row)) (filter (\<lambda>(row, v). h = [] \<or> v = Some hv) ps)"
  have "length rows \<le> length ?g" using last_per_group_subset [of ?g] by (simp add: rows)
  also have "\<dots> \<le> length ps" by simp
  also have "\<dots> = length ?f" using m by (metis length_map)
  also have "\<dots> \<le> length (db_log d)" by simp
  finally show "length rows \<le> length (db_log d)" .
  have "set rows \<subseteq> snd ` set ?g" using last_per_group_subset [of ?g] by (auto simp: rows)
  also have "\<dots> \<subseteq> fst ` set ps" by force
  also have "\<dots> = set ?f" using m by (metis set_map)
  finally show "set rows \<subseteq> set (db_log d)" by auto
qed

lemma matching_rows_bounded: "length (matching_rows a es) \<le> length es"
  using record_rows_within(2) by (fastforce simp: matching_rows_def rows_of_def split: sum.split)

text \<open>Every later store has the same rows at the boundary.\<close>

lemma record_rows_at:
  assumes "tables_ok d (es @ es')"
  shows "record_rows (q_source_identity a) (q_commit a) (q_content_sha256 a)
      (case selected_version a of Some v \<Rightarrow> v | None \<Rightarrow> 1) (int (length es)) d = Inr (matching_rows a es)"
    and "row \<in> set (matching_rows a es) \<Longrightarrow> json_loads (l_record_json row) = Inr (record_of_row row)"
proof -
  let ?d = "(new_db [])\<lparr>db_log := rows_of es\<rparr>"
  have e: "entry_ok (es ! i)" if "i < length es" for i
    using assms that unfolding tables_ok_def by (metis UnCI nth_mem set_append)
  have dec: "\<exists>v. json_loads (l_record_json row) = Inr v" if "row \<in> set (rows_of es)" for row
    using that row_decodes [OF e] by (auto simp: rows_of_def)
  then have "\<forall>row \<in> set (db_log ?d). \<exists>v. json_loads (l_record_json row) = Inr v" by simp
  from record_rows_total [OF this] obtain rows where rows: "record_rows (q_source_identity a) (q_commit a) (q_content_sha256 a)
      (case selected_version a of Some v \<Rightarrow> v | None \<Rightarrow> 1) (int (length es)) ?d = Inr rows" by blast
  then have m: "matching_rows a es = rows" by (simp add: matching_rows_def)
  have "record_rows si c h hv (int (length es)) d = record_rows si c h hv (int (length es)) ?d" for si c h hv
    using assms by (simp add: record_rows_def tables_ok_def filter_rows_append)
  then show "record_rows (q_source_identity a) (q_commit a) (q_content_sha256 a)
      (case selected_version a of Some v \<Rightarrow> v | None \<Rightarrow> 1) (int (length es)) d = Inr (matching_rows a es)"
    using rows m by simp
  assume "row \<in> set (matching_rows a es)"
  then have "row \<in> set (rows_of es)" using record_rows_within(1) [OF rows] m by auto
  then show "json_loads (l_record_json row) = Inr (record_of_row row)"
    using dec [of row] by (auto simp: record_of_row_def)
qed



section \<open>The paged read\<close>

lemma hex_clean: "\<forall>c \<in> set s. is_hex c \<Longrightarrow> clean s"
  by (rule clean_low) (auto simp: is_hex_def is_digit_def)

lemma digest_clean: "SHA256 s \<Longrightarrow> clean s"
proof -
  assume "SHA256 s"
  then obtain r where "s = lit ''sha256:'' @ r" "\<forall>c \<in> set r. is_hex c"
    by (auto simp: SHA256_def strip_prefix_def HEX256_def split: if_splits option.splits) (metis append_take_drop_id)
  moreover have "clean (lit ''sha256:'')" by (rule clean_lit)
  ultimately show ?thesis using hex_clean [of r] by (auto simp: clean_def str_ok_def)
qed

lemma records_args_ok:
  assumes "records_request_ok sv a"
  shows "(q_source_identity a \<noteq> []) = (q_commit a \<noteq> [])" "(q_source_identity a \<noteq> [] \<and> q_commit a \<noteq> []) \<or> q_content_sha256 a \<noteq> []"
    and "clean (q_commit a)" "clean (q_content_sha256 a)"
    and "selected_version a = None \<or> q_content_sha256 a \<noteq> [] \<and> (selected_version a = Some 1 \<or> selected_version a = Some 2)"
    and "check_records_args a = Inr (selected_version a)"
proof -
  obtain v where v: "check_records_args a = Inr v" using assms by (auto simp: records_request_ok_def)
  have s: "selected_version a = v" using v by (simp add: selected_version_def)
  then show "check_records_args a = Inr (selected_version a)" using v by simp
  show "(q_source_identity a \<noteq> []) = (q_commit a \<noteq> [])" "(q_source_identity a \<noteq> [] \<and> q_commit a \<noteq> []) \<or> q_content_sha256 a \<noteq> []"
    using v unfolding check_records_args_def by (metis sum.distinct(1))+
  have "q_commit a = [] \<or> COMMIT (q_commit a)" "q_content_sha256 a = [] \<or> SHA256 (q_content_sha256 a)"
    and "v = (if q_content_sha256 a \<noteq> [] then Some (if q_hash_version a = lit ''2'' then 2 else 1) else None)"
    using v by (auto simp: check_records_args_def bindE_Inr_iff split: if_splits)
  then show "clean (q_commit a)" "clean (q_content_sha256 a)"
    "selected_version a = None \<or> q_content_sha256 a \<noteq> [] \<and> (selected_version a = Some 1 \<or> selected_version a = Some 2)"
    using hex_clean digest_clean s by (auto simp: COMMIT_def clean_def str_ok_def)
qed

lemma records_query_digest:
  assumes "records_request_ok sv a"
  shows "\<exists>digest. query_digest ''records'' (records_query a (selected_version a)) = Inr digest"
proof -
  let ?doc = "JObj [(lit ''endpoint'', JStr (lit ''records'')), (lit ''query'', JObj (records_query a (selected_version a)))]"
  have l: "clean (lit k)" for k by (rule clean_lit)
  have "clean (q_source_identity a)" "clean (q_commit a)" "clean (q_content_sha256 a)" "1 \<le> q_limit a \<and> q_limit a \<le> MAX_PAGE_SIZE"
    using assms records_args_ok [OF assms] by (simp_all add: records_request_ok_def)
  then have "document_ok 2 ?doc"
    using l [of "''endpoint''"] l [of "''query''"] l [of "''records''"] l [of "''source_identity''"] l [of "''commit''"]
      l [of "''content_sha256''"] l [of "''limit''"] l [of "''hash_version''"]
    by (auto simp: document_ok_def records_query_def ccj_leaves_JObj json_depth_JObj_le clean_def MAX_PAGE_SIZE_def MAX_SAFE_INTEGER_def)
  then show ?thesis
    using document_ok_canonical [of ?doc] by (auto simp: query_digest_def document_ok_def MAX_JSON_DEPTH_def)
qed

definition records_view :: "records_args \<Rightarrow> entry list \<Rightarrow> json list" where
  "records_view a es = map record_of_row (matching_rows a es)"

lemma records_page_at:
  assumes ok: "records_request_ok sv a" and at: "at_boundary created es s" and offset: "int offset \<le> MAX_SAFE_INTEGER"
  shows "records_page (q_source_identity a) (q_commit a) (q_content_sha256 a) (selected_version a) (nat (q_limit a)) offset None
      (Some (boundary_spec created es (length es))) (st_db s) =
    Inr (take (nat (q_limit a)) (drop offset (records_view a es)), length (records_view a es) > offset + nat (q_limit a))"
proof -
  obtain es' where d: "db_ok (st_db s) (es @ es')" "created_of (st_db s) = created" and n: "int (length es) \<le> MAX_SAFE_INTEGER"
    using at by (auto simp: at_boundary_def)
  have t: "tables_ok (st_db s) (es @ es')" using d(1) by (simp add: db_ok_def)
  have b: "page_boundary_locked (Some (boundary_spec created es (length es))) None (st_db s) = Inr (boundary_spec created es (length es))"
    using page_boundary_ok [OF d(1), of "length es"] by (simp add: d(2) boundary_spec_append)
  have texts: "bind_texts [q_source_identity a, q_commit a, q_content_sha256 a] = Inr ()"
    using ok records_args_ok [OF ok] by (auto simp: bind_texts_def records_request_ok_def clean_def)
  have ints: "bind_ints [int (length es), int (nat (q_limit a)) + 1, int offset] = Inr ()"
    using ok n offset by (auto simp: bind_ints_def records_request_ok_def MAX_PAGE_SIZE_def MAX_SAFE_INTEGER_def)
  have pos: "0 \<le> q_limit a" using ok by (simp add: records_request_ok_def)
  note ints' = ints [unfolded nat_0_le [OF pos]]
  let ?rows = "take (nat (q_limit a)) (take (nat (q_limit a) + 1) (drop offset (matching_rows a es)))"
  have "mapE (\<lambda>row. json_loads (l_record_json row)) ?rows = Inr (map record_of_row ?rows)"
    using record_rows_at(2) [OF t] by (intro mapE_map) (auto dest!: in_set_takeD in_set_dropD)
  moreover have "map record_of_row ?rows = take (nat (q_limit a)) (drop offset (records_view a es))"
    by (simp add: records_view_def take_map drop_map min_def)
  ultimately show ?thesis
    using records_args_ok [OF ok] record_rows_at(1) [OF t, of a]
    by (auto simp: records_page_def b texts pos ints' records_view_def less_diff_conv add.commute [of offset])
qed

definition read_records :: "'k service \<Rightarrow> records_args \<Rightarrow> str \<Rightarrow> int \<Rightarrow> int \<Rightarrow> store \<Rightarrow> failure + obj" where
  "read_records sv a cursor now issued s = get_records sv [] (a\<lparr>q_cursor := cursor\<rparr>) now issued s s"

definition follow_records ::
  "'k service \<Rightarrow> records_args \<Rightarrow> (nat \<Rightarrow> int) \<Rightarrow> (nat \<Rightarrow> store) \<Rightarrow> nat \<Rightarrow> nat \<Rightarrow> str \<Rightarrow> (failure + json list) option" where
  "follow_records sv a = follow_pages ''records'' (\<lambda>cursor t s. read_records sv a cursor t t s)"

interpretation record_pages: paged_read "''records''" "''records''" records_request_ok "\<lambda>a. records_query a (selected_version a)"
  "\<lambda>a. nat (q_limit a)"
  "\<lambda>a offset max_seq boundary s. records_page (q_source_identity a) (q_commit a) (q_content_sha256 a) (selected_version a)
     (nat (q_limit a)) offset max_seq boundary (st_db s)"
  id records_view read_records
proof (unfold_locales, goal_cases)
  case (1 sv a)
  then show ?case by (simp add: records_request_ok_def)
next
  case (2 sv a)
  then show ?case unfolding records_request_ok_def by linarith
next
  case (3 sv a)
  then show ?case by (rule records_query_digest)
next
  case (4 a es)
  then show ?case by (simp add: records_view_def matching_rows_bounded)
next
  case (5 sv a created es s offset)
  then show ?case by (rule records_page_at)
next
  case (6 sv a s es)
  then have d: "db_ok (st_db s) es" by (simp add: store_ok_def)
  then show ?case by (simp add: records_page_def page_boundary_ok [OF d] page_boundary_locked_def snapshot_boundary_ok [OF d])
next
  case (7 sv a cursor now s offset shown found remains issued nx)
  moreover have "check_records_args (a\<lparr>q_cursor := cursor\<rparr>) = check_records_args a"
    "records_query (a\<lparr>q_cursor := cursor\<rparr>) v = records_query a v" for v
    by (simp_all add: check_records_args_def records_query_def)
  ultimately show ?case
    using records_args_ok(6) [OF 7(1)]
    by (simp add: read_records_def get_records_def paged_def records_request_ok_def check_limit_def)
next
  case 8
  then show ?case by simp
qed

lemma follow_records_all:
  assumes "records_request_ok sv a" "store_ok (st 0) es" "int (length es) \<le> MAX_SAFE_INTEGER"
    "\<And>i. at_boundary (created_of (st_db (st 0))) es (st i)" "\<And>i. clock_ok (clk i)"
    "\<And>i. clk (Suc i) \<le> clk i + CURSOR_TTL_SECONDS"
  shows "follow_records sv a clk st (Suc (length es)) 0 [] = Some (Inr (records_view a es))"
  using record_pages.follow_all [where st = st and clk = clk, OF assms] by (simp add: follow_records_def)

end
