(* ===== verification/Keys.thy ===== *)
theory Keys
  imports ProtocolValues
begin

text \<open>
  \<open>keys.py\<close>: the signing keys of the data home and their staged rotation. The home is three
  files: the active key, the staged key and the public keyring. Every file is replaced
  atomically (\<open>_atomic_write\<close> renames a synced temporary file), so an operation is a sequence of
  whole-file states and a crash leaves one of them. An operation therefore returns the states it
  goes through, in order, and its result. The keyring file is its parsed JSON (a text that is not
  JSON is an error); PEM encoding and encryption are the \<open>cryptography\<close> library, a parameter, and
  so are a generated key and the permission checks of \<open>permissions.py\<close>, which precede a read.
\<close>

record 'k provider =
  p_load :: "bytes option \<Rightarrow> 'k res"
  p_store :: "'k \<Rightarrow> bytes res"

text \<open>The PEM functions of the library, and the marker of an encrypted file.\<close>

record 'k pem_library =
  pem_load :: "bytes \<Rightarrow> bytes option \<Rightarrow> 'k res"
  pem_export :: "'k \<Rightarrow> bytes option \<Rightarrow> bytes"

definition pem_marker :: bytes where
  "pem_marker = map byte_of (lit ''ENCRYPTED PRIVATE KEY'')"

fun contains :: "bytes \<Rightarrow> bytes \<Rightarrow> bool" where
  "contains needle [] = (needle = [])"
| "contains needle (x # xs) = (take (length needle) (x # xs) = needle \<or> contains needle xs)"

definition file_load :: "'k pem_library \<Rightarrow> bytes option \<Rightarrow> bytes option \<Rightarrow> 'k res" where
  "file_load L passphrase file =
    (if passphrase = Some [] then Inl (KeyPassphraseError ''passphrase is set but empty'')
     else case file of
       None \<Rightarrow> Inl (ValueError ''signing key is unavailable'')
     | Some pem \<Rightarrow>
        (if contains pem_marker pem then
           (if passphrase = None then Inl (KeyPassphraseError ''signing key is encrypted'')
            else case pem_load L pem passphrase of
              Inl e \<Rightarrow> Inl (if is_ValueError e \<or> e = TypeError then KeyPassphraseError ''could not decrypt signing key'' else e)
            | Inr k \<Rightarrow> Inr k)
         else pem_load L pem None))"

definition file_store :: "'k pem_library \<Rightarrow> bytes option \<Rightarrow> 'k \<Rightarrow> bytes res" where
  "file_store L passphrase key =
    (if passphrase = Some [] then Inl (KeyPassphraseError ''passphrase is set but empty'')
     else Inr (pem_export L key passphrase))"

definition file_provider :: "'k pem_library \<Rightarrow> bytes option \<Rightarrow> 'k provider" where
  "file_provider L passphrase = \<lparr>p_load = file_load L passphrase, p_store = file_store L passphrase\<rparr>"

definition key_passphrase_from_env :: "str option \<Rightarrow> bytes option res" where
  "key_passphrase_from_env raw =
    (case raw of
       None \<Rightarrow> Inr None
     | Some s \<Rightarrow> (if s = [] then Inl (KeyPassphraseError ''passphrase is set but empty'')
                   else bindE (utf8_encode s) (\<lambda>b. Inr (Some b))))"


section \<open>The data home\<close>

record home =
  f_active :: "bytes option"
  f_next :: "bytes option"
  f_keyring :: "json res option"

type_synonym 'a steps = "home list \<times> 'a res"

fun add_keys :: "str list \<Rightarrow> json list \<Rightarrow> str list res" where
  "add_keys values [] = Inr values"
| "add_keys values (v # configured) =
    (case v of
       JStr key \<Rightarrow> bindE (parse_public_key key) (\<lambda>_.
         add_keys (if key \<in> set values then values else values @ [key]) configured)
     | _ \<Rightarrow> Inl (ValueError ''public key must be a string''))"

definition read_keyring :: "str list \<Rightarrow> json \<Rightarrow> str list res" where
  "read_keyring values payload =
    (case payload of
       JObj d \<Rightarrow>
        (if keys_of d \<noteq> {lit ''schema_version'', lit ''public_keys''}
         then Inl (ValueError ''keyring must contain schema_version and public_keys'')
         else if \<not> py_eq_int (get_or d ''schema_version'' JNull) 1
         then Inl (ValueError ''unsupported keyring schema_version'')
         else case get_or d ''public_keys'' JNull of
           JArr configured \<Rightarrow> add_keys values configured
         | _ \<Rightarrow> Inl (ValueError ''public_keys must be an array''))
     | _ \<Rightarrow> Inl (ValueError ''keyring must contain schema_version and public_keys''))"

definition malformed_keyring :: "'a res \<Rightarrow> 'a res" where
  "malformed_keyring m =
    (case m of
       Inl e \<Rightarrow> Inl (if is_ValueError e \<or> is_OSError e then ValueError ''signing keyring is malformed'' else e)
     | Inr x \<Rightarrow> Inr x)"

definition public_keys :: "'k ed25519 \<Rightarrow> 'k provider \<Rightarrow> 'k option \<Rightarrow> home \<Rightarrow> str list res" where
  "public_keys E P active h =
    bindE (case active of Some k \<Rightarrow> Inr k | None \<Rightarrow> p_load P (f_active h)) (\<lambda>current.
    bindE (case f_keyring h of
             None \<Rightarrow> Inr [public_pinned E current]
           | Some file \<Rightarrow> malformed_keyring (bindE file (read_keyring [public_pinned E current]))) (\<lambda>values.
      if f_next h = None then Inr values
      else bindE (p_load P (f_next h)) (\<lambda>staged.
        Inr (if public_pinned E staged \<in> set values then values else values @ [public_pinned E staged]))))"

fun unique_keys :: "str list \<Rightarrow> str list \<Rightarrow> str list res" where
  "unique_keys unique [] = Inr unique"
| "unique_keys unique (v # values) =
    bindE (parse_public_key v) (\<lambda>_. unique_keys (if v \<in> set unique then unique else unique @ [v]) values)"

definition keyring_document :: "str list \<Rightarrow> json" where
  "keyring_document unique =
    JObj [(lit ''schema_version'', JInt 1), (lit ''public_keys'', JArr (map JStr unique))]"

definition write_public_keys :: "str list \<Rightarrow> home \<Rightarrow> home res" where
  "write_public_keys values h =
    bindE (unique_keys [] values) (\<lambda>unique. Inr (h\<lparr>f_keyring := Some (Inr (keyring_document unique))\<rparr>))"


section \<open>Operations\<close>

definition initialize_key :: "'k ed25519 \<Rightarrow> 'k provider \<Rightarrow> bool \<Rightarrow> 'k \<Rightarrow> home \<Rightarrow> 'k steps" where
  "initialize_key E P replace key h =
    (if f_active h \<noteq> None \<and> \<not> replace then ([], Inl (ValueError ''signing key already exists''))
     else if f_next h \<noteq> None then ([], Inl (ValueError ''a signing-key rotation is already staged''))
     else case p_store P key of
       Inl e \<Rightarrow> ([], Inl e)
     | Inr pem \<Rightarrow>
        (let h1 = h\<lparr>f_active := Some pem\<rparr> in
         case write_public_keys [public_pinned E key] h1 of
           Inl e \<Rightarrow> ([h1], Inl e)
         | Inr h2 \<Rightarrow> ([h1, h2], Inr key)))"

text \<open>\<open>except (OSError, ValueError)\<close>: the staged file is removed again.\<close>

definition prepare_rotation :: "'k ed25519 \<Rightarrow> 'k provider \<Rightarrow> 'k \<Rightarrow> home \<Rightarrow> ('k \<times> 'k) steps" where
  "prepare_rotation E P staged h =
    (case p_load P (f_active h) of
       Inl e \<Rightarrow> ([], Inl e)
     | Inr active \<Rightarrow>
        (if f_next h \<noteq> None then ([], Inl (ValueError ''a signing-key rotation is already staged''))
         else case p_store P staged of
           Inl e \<Rightarrow> ([], Inl e)
         | Inr pem \<Rightarrow>
            (let h1 = h\<lparr>f_next := Some pem\<rparr> in
             case bindE (public_keys E P (Some active) h1) (\<lambda>ks. write_public_keys (ks @ [public_pinned E staged]) h1) of
               Inl e \<Rightarrow> (if is_ValueError e \<or> is_OSError e then ([h1, h1\<lparr>f_next := None\<rparr>], Inl e) else ([h1], Inl e))
             | Inr h2 \<Rightarrow> ([h1, h2], Inr (active, staged)))))"

definition activate_rotation :: "'k ed25519 \<Rightarrow> 'k provider \<Rightarrow> home \<Rightarrow> ('k \<times> 'k) steps" where
  "activate_rotation E P h =
    (case p_load P (f_active h) of
       Inl e \<Rightarrow> ([], Inl e)
     | Inr active \<Rightarrow>
        (if f_next h = None then ([], Inl (ValueError ''no signing-key rotation is staged''))
         else case p_load P (f_next h) of
           Inl e \<Rightarrow> ([], Inl e)
         | Inr staged \<Rightarrow>
            (case bindE (public_keys E P (Some active) h) (\<lambda>ks. write_public_keys (ks @ [public_pinned E staged]) h) of
               Inl e \<Rightarrow> ([], Inl e)
             | Inr h1 \<Rightarrow>
                (case p_store P staged of
                   Inl e \<Rightarrow> ([h1], Inl e)
                 | Inr pem \<Rightarrow>
                    (let h2 = h1\<lparr>f_active := Some pem\<rparr>
                     in ([h1, h2, h2\<lparr>f_next := None\<rparr>], Inr (active, staged)))))))"

definition cancel_rotation :: "'k ed25519 \<Rightarrow> 'k provider \<Rightarrow> home \<Rightarrow> 'k steps" where
  "cancel_rotation E P h =
    (case p_load P (f_active h) of
       Inl e \<Rightarrow> ([], Inl e)
     | Inr active \<Rightarrow>
        (if f_next h = None then ([], Inl (ValueError ''no signing-key rotation is staged''))
         else case p_load P (f_next h) of
           Inl e \<Rightarrow> ([], Inl e)
         | Inr staged \<Rightarrow>
            (case bindE (public_keys E P (Some active) h) (\<lambda>ks.
                    write_public_keys (filter (\<lambda>v. v \<noteq> public_pinned E staged) ks) h) of
               Inl e \<Rightarrow> ([], Inl e)
             | Inr h1 \<Rightarrow> ([h1, h1\<lparr>f_next := None\<rparr>], Inr staged))))"

definition pinned_key_id :: "str \<Rightarrow> str res" where
  "pinned_key_id pinned = bindE (parse_public_key pinned) (\<lambda>public. Inr (take 16 (sha256_hex public)))"

definition retire_public_key :: "'k ed25519 \<Rightarrow> 'k provider \<Rightarrow> str \<Rightarrow> home \<Rightarrow> str steps" where
  "retire_public_key E P kid h =
    (case bindE (p_load P (f_active h)) (\<lambda>active.
          bindE (if f_next h = None then Inr None else bindE (p_load P (f_next h)) (\<lambda>k. Inr (Some k))) (\<lambda>staged.
          bindE (guardE (\<not> (kid = key_id E active \<or> (case staged of Some k \<Rightarrow> kid = key_id E k | None \<Rightarrow> False)))
                   (ValueError ''the active or staged signing key cannot be retired'')) (\<lambda>_.
          bindE (public_keys E P (Some active) h) (\<lambda>values.
          bindE (mapE (\<lambda>v. bindE (pinned_key_id v) (\<lambda>i. Inr (v, i))) values) (\<lambda>ids.
            case filter (\<lambda>(v, i). i = kid) ids of
              [(v, _)] \<Rightarrow> bindE (write_public_keys (remove1 v values) h) (\<lambda>h1. Inr (v, h1))
            | _ \<Rightarrow> Inl (ValueError ''retained signing key was not found'')))))) of
       Inl e \<Rightarrow> ([], Inl e)
     | Inr (v, h1) \<Rightarrow> ([h1], Inr v))"



section \<open>Reading and writing the keyring\<close>

definition provider_ok :: "'k provider \<Rightarrow> bool" where
  "provider_ok P \<longleftrightarrow> (\<forall>k. \<exists>pem. p_store P k = Inr pem \<and> p_load P (Some pem) = Inr k)"

definition pem_ok :: "'k pem_library \<Rightarrow> bool" where
  "pem_ok L \<longleftrightarrow> (\<forall>k passphrase. passphrase \<noteq> Some [] \<longrightarrow>
    pem_load L (pem_export L k passphrase) passphrase = Inr k \<and>
    (contains pem_marker (pem_export L k passphrase) \<longleftrightarrow> passphrase \<noteq> None))"

lemma file_provider_ok: "pem_ok L \<Longrightarrow> passphrase \<noteq> Some [] \<Longrightarrow> provider_ok (file_provider L passphrase)"
  by (auto simp: provider_ok_def pem_ok_def file_provider_def file_load_def file_store_def)

abbreviation parses :: "str \<Rightarrow> bool" where
  "parses v \<equiv> \<exists>b. parse_public_key v = Inr b"

lemma pinned_parses: "ed25519_ok E \<Longrightarrow> parses (public_pinned E k)"
  by (simp add: parse_public_pinned)

lemma add_keys_ok:
  assumes "\<forall>v \<in> set ks. parses v" "distinct vals"
  shows "\<exists>vs. add_keys vals (map JStr ks) = Inr vs \<and> set vs = set vals \<union> set ks \<and> distinct vs"
  using assms
proof (induction ks arbitrary: vals)
  case (Cons a ks)
  have "\<exists>vs. add_keys (if a \<in> set vals then vals else vals @ [a]) (map JStr ks) = Inr vs \<and>
    set vs = set (if a \<in> set vals then vals else vals @ [a]) \<union> set ks \<and> distinct vs"
    by (rule Cons.IH) (use Cons.prems in auto)
  then show ?case using Cons.prems by (auto simp: insert_absorb)
qed simp

lemma unique_keys_ok:
  assumes "\<forall>v \<in> set ks. parses v"
  shows "\<exists>vs. unique_keys vals ks = Inr vs \<and> set vs = set vals \<union> set ks"
  using assms
proof (induction ks arbitrary: vals)
  case (Cons a ks)
  have "\<exists>vs. unique_keys (if a \<in> set vals then vals else vals @ [a]) ks = Inr vs \<and>
    set vs = set (if a \<in> set vals then vals else vals @ [a]) \<union> set ks"
    by (rule Cons.IH) (use Cons.prems in auto)
  then show ?case using Cons.prems by (auto simp: insert_absorb)
qed simp

definition keyring_is :: "home \<Rightarrow> str list \<Rightarrow> bool" where
  "keyring_is h ks \<longleftrightarrow>
    (f_keyring h = None \<and> ks = [] \<or> f_keyring h = Some (Inr (keyring_document ks))) \<and> (\<forall>v \<in> set ks. parses v)"

lemma read_keyring_ok:
  assumes "\<forall>v \<in> set ks. parses v" "distinct vals"
  shows "\<exists>vs. read_keyring vals (keyring_document ks) = Inr vs \<and> set vs = set vals \<union> set ks \<and> distinct vs"
  using add_keys_ok [OF assms] by (simp add: read_keyring_def keyring_document_def py_eq_int_def insert_commute)

definition staged_key :: "'k provider \<Rightarrow> home \<Rightarrow> 'k \<Rightarrow> bool" where
  "staged_key P h n \<longleftrightarrow> f_next h \<noteq> None \<and> p_load P (f_next h) = Inr n"

lemma public_keys_ok:
  assumes "ed25519_ok E" "keyring_is h ks" "f_next h = None \<or> staged_key P h n"
    and "active = Some k \<or> active = None \<and> p_load P (f_active h) = Inr k"
  shows "\<exists>vs. public_keys E P active h = Inr vs \<and> distinct vs \<and> (\<forall>v \<in> set vs. parses v) \<and>
    set vs = insert (public_pinned E k) (set ks) \<union> (if f_next h = None then {} else {public_pinned E n})"
proof -
  let ?pin = "public_pinned E k"
  have ks: "\<forall>v \<in> set ks. parses v" using assms(2) by (simp add: keyring_is_def)
  obtain vs where vs: "(case f_keyring h of None \<Rightarrow> Inr [?pin]
      | Some file \<Rightarrow> malformed_keyring (bindE file (read_keyring [?pin]))) = Inr vs"
    "set vs = insert ?pin (set ks)" "distinct vs"
    using assms(2) read_keyring_ok [OF ks, of "[?pin]"] by (auto simp: keyring_is_def malformed_keyring_def)
  have pv: "\<forall>v \<in> insert (public_pinned E n) (set vs). parses v"
    using vs(2) ks pinned_parses [OF assms(1)] by auto
  have cur: "(case active of Some k \<Rightarrow> Inr k | None \<Rightarrow> p_load P (f_active h)) = Inr k" using assms(4) by auto
  show ?thesis
  proof (cases "f_next h = None")
    case True
    then show ?thesis using vs pv by (simp add: public_keys_def cur)
  next
    case False
    then have "p_load P (f_next h) = Inr n" using assms(3) by (auto simp: staged_key_def)
    then show ?thesis using False vs pv by (auto simp: public_keys_def cur)
  qed
qed

lemma write_public_keys_ok:
  assumes "\<forall>v \<in> set vals. parses v"
  shows "\<exists>us. write_public_keys vals h = Inr (h\<lparr>f_keyring := Some (Inr (keyring_document us))\<rparr>) \<and>
    set us = set vals \<and> keyring_is (h\<lparr>f_keyring := Some (Inr (keyring_document us))\<rparr>) us"
  using unique_keys_ok [OF assms, of "[]"] assms by (auto simp: write_public_keys_def keyring_is_def)


section \<open>Rotation as a step relation with crashes\<close>

text \<open>
  The ghost component of a state is the set of public keys that have signed for the registry and
  are not retired. An operation that is interrupted leaves any of the states it goes through.
\<close>

inductive key_step :: "'k ed25519 \<Rightarrow> 'k provider \<Rightarrow> str set \<times> home \<Rightarrow> str set \<times> home \<Rightarrow> bool" for E P where
  Initialize: "h' \<in> set (fst (initialize_key E P replace k h)) \<Longrightarrow>
    key_step E P (signers, h) ({public_pinned E k}, h')"
| Prepare: "h' \<in> set (fst (prepare_rotation E P k h)) \<Longrightarrow> public_pinned E k \<notin> signers \<Longrightarrow>
    key_step E P (signers, h) (signers, h')"
| Activate: "h' \<in> set (fst (activate_rotation E P h)) \<Longrightarrow> p_load P (f_active h') = Inr k \<Longrightarrow>
    key_step E P (signers, h) (insert (public_pinned E k) signers, h')"
| Cancel: "h' \<in> set (fst (cancel_rotation E P h)) \<Longrightarrow> key_step E P (signers, h) (signers, h')"
| Retire: "retire_public_key E P kid h = ([h'], Inr v) \<Longrightarrow> key_step E P (signers, h) (signers - {v}, h')"

inductive_cases key_stepE: "key_step E P (signers, h) (signers', h')"

definition trust_ok :: "'k ed25519 \<Rightarrow> 'k provider \<Rightarrow> str set \<times> home \<Rightarrow> bool" where
  "trust_ok E P st \<longleftrightarrow>
    (case st of (signers, h) \<Rightarrow>
      \<exists>k ks. p_load P (f_active h) = Inr k \<and> keyring_is h ks \<and> signers \<subseteq> insert (public_pinned E k) (set ks) \<and>
        (f_next h \<noteq> None \<longrightarrow> (\<exists>n. staged_key P h n \<and>
           (public_pinned E n \<in> signers \<longrightarrow> public_pinned E n = public_pinned E k))))"

lemma trust_okE:
  assumes "trust_ok E P (signers, h)"
  obtains k ks n where "p_load P (f_active h) = Inr k" "keyring_is h ks"
    "signers \<subseteq> insert (public_pinned E k) (set ks)" "f_next h = None \<or> staged_key P h n"
    "f_next h \<noteq> None \<and> public_pinned E n \<in> signers \<longrightarrow> public_pinned E n = public_pinned E k"
  using assms by (auto simp: trust_ok_def)

lemma keyring_is_other [simp]:
  "keyring_is (h\<lparr>f_active := a\<rparr>) ks = keyring_is h ks" "keyring_is (h\<lparr>f_next := b\<rparr>) ks = keyring_is h ks"
  by (simp_all add: keyring_is_def)

lemma rewrite_keyring:
  assumes "ed25519_ok E" "keyring_is h ks" "f_next h = None \<or> staged_key P h n"
    and "\<And>vs. \<forall>v \<in> set vs. parses v \<Longrightarrow> \<forall>v \<in> set (f vs). parses v"
  obtains vs us where "public_keys E P (Some k) h = Inr vs"
    "set vs = insert (public_pinned E k) (set ks) \<union> (if f_next h = None then {} else {public_pinned E n})"
    "write_public_keys (f vs) h = Inr (h\<lparr>f_keyring := Some (Inr (keyring_document us))\<rparr>)"
    "set us = set (f vs)" "keyring_is (h\<lparr>f_keyring := Some (Inr (keyring_document us))\<rparr>) us"
proof -
  obtain vs where vs: "public_keys E P (Some k) h = Inr vs" "\<forall>v \<in> set vs. parses v"
    "set vs = insert (public_pinned E k) (set ks) \<union> (if f_next h = None then {} else {public_pinned E n})"
    using public_keys_ok [OF assms(1-3), of "Some k" k] by blast
  from write_public_keys_ok [OF assms(4) [OF vs(2)]] vs that show thesis by blast
qed

lemma trust_okI:
  assumes "p_load P (f_active h) = Inr k" "keyring_is h ks" "signers \<subseteq> insert (public_pinned E k) (set ks)"
    "f_next h = None \<or> staged_key P h n \<and> (public_pinned E n \<in> signers \<longrightarrow> public_pinned E n = public_pinned E k)"
  shows "trust_ok E P (signers, h)"
  using assms unfolding trust_ok_def by auto

lemma staged_key_other [simp]:
  "staged_key P (h\<lparr>f_active := a\<rparr>) = staged_key P h" "staged_key P (h\<lparr>f_keyring := r\<rparr>) = staged_key P h"
  by (simp_all add: staged_key_def fun_eq_iff)


subsection \<open>Every operation keeps the trust invariant\<close>

lemma initialize_trust:
  assumes "ed25519_ok E" "provider_ok P" "trust_ok E P (signers, h) \<or> f_keyring h = None"
    and "h' \<in> set (fst (initialize_key E P replace k h))"
  shows "trust_ok E P ({public_pinned E k}, h')"
proof -
  obtain pem where pem: "p_store P k = Inr pem" "p_load P (Some pem) = Inr k"
    using assms(2) by (auto simp: provider_ok_def)
  obtain ks where ks: "keyring_is h ks" using assms(3) by (auto simp: trust_ok_def keyring_is_def)
  define h1 where "h1 = h\<lparr>f_active := Some pem\<rparr>"
  obtain us where us: "write_public_keys [public_pinned E k] h1 = Inr (h1\<lparr>f_keyring := Some (Inr (keyring_document us))\<rparr>)"
    "keyring_is (h1\<lparr>f_keyring := Some (Inr (keyring_document us))\<rparr>) us"
    using write_public_keys_ok [of "[public_pinned E k]" h1] pinned_parses [OF assms(1)] by auto
  have "f_next h = None" "h' = h1 \<or> h' = h1\<lparr>f_keyring := Some (Inr (keyring_document us))\<rparr>"
    using assms(4) us(1) by (auto simp: initialize_key_def pem(1) h1_def [symmetric] Let_def split: if_splits)
  then show ?thesis
    using ks us(2) pem(2) by (auto intro!: trust_okI simp: h1_def)
qed

lemma prepare_trust:
  assumes "ed25519_ok E" "provider_ok P" "trust_ok E P (signers, h)" "public_pinned E s \<notin> signers"
    and "h' \<in> set (fst (prepare_rotation E P s h))"
  shows "trust_ok E P (signers, h')"
proof -
  obtain k ks n where k: "p_load P (f_active h) = Inr k" and ks: "keyring_is h ks"
    and sub: "signers \<subseteq> insert (public_pinned E k) (set ks)" using assms(3) by (rule trust_okE)
  obtain pem where pem: "p_store P s = Inr pem" "p_load P (Some pem) = Inr s"
    using assms(2) by (auto simp: provider_ok_def)
  define h1 where "h1 = h\<lparr>f_next := Some pem\<rparr>"
  have st: "staged_key P h1 s" and ks1: "keyring_is h1 ks" using pem ks by (simp_all add: staged_key_def h1_def)
  obtain vs us where r: "public_keys E P (Some k) h1 = Inr vs"
    "set vs = insert (public_pinned E k) (set ks) \<union> (if f_next h1 = None then {} else {public_pinned E s})"
    "write_public_keys (vs @ [public_pinned E s]) h1 = Inr (h1\<lparr>f_keyring := Some (Inr (keyring_document us))\<rparr>)"
    "set us = set (vs @ [public_pinned E s])"
    "keyring_is (h1\<lparr>f_keyring := Some (Inr (keyring_document us))\<rparr>) us"
    using rewrite_keyring [OF assms(1) ks1 disjI2 [OF st], of "\<lambda>vs. vs @ [public_pinned E s]" k]
      pinned_parses [OF assms(1)] by auto
  have "h' = h1 \<or> h' = h1\<lparr>f_keyring := Some (Inr (keyring_document us))\<rparr>"
    using assms(5) r(1,3) by (auto simp: prepare_rotation_def k pem(1) h1_def [symmetric] Let_def split: if_splits)
  moreover have "p_load P (f_active h1) = Inr k" using k by (simp add: h1_def)
  ultimately show ?thesis
    using assms(4) sub st ks1 r(2,4,5) by (auto intro!: trust_okI [of P _ k _ _ E s])
qed

lemma activate_trust:
  assumes "ed25519_ok E" "provider_ok P" "trust_ok E P (signers, h)"
    and "h' \<in> set (fst (activate_rotation E P h))" "p_load P (f_active h') = Inr k'"
  shows "trust_ok E P (insert (public_pinned E k') signers, h')"
proof -
  obtain k ks n where k: "p_load P (f_active h) = Inr k" and ks: "keyring_is h ks"
    and sub: "signers \<subseteq> insert (public_pinned E k) (set ks)" and st: "f_next h = None \<or> staged_key P h n"
    and new: "f_next h \<noteq> None \<and> public_pinned E n \<in> signers \<longrightarrow> public_pinned E n = public_pinned E k"
    using assms(3) by (rule trust_okE)
  have nx: "f_next h \<noteq> None" using assms(4) k by (auto simp: activate_rotation_def split: if_splits)
  with st have n: "staged_key P h n" "p_load P (f_next h) = Inr n" by (auto simp: staged_key_def)
  obtain pem where pem: "p_store P n = Inr pem" "p_load P (Some pem) = Inr n"
    using assms(2) by (auto simp: provider_ok_def)
  obtain vs us where r: "public_keys E P (Some k) h = Inr vs"
    "set vs = insert (public_pinned E k) (set ks) \<union> (if f_next h = None then {} else {public_pinned E n})"
    "write_public_keys (vs @ [public_pinned E n]) h = Inr (h\<lparr>f_keyring := Some (Inr (keyring_document us))\<rparr>)"
    "set us = set (vs @ [public_pinned E n])"
    "keyring_is (h\<lparr>f_keyring := Some (Inr (keyring_document us))\<rparr>) us"
    using rewrite_keyring [OF assms(1) ks st, of "\<lambda>vs. vs @ [public_pinned E n]" k]
      pinned_parses [OF assms(1)] by auto
  define h1 where "h1 = h\<lparr>f_keyring := Some (Inr (keyring_document us))\<rparr>"
  have us: "signers \<subseteq> set us" "public_pinned E k \<in> set us" using sub r(2,4) by auto
  consider "h' = h1" | "h' = h1\<lparr>f_active := Some pem\<rparr> \<or> h' = h1\<lparr>f_active := Some pem, f_next := None\<rparr>"
    using assms(4) nx by (auto simp: activate_rotation_def k n(2) r(1,3) pem(1) h1_def Let_def)
  then show ?thesis
  proof cases
    case 1
    with assms(5) k have "k' = k" by (simp add: h1_def)
    with 1 us k n new nx r(5) show ?thesis by (intro trust_okI [of P _ k us _ E n]) (auto simp: h1_def)
  next
    case 2
    with assms(5) pem have "k' = n" by (auto simp: h1_def)
    with 2 us pem n r(5) show ?thesis by (intro trust_okI [of P _ n us _ E n]) (auto simp: h1_def)
  qed
qed

lemma cancel_trust:
  assumes "ed25519_ok E" "trust_ok E P (signers, h)" "h' \<in> set (fst (cancel_rotation E P h))"
  shows "trust_ok E P (signers, h')"
proof -
  obtain k ks n where k: "p_load P (f_active h) = Inr k" and ks: "keyring_is h ks"
    and sub: "signers \<subseteq> insert (public_pinned E k) (set ks)" and st: "f_next h = None \<or> staged_key P h n"
    and new: "f_next h \<noteq> None \<and> public_pinned E n \<in> signers \<longrightarrow> public_pinned E n = public_pinned E k"
    using assms(2) by (rule trust_okE)
  have nx: "f_next h \<noteq> None" using assms(3) k by (auto simp: cancel_rotation_def split: if_splits)
  with st have n: "staged_key P h n" "p_load P (f_next h) = Inr n" by (auto simp: staged_key_def)
  let ?f = "filter (\<lambda>v. v \<noteq> public_pinned E n)"
  obtain vs us where r: "public_keys E P (Some k) h = Inr vs"
    "set vs = insert (public_pinned E k) (set ks) \<union> (if f_next h = None then {} else {public_pinned E n})"
    "write_public_keys (?f vs) h = Inr (h\<lparr>f_keyring := Some (Inr (keyring_document us))\<rparr>)"
    "set us = set (?f vs)" "keyring_is (h\<lparr>f_keyring := Some (Inr (keyring_document us))\<rparr>) us"
    using rewrite_keyring [OF assms(1) ks st, of ?f k] by auto
  define h1 where "h1 = h\<lparr>f_keyring := Some (Inr (keyring_document us))\<rparr>"
  have "signers \<subseteq> insert (public_pinned E k) (set us)" using sub r(2,4) new nx by auto
  moreover have "h' = h1 \<or> h' = h1\<lparr>f_next := None\<rparr>"
    using assms(3) nx by (auto simp: cancel_rotation_def k n(2) r(1,3) h1_def)
  ultimately show ?thesis
    using k n new nx r(5) by (intro trust_okI [of P _ k us _ E n]) (auto simp: h1_def)
qed

lemma pinned_key_id_pinned: "ed25519_ok E \<Longrightarrow> pinned_key_id (public_pinned E k) = Inr (key_id E k)"
  by (simp add: pinned_key_id_def parse_public_pinned key_id_def)

lemma single_match_iff:
  "(case l of [(v, _)] \<Rightarrow> g v | _ \<Rightarrow> Inl e) = Inr y \<longleftrightarrow> (\<exists>v i. l = [(v, i)] \<and> g v = Inr y)"
  by (auto split: list.splits)

lemma retired_key:
  assumes "retire_public_key E P kid h = ([h'], Inr v)"
  obtains k vs where "p_load P (f_active h) = Inr k" "public_keys E P (Some k) h = Inr vs" "v \<in> set vs"
    "pinned_key_id v = Inr kid" "kid \<noteq> key_id E k" "write_public_keys (remove1 v vs) h = Inr h'"
    "\<And>n. staged_key P h n \<Longrightarrow> kid \<noteq> key_id E n"
proof -
  have "\<exists>k staged vs ids i. p_load P (f_active h) = Inr k \<and>
      (if f_next h = None then Inr None else bindE (p_load P (f_next h)) (\<lambda>k. Inr (Some k))) = Inr staged \<and>
      \<not> (kid = key_id E k \<or> (case staged of Some k \<Rightarrow> kid = key_id E k | None \<Rightarrow> False)) \<and>
      public_keys E P (Some k) h = Inr vs \<and> mapE (\<lambda>v. bindE (pinned_key_id v) (\<lambda>i. Inr (v, i))) vs = Inr ids \<and>
      filter (\<lambda>(v, i). i = kid) ids = [(v, i)] \<and> write_public_keys (remove1 v vs) h = Inr h'"
    using assms unfolding retire_public_key_def
    by (auto simp: bindE_Inr_iff single_match_iff simp del: not_None_eq split: sum.splits prod.splits)
  then obtain k staged vs ids i where k: "p_load P (f_active h) = Inr k"
    and st: "(if f_next h = None then Inr None else bindE (p_load P (f_next h)) (\<lambda>k. Inr (Some k))) = Inr staged"
    and ne: "\<not> (kid = key_id E k \<or> (case staged of Some k \<Rightarrow> kid = key_id E k | None \<Rightarrow> False))"
    and vs: "public_keys E P (Some k) h = Inr vs"
    and ids: "mapE (\<lambda>v. bindE (pinned_key_id v) (\<lambda>i. Inr (v, i))) vs = Inr ids"
    and f: "filter (\<lambda>(v, i). i = kid) ids = [(v, i)]" and w: "write_public_keys (remove1 v vs) h = Inr h'"
    by blast
  have "(v, i) \<in> set (filter (\<lambda>(v, i). i = kid) ids)" by (simp add: f)
  then have "(v, kid) \<in> set ids" by auto
  then obtain v' where "v' \<in> set vs" "bindE (pinned_key_id v') (\<lambda>i. Inr (v', i)) = Inr (v, kid)"
    using mapE_preimage [OF ids] by blast
  then have "v \<in> set vs" "pinned_key_id v = Inr kid" by (auto simp: bindE_Inr_iff)
  moreover have "kid \<noteq> key_id E n" if "staged_key P h n" for n
    using that st ne by (auto simp: staged_key_def)
  ultimately show thesis using that [of k vs] k vs w ne by blast
qed

lemma retire_trust:
  assumes "ed25519_ok E" "trust_ok E P (signers, h)" "retire_public_key E P kid h = ([h'], Inr v)"
  shows "trust_ok E P (signers - {v}, h')"
proof -
  obtain k ks n where k: "p_load P (f_active h) = Inr k" and ks: "keyring_is h ks"
    and sub: "signers \<subseteq> insert (public_pinned E k) (set ks)" and st: "f_next h = None \<or> staged_key P h n"
    and new: "f_next h \<noteq> None \<and> public_pinned E n \<in> signers \<longrightarrow> public_pinned E n = public_pinned E k"
    using assms(2) by (rule trust_okE)
  obtain vs' where vs': "public_keys E P (Some k) h = Inr vs'" "v \<in> set vs'"
    and id: "pinned_key_id v = Inr kid" "kid \<noteq> key_id E k" and w: "write_public_keys (remove1 v vs') h = Inr h'"
    using retired_key [OF assms(3)] k by force
  obtain vs us where r: "public_keys E P (Some k) h = Inr vs"
    "set vs = insert (public_pinned E k) (set ks) \<union> (if f_next h = None then {} else {public_pinned E n})"
    "write_public_keys (remove1 v vs) h = Inr (h\<lparr>f_keyring := Some (Inr (keyring_document us))\<rparr>)"
    "set us = set (remove1 v vs)" "keyring_is (h\<lparr>f_keyring := Some (Inr (keyring_document us))\<rparr>) us"
    using rewrite_keyring [OF assms(1) ks st, of "remove1 v" k] set_remove1_subset [of v] by blast
  have h': "h' = h\<lparr>f_keyring := Some (Inr (keyring_document us))\<rparr>" using vs'(1) w r(1,3) by simp
  have "set vs - {v} \<subseteq> set us" unfolding r(4) by (metis Diff_iff in_set_remove1 singletonI subsetI)
  then have "signers - {v} \<subseteq> insert (public_pinned E k) (set us)" using sub r(2) by auto
  then show ?thesis
    using k st new r(5) by (intro trust_okI [of P _ k us _ E n]) (auto simp: h')
qed

lemmas operations_keep_trust = initialize_trust prepare_trust activate_trust cancel_trust retire_trust

definition empty_home :: home where
  "empty_home = \<lparr>f_active = None, f_next = None, f_keyring = None\<rparr>"

lemma empty_home_idle [simp]:
  assumes "\<And>k. p_load P None \<noteq> Inr k"
  shows "fst (prepare_rotation E P s empty_home) = []" "fst (activate_rotation E P empty_home) = []"
    "fst (cancel_rotation E P empty_home) = []" "retire_public_key E P kid empty_home \<noteq> ([h'], Inr v)"
  using assms by (cases "p_load P None"; simp add: prepare_rotation_def activate_rotation_def cancel_rotation_def
    retire_public_key_def empty_home_def)+

lemma key_step_trust:
  assumes "ed25519_ok E" "provider_ok P" "\<And>k. p_load P None \<noteq> Inr k" "key_step E P st st'"
    and "st = ({}, empty_home) \<or> trust_ok E P st"
  shows "trust_ok E P st'"
  using assms(4)
proof cases
  case (Initialize h' replace k h signers)
  with assms show ?thesis by (auto simp: empty_home_def intro!: initialize_trust)
qed (use assms in \<open>auto intro: prepare_trust activate_trust cancel_trust retire_trust\<close>)

definition sound_backend :: "'k ed25519 \<Rightarrow> 'k provider \<Rightarrow> bool" where
  "sound_backend E P \<longleftrightarrow> ed25519_ok E \<and> provider_ok P \<and> (\<forall>k. p_load P None \<noteq> Inr k)"

interpretation rotation: step_invariant "key_step E P"
    "\<lambda>st. sound_backend E P \<longrightarrow> st = ({}, empty_home) \<or> trust_ok E P st" for E P
  by unfold_locales (auto simp: sound_backend_def intro: key_step_trust)

lemma file_provider_sound:
  "ed25519_ok E \<Longrightarrow> pem_ok L \<Longrightarrow> passphrase \<noteq> Some [] \<Longrightarrow> sound_backend E (file_provider L passphrase)"
  using file_provider_ok [of L passphrase] by (simp add: sound_backend_def) (simp add: file_provider_def file_load_def)

lemma trust_ok_published:
  assumes "ed25519_ok E" "trust_ok E P (signers, h)"
  shows "\<exists>k vs. p_load P (f_active h) = Inr k \<and> public_keys E P None h = Inr vs \<and> distinct vs \<and>
    insert (public_pinned E k) signers \<subseteq> set vs"
proof -
  obtain k ks n where k: "p_load P (f_active h) = Inr k" and ks: "keyring_is h ks"
    and sub: "signers \<subseteq> insert (public_pinned E k) (set ks)" and st: "f_next h = None \<or> staged_key P h n"
    using assms(2) by (rule trust_okE)
  obtain vs where "public_keys E P None h = Inr vs" "distinct vs" "insert (public_pinned E k) (set ks) \<subseteq> set vs"
    using public_keys_ok [OF assms(1) ks st, of None k] k by auto
  with k sub show ?thesis by blast
qed

end
