(* ===== verification/Startup.thy ===== *)
theory Startup
  imports App Keys
begin

text \<open>
  \<open>create_app\<close> and \<open>app_from_env\<close> of \<open>app.py\<close>: how a process starts from its data home and its
  environment. The home is the key directory, the database file and the auditors file. A JSON
  file is the result of reading it with \<open>load_json\<close>; an environment variable is the result of
  Python's \<open>int\<close> or \<open>float\<close> on it, when it is set.
\<close>

record world =
  w_home :: home
  w_db :: "db option"
  w_auditors :: "json res option"

text \<open>\<open>float\<close> may give a value that is not finite (\<open>None\<close>).\<close>

record environment =
  en_interval :: "rat option res option"
  en_concurrent :: "int res option"
  en_network :: "int res option"
  en_submissions :: "int res option"
  en_checkpoint :: "bytes res option"

definition DEFAULT_HEALTH_VERIFY_INTERVAL_SECONDS :: rat where "DEFAULT_HEALTH_VERIFY_INTERVAL_SECONDS = 300"
definition DEFAULT_MAX_CONCURRENT_REQUESTS :: int where "DEFAULT_MAX_CONCURRENT_REQUESTS = 128"
definition DEFAULT_NETWORK_REQUESTS_PER_MINUTE :: int where "DEFAULT_NETWORK_REQUESTS_PER_MINUTE = 600"
definition DEFAULT_AUDITOR_SUBMISSIONS_PER_MINUTE :: int where "DEFAULT_AUDITOR_SUBMISSIONS_PER_MINUTE = 120"

definition positive_env :: "int res option \<Rightarrow> int \<Rightarrow> int res" where
  "positive_env raw fallback =
    (case raw of
       None \<Rightarrow> Inr fallback
     | Some (Inl e) \<Rightarrow> Inl (if is_ValueError e then RuntimeError ''must be a positive integer'' else e)
     | Some (Inr v) \<Rightarrow> (if v < 1 then Inl (RuntimeError ''must be a positive integer'') else Inr v))"

definition positive_float_env :: "rat option res option \<Rightarrow> rat \<Rightarrow> rat res" where
  "positive_float_env raw fallback =
    (case raw of
       None \<Rightarrow> Inr fallback
     | Some (Inl e) \<Rightarrow> Inl (if is_ValueError e then RuntimeError ''must be a positive number of seconds'' else e)
     | Some (Inr None) \<Rightarrow> Inl (RuntimeError ''must be a positive number of seconds'')
     | Some (Inr (Some v)) \<Rightarrow>
        (if v \<le> 0 then Inl (RuntimeError ''must be a positive number of seconds'') else Inr v))"

record 'k running =
  r_service :: "'k service"
  r_slots :: int
  r_network :: limiter
  r_auditor_limiter :: limiter

definition create_app ::
  "'k ed25519 \<Rightarrow> 'k \<Rightarrow> auditor_tokens \<Rightarrow> str list \<Rightarrow> int \<Rightarrow> int \<Rightarrow> int \<Rightarrow> 'k running res" where
  "create_app E signing_key tokens verification_keys max_concurrent network submissions =
    (if max_concurrent < 1 then Inl (ValueError ''max_concurrent_requests must be positive'')
     else
       bindE (new_limiter network 60 10000) (\<lambda>network_limiter.
       bindE (new_limiter submissions 60 10000) (\<lambda>auditor_limiter.
         Inr \<lparr>r_service = \<lparr>sv_ed25519 = E, sv_signing_key = signing_key, sv_verification_keys = verification_keys,
                            sv_tokens = tokens\<rparr>,
              r_slots = max_concurrent, r_network = network_limiter, r_auditor_limiter = auditor_limiter\<rparr>)))"

text \<open>\<open>Store(path)\<close>: a missing file is created with the empty schema.\<close>

definition database_of :: "str \<Rightarrow> db option \<Rightarrow> db" where
  "database_of utc file = (case file of Some d \<Rightarrow> d | None \<Rightarrow> new_db utc)"

definition open_store :: "string list \<Rightarrow> rat \<Rightarrow> rat \<Rightarrow> str \<Rightarrow> db option \<Rightarrow> store res" where
  "open_store pragma interval now utc file =
    open_verified pragma interval now utc (database_of utc file)"

definition read_auditors :: "unit res \<Rightarrow> json res option \<Rightarrow> auditor_tokens res" where
  "read_auditors require_private file =
    (case file of
       None \<Rightarrow> new_tokens []
     | Some content \<Rightarrow> bindE require_private (\<lambda>_. bindE content load_auditors))"

text \<open>The running service, the verified store and the outcome of the checkpoint comparison.\<close>

definition app_from_env ::
  "'k ed25519 \<Rightarrow> 'k provider \<Rightarrow> environment \<Rightarrow> unit res \<Rightarrow> string list \<Rightarrow> rat \<Rightarrow> str \<Rightarrow> world \<Rightarrow>
   ('k running \<times> store \<times> posture) res" where
  "app_from_env E P env require_private pragma now utc w =
    bindE (guardE (f_active (w_home w) \<noteq> None) (RuntimeError ''signing key not found'')) (\<lambda>_.
    bindE (p_load P (f_active (w_home w))) (\<lambda>signing_key.
    bindE (positive_float_env (en_interval env) DEFAULT_HEALTH_VERIFY_INTERVAL_SECONDS) (\<lambda>interval.
    bindE (open_store pragma interval now utc (w_db w)) (\<lambda>s.
    bindE (read_auditors require_private (w_auditors w)) (\<lambda>tokens.
    bindE (public_keys E P (Some signing_key) (w_home w)) (\<lambda>verification_keys.
      case enforce_startup_checkpoint E verification_keys now (en_checkpoint env) s of
        (Inl e, s1) \<Rightarrow> Inl e
      | (Inr posture, s1) \<Rightarrow>
         bindE (positive_env (en_concurrent env) DEFAULT_MAX_CONCURRENT_REQUESTS) (\<lambda>slots.
         bindE (positive_env (en_network env) DEFAULT_NETWORK_REQUESTS_PER_MINUTE) (\<lambda>network.
         bindE (positive_env (en_submissions env) DEFAULT_AUDITOR_SUBMISSIONS_PER_MINUTE) (\<lambda>submissions.
         bindE (create_app E signing_key tokens verification_keys slots network submissions) (\<lambda>app.
           Inr (app, s1, posture)))))))))))"



section \<open>A home that starts\<close>

definition settings_ok :: "environment \<Rightarrow> bool" where
  "settings_ok env \<longleftrightarrow>
    (\<forall>v. en_interval env = Some v \<longrightarrow> (\<exists>x > 0. v = Inr (Some x))) \<and>
    (\<forall>r \<in> {en_concurrent env, en_network env, en_submissions env}. \<forall>v. r = Some v \<longrightarrow> (\<exists>x > 0. v = Inr x))"

lemma positive_env_ok: "\<forall>v. raw = Some v \<longrightarrow> (\<exists>x > 0. v = Inr x) \<Longrightarrow> 0 < fallback \<Longrightarrow> \<exists>n > 0. positive_env raw fallback = Inr n"
  by (cases raw) (auto simp: positive_env_def not_less)

lemma positive_float_env_ok:
  "\<forall>v. raw = Some v \<longrightarrow> (\<exists>x > 0. v = Inr (Some x)) \<Longrightarrow> 0 < fallback \<Longrightarrow> \<exists>n > 0. positive_float_env raw fallback = Inr n"
  by (cases raw) (auto simp: positive_float_env_def not_le)

lemma opened_writable:
  assumes "open_verified pragma interval now utc d = Inr s"
  shows "require_writes_allowed now s = Inr ()"
  using assms by (auto simp: open_verified_def bindE_Inr_iff opened_def require_writes_allowed_def health_stale_def split: if_splits)

lemma create_app_ok:
  assumes "0 < slots" "0 < network" "0 < submissions"
  obtains app where "create_app E k tokens ks slots network submissions = Inr app" "r_slots app = slots"
    "r_service app = \<lparr>sv_ed25519 = E, sv_signing_key = k, sv_verification_keys = ks, sv_tokens = tokens\<rparr>"
  using assms by (auto simp: create_app_def new_limiter_def)

lemma service_starts:
  assumes E: "ed25519_ok E" and home: "trust_ok E P (signers, w_home w)" "f_active (w_home w) \<noteq> None"
    and d: "db_ok (database_of utc (w_db w)) es" and tokens: "read_auditors private (w_auditors w) = Inr tokens"
    and env: "settings_ok env" "en_checkpoint env = None"
  obtains app s where "app_from_env E P env private [''ok''] now utc w = Inr (app, s, NotConfigured)"
    "store_ok s es" "require_writes_allowed now s = Inr ()" "sv_tokens (r_service app) = tokens" "0 < r_slots app"
    "p_load P (f_active (w_home w)) = Inr (sv_signing_key (r_service app))"
    "insert (public_pinned E (sv_signing_key (r_service app))) signers \<subseteq> set (sv_verification_keys (r_service app))"
proof -
  obtain k ks n where k: "p_load P (f_active (w_home w)) = Inr k" "keyring_is (w_home w) ks"
    "signers \<subseteq> insert (public_pinned E k) (set ks)" "f_next (w_home w) = None \<or> staged_key P (w_home w) n"
    using home(1) by (rule trust_okE)
  obtain vs where vs: "public_keys E P (Some k) (w_home w) = Inr vs" "insert (public_pinned E k) signers \<subseteq> set vs"
    using public_keys_ok [OF E k(2,4), of "Some k" k] k(3) by auto
  obtain interval where i: "0 < interval" "positive_float_env (en_interval env) DEFAULT_HEALTH_VERIFY_INTERVAL_SECONDS = Inr interval"
    using positive_float_env_ok [of "en_interval env" 300] env(1) by (auto simp: settings_ok_def DEFAULT_HEALTH_VERIFY_INTERVAL_SECONDS_def)
  obtain s where s: "open_verified [''ok''] interval now utc (database_of utc (w_db w)) = Inr s" "store_ok s es"
    using open_verified_ok [OF d i(1), of now utc] by blast
  have pos: "\<exists>x > 0. positive_env r fallback = Inr x" if "r \<in> {en_concurrent env, en_network env, en_submissions env}" "0 < fallback" for r fallback
    using positive_env_ok [of r] env(1) that unfolding settings_ok_def by blast
  obtain a b c where abc: "0 < a" "0 < b" "0 < c" "positive_env (en_concurrent env) DEFAULT_MAX_CONCURRENT_REQUESTS = Inr a"
    "positive_env (en_network env) DEFAULT_NETWORK_REQUESTS_PER_MINUTE = Inr b"
    "positive_env (en_submissions env) DEFAULT_AUDITOR_SUBMISSIONS_PER_MINUTE = Inr c"
    using pos [of "en_concurrent env" 128] pos [of "en_network env" 600] pos [of "en_submissions env" 120]
    unfolding DEFAULT_MAX_CONCURRENT_REQUESTS_def DEFAULT_NETWORK_REQUESTS_PER_MINUTE_def DEFAULT_AUDITOR_SUBMISSIONS_PER_MINUTE_def
    by (metis insert_iff zero_less_numeral)
  obtain app where app: "create_app E k tokens vs a b c = Inr app" "r_slots app = a"
    "r_service app = \<lparr>sv_ed25519 = E, sv_signing_key = k, sv_verification_keys = vs, sv_tokens = tokens\<rparr>"
    by (rule create_app_ok [OF abc(1-3), of E k tokens vs])
  have "app_from_env E P env private [''ok''] now utc w = Inr (app, s, NotConfigured)"
    by (simp add: app_from_env_def home(2) k(1) i(2) open_store_def s(1) tokens vs(1) enforce_startup_checkpoint_def env(2) abc(4-6) app(1))
  from that [OF this s(2) opened_writable [OF s(1)]] show thesis using app(2,3) abc(1) k(1) vs(2) by simp
qed

end
