(* ===== verification/Federation.thy ===== *)
theory Federation
  imports AppRead
begin

text \<open>
  Export and import together: a bundle that is exported from a quiet registry verifies against
  the key of that registry and carries its whole log, a commit between the two reads of an
  export makes the bundle one that every importer refuses, and a record that an upstream has
  itself imported gets a ledger fingerprint that the next integrity check contradicts.
\<close>

section \<open>An export verifies\<close>

lemma log_entries_all:
  assumes "db_ok d es"
  shows "log_entries 0 None d = Inr (view_between es 0 (length es))"
proof -
  have t: "tables_ok d es" and len: "int (length es) < 2 ^ 63" using assms by (simp_all add: db_ok_def)
  have b: "snapshot_boundary_locked None d = Inr (boundary_spec (created_of d) es (length es))"
    using snapshot_boundary_ok [OF assms, of None] by simp
  have "mapE entry_from_row (map (row_at es) (filter (\<lambda>i. 0 < int (i + 1)) [0..<length es])) =
      Inr (map (entry_view es) (filter (\<lambda>i. 0 < int (i + 1)) [0..<length es]))"
    by (rule mapE_rows_ok [OF t]) auto
  then show ?thesis
    using len by (simp add: log_entries_def b boundary_spec_size bind_ints_def rows_between_ok [OF t] view_between_def)
qed

lemma exported_records: "map e_record (view_between es 0 (length es)) = map (\<lambda>e. sorted_record (fst e)) es"
proof -
  have "filter (\<lambda>i. 0 < int (i + 1)) [0..<length es] = [0..<length es]" by (simp add: filter_id_conv)
  then show ?thesis by (auto simp: view_between_def entry_view_def intro: nth_equalityI)
qed

lemma chain_from_sorted:
  assumes "\<forall>r \<in> set rs. \<exists>c. canonical_bytes r = Inr c"
  shows "chain_from ls (map sorted_record rs) = chain_from ls rs"
  using assms
proof (induction rs arbitrary: ls)
  case (Cons r rs)
  then obtain c where "canonical_bytes r = Inr c" by auto
  then have "leaf_hash p (sorted_record r) = leaf_hash p r" for p
    using canonical_bytes_sorted by (simp add: leaf_hash_def chain_bytes_def)
  with Cons show ?case by simp
qed simp

definition signed_log :: "'k ed25519 \<Rightarrow> 'k \<Rightarrow> entry list \<Rightarrow> bool" where
  "signed_log E k es \<longleftrightarrow>
    (\<forall>e \<in> set es. validate_record (JObj (fst e)) = Inr (fst e) \<and> verify_signed E (public_pinned E k) (fst e))"

definition bundle_schema :: "obj list \<Rightarrow> int" where
  "bundle_schema rs = (if list_ex (\<lambda>r. py_eq_int (get_or r ''hash_version'' JNull) 2) rs then 2 else 1)"

abbreviation exported :: "entry list \<Rightarrow> obj list" where
  "exported es \<equiv> map (\<lambda>e. sorted_record (fst e)) es"

lemma export_shape:
  assumes "db_ok (st_db s1) es" "build_snapshot E k None None None s2 = Inr snap"
  shows "export_bundle E k s1 s2 =
    Inr [(lit ''schema_version'', JInt (bundle_schema (exported es))), (lit ''records'', JArr (map JObj (exported es))),
         (lit ''snapshot'', JObj snap), (lit ''public_key'', JStr (public_pinned E k))]"
  unfolding export_bundle_def log_entries_all [OF assms(1)] assms(2) bindE_simps Let_def exported_records bundle_schema_def ..

lemma signed_log_accepted:
  assumes "signed_log E k es" "db_ok d es"
  shows "verify_records E (public_pinned E k) (bundle_schema (exported es)) (map JObj (exported es)) GENESIS =
    Inr (exported es, leaves es, head_of (leaves es))"
proof -
  have ok: "dict_ok (JObj (fst e))" if "e \<in> set es" for e
    using assms(2) that by (auto simp: db_ok_def tables_ok_def entry_ok_def)
  have c: "\<forall>r \<in> set (map fst es). \<exists>c. canonical_bytes r = Inr c"
    using assms(1) verify_signed_canonical by (fastforce simp: signed_log_def)
  have "record_accepted E (public_pinned E k) (bundle_schema (exported es)) (sorted_record (fst e))" if e: "e \<in> set es" for e
    using assms(1) e ok [OF e] validate_record_sort [OF ok [OF e]] verify_signed_sort [OF ok [OF e]]
    by (auto simp: record_accepted_def signed_log_def bundle_schema_def list_ex_iff)
  then show ?thesis
    using leaves_chain [of es] chain_from_sorted [OF c, of "[]"] by (subst verify_records_Inr) (auto simp: comp_def)
qed

lemma boundary_spec_whole:
  "sb_head (boundary_spec created es (length es)) = head_of (leaves es)"
  "sb_merkle_root (boundary_spec created es (length es)) = (if leaves es = [] then GENESIS else hex (root_of (leaves es)))"
proof -
  have "leaves es = [] \<longleftrightarrow> es = []" by (metis length_0_conv length_leaves)
  then show "sb_head (boundary_spec created es (length es)) = head_of (leaves es)"
    "sb_merkle_root (boundary_spec created es (length es)) = (if leaves es = [] then GENESIS else hex (root_of (leaves es)))"
    by (simp_all add: boundary_spec_def head_of_def last_conv_nth)
qed

lemma verify_bundle_members:
  assumes "n \<in> {1, 2}" "validate_snapshot (JObj snap) = Inr snap" "verify_signed E key snap" "parse_public_key key = Inr raw"
    "verify_records E key n records GENESIS = Inr (vs, ls, head)"
    "map_of snap (lit ''log_size'') = Some (JInt z)"
    "z = int (length vs) \<Longrightarrow> map_of snap (lit ''head'') = Some (JStr head) \<and>
      map_of snap (lit ''merkle_root'') = Some (JStr (if ls = [] then GENESIS else hex (root_of ls)))"
  shows "verify_bundle E key (JObj [(lit ''schema_version'', JInt n), (lit ''records'', JArr records),
      (lit ''snapshot'', JObj snap), (lit ''public_key'', JStr key)]) =
    (if z = int (length vs) then Inr (snap, vs)
     else Inl (ValueError ''bundle records do not match the snapshot log head or size''))"
proof -
  define offered where "offered = [(lit ''schema_version'', JInt n), (lit ''records'', JArr records),
      (lit ''snapshot'', JObj snap), (lit ''public_key'', JStr key)]"
  have f: "keys_of offered = {lit ''schema_version'', lit ''records'', lit ''snapshot'', lit ''public_key''}"
    "get_int offered (lit ''schema_version'') = Some n" "get_or offered ''snapshot'' JNull = JObj snap"
    "get_or offered ''records'' JNull = JArr records" "embedded_key_ok offered key = Inr ()"
    using assms(4) by (simp_all add: offered_def get_int_def embedded_key_ok_def)
  show ?thesis
    using assms(1,2,3,6,7) unfolding offered_def [symmetric] verify_bundle_def json.case f
    by (auto simp: assms(5) bundle_merkle_root_eq simp del: get_int_Some)
qed

lemma pinned_str_ok: "str_ok (public_pinned E k)"
proof -
  have "str_ok s" if "plain_text s" for s using that by (auto simp: plain_text_def str_ok_def)
  then show ?thesis using b64encode_plain str_ok_lit by (auto simp: public_pinned_def str_ok_def)
qed

text \<open>The log at the first read is \<open>es\<close>, at the second \<open>es @ new\<close>.\<close>

lemma export_verifies:
  assumes "ed25519_ok E" "store_ok s1 es" "store_ok s2 (es @ new)" "int (length (es @ new)) \<le> MAX_SAFE_INTEGER"
    "signed_log E k es"
  obtains offered snap where "export_bundle E k s1 s2 = Inr offered" "dict_ok (JObj offered)"
    "verify_bundle E (public_pinned E k) (JObj offered) =
      (if new = [] then Inr (snap, exported es)
       else Inl (ValueError ''bundle records do not match the snapshot log head or size''))"
proof -
  have d: "db_ok (st_db s1) es" "db_ok (st_db s2) (es @ new)" using assms(2,3) by (simp_all add: store_ok_def)
  let ?n = "length (es @ new)" and ?key = "public_pinned E k"
  let ?b = "boundary_spec (created_of (st_db s2)) (es @ new) ?n"
  obtain m snap where snap: "sign_record E k (snapshot_body ?b) = Inr snap"
      "snap = snapshot_body ?b @ [(lit ''sig'', sig_envelope E k m)]" "validate_snapshot (JObj snap) = Inr snap"
      "verify_signed E ?key snap" "document_ok 2 (JObj snap)"
    using snapshot_valid [OF assms(1) boundary_spec_ok [OF d(2) le_refl assms(4)]] by blast
  have "snapshot_boundary None s2 = Inr ?b"
    using snapshot_boundary_ok [OF d(2), of None] by (simp add: snapshot_boundary_def nat_add_distrib)
  then have "build_snapshot E k None None None s2 = Inr snap" using snap(1) by (simp add: build_snapshot_def)
  note x = export_shape [OF d(1) this]
  have sz: "map_of snap (lit ''log_size'') = Some (JInt (int ?n))"
    by (simp add: snap(2) snapshot_body_def boundary_spec_size)
  have hd: "map_of snap (lit ''head'') = Some (JStr (head_of (leaves es)))"
    "map_of snap (lit ''merkle_root'') = Some (JStr (if leaves es = [] then GENESIS else hex (root_of (leaves es))))"
    if "new = []"
    using that by (simp_all add: snap(2) snapshot_body_def boundary_spec_whole)
  have "verify_bundle E ?key (JObj [(lit ''schema_version'', JInt (bundle_schema (exported es))),
        (lit ''records'', JArr (map JObj (exported es))), (lit ''snapshot'', JObj snap), (lit ''public_key'', JStr ?key)]) =
      (if int ?n = int (length (exported es)) then Inr (snap, exported es)
       else Inl (ValueError ''bundle records do not match the snapshot log head or size''))"
    by (rule verify_bundle_members [OF _ snap(3,4) parse_public_pinned [OF assms(1)] signed_log_accepted [OF assms(5) d(1)] sz])
      (use hd in \<open>auto simp: bundle_schema_def\<close>)
  moreover have "dict_ok (JObj (sorted_record (fst e)))" if "e \<in> set es" for e
    using d(1) that by (intro sorted_record_ok) (auto simp: db_ok_def tables_ok_def entry_ok_def simp del: dict_ok_JObj)
  then have "dict_ok (JArr (map JObj (exported es)))" by (auto simp del: dict_ok_JObj)
  then have "dict_ok (JObj [(lit ''schema_version'', JInt (bundle_schema (exported es))),
        (lit ''records'', JArr (map JObj (exported es))), (lit ''snapshot'', JObj snap), (lit ''public_key'', JStr ?key)])"
    using snap(5) pinned_str_ok [of E k] by (auto simp: document_ok_def str_ok_lit)
  ultimately show thesis using that [OF x, of snap] by simp
qed


section \<open>A record imported twice\<close>

lemma db_ok_issues:
  assumes "db_ok d es" "d' = d\<lparr>db_imported := db_imported d @ [m]\<rparr>" "imported_issues d m = Inr issues"
  shows "\<exists>errors walked. integrity_errors_on [''ok''] d' = Inr (errors, walked) \<and> set issues \<subseteq> set errors"
proof -
  have t: "tables_ok d es" and l: "ledgers_ok d es" using assms(1) by (simp_all add: db_ok_def)
  have row: "log_row_at d' = log_row_at d" by (simp add: fun_eq_iff assms(2) log_row_at_def)
  have same: "idempotency_issues d' = idempotency_issues d" "imported_issues d' = imported_issues d"
    unfolding fun_eq_iff idempotency_issues_def imported_issues_def row by simp_all
  have w: "integrity_errors_on [''ok''] d = Inr ([], walked_of es)" by (rule integrity_errors_ok [OF assms(1)])
  then obtain chain walked ledger rest where
    c: "walk GENESIS 1 (db_log d) = Inr (chain, walked)"
      "mapE (idempotency_issues d (rev (map (\<lambda>(seq, h, t). (seq, h)) walked))) (db_idempotency d) = Inr ledger"
      "mapE (imported_issues d) (db_imported d) = Inr rest"
    by (auto simp: integrity_errors_on_def bindE_Inr_iff)
  have "mapE (imported_issues d) (db_imported d @ [m]) = Inr (rest @ [issues])"
    using c(3) assms(3) by (simp add: mapE_append)
  with c show ?thesis by (auto simp: integrity_errors_on_def same) (auto simp: assms(2))
qed

lemma chained_import_flagged:
  assumes r: "record_accepted E pinned schema r" "dict_ok (JObj r)" "countersign_import E key r = Inr (f, out)"
    "import_signature (prior_endorsements r) = JStr g" "g \<noteq> []" "own_signature r \<noteq> JStr g"
    and d: "db_ok d es" "length es + 1 < 2 ^ 63" "timestamp t" "import_records t [(f, out)] 0 None d = Inr ((1, latest), d')"
  shows "\<exists>p q. fingerprint_payload r (own_signature r) = Inr p \<and> fingerprint_payload r (JStr g) = Inr q \<and> p \<noteq> q \<and>
    (sha256_hex p = sha256_hex q \<or>
     (\<exists>errors walked. integrity_errors_on [''ok''] d' = Inr (errors, walked) \<and>
       Issue ''import fingerprint is inconsistent'' (Some (int (length es) + 1)) \<in> set errors))"
proof -
  obtain p q where pq: "fingerprint_payload r (own_signature r) = Inr p" "fingerprint_payload r (JStr g) = Inr q" "p \<noteq> q"
    "f = sha256_hex p" "import_fingerprint (JObj out) = Inr (Some (sha256_hex q))"
    by (rule countersigned_elsewhere [OF r])
  have "sign_record E key (countersign_body (lit ''upstream-import'') r) = Inr out"
    using r(3) by (auto simp: countersign_import_def bindE_Inr_iff simp del: json_dumps.simps)
  then have vr: "value_ok out t" by (rule countersigned_value_ok [OF r(2) _ d(3)]) (simp add: str_ok_lit)
  obtain entry d1 where a: "append_locked out t d = Inr (entry, d1)"
    and d': "d' = d1\<lparr>db_imported := db_imported d1 @ [\<lparr>m_fingerprint = f, m_imported_at = t, m_seq = Some (e_seq entry)\<rparr>]\<rparr>"
    using d(4) by (auto simp: bindE_Inr_iff split: if_splits)
  from append_locked_db_ok [OF d(1,2) vr a] have e: "entry = entry_at es out" "db_ok d1 (es @ [(out, t)])" by blast+
  let ?m = "\<lparr>m_fingerprint = f, m_imported_at = t, m_seq = Some (int (length es) + 1)\<rparr>"
  have "imported_issues d1 ?m = Inr (if Some (sha256_hex q) \<noteq> Some f
      then [Issue ''import fingerprint is inconsistent'' (Some (int (length es) + 1))] else [])"
    using imported_issues_at [of d1 "es @ [(out, t)]" ?m] e(2) pq(5) by (simp add: db_ok_def nat_add_distrib)
  from db_ok_issues [OF e(2) _ this, of d'] show ?thesis
    using pq d' by (auto simp: e(1) entry_at_def)
qed

end
