(* ===== verification/Cli.thy ===== *)
theory Cli
  imports Startup Federation AppSubmit
begin

text \<open>
  \<open>cli.py\<close>: the administration commands as functions on the data home. A command returns its exit
  code, or the exception that ends the process with a traceback, and the home it leaves; what it
  prints is modelled where it is a signed document. A JSON file that a command writes with
  \<open>json.dumps\<close> is what \<open>load_json\<close> reads back: the same value when it has a canonical form, and an
  error otherwise. Argument parsing and the running of the server belong to the libraries.
\<close>

type_synonym command = "world \<Rightarrow> int res \<times> world"

definition json_file :: "json \<Rightarrow> json res" where
  "json_file v =
    (case canonical_document v of Inr _ \<Rightarrow> Inr v | Inl _ \<Rightarrow> Inl (ProtocolError ''JSON value is not canonical''))"

text \<open>\<open>main\<close>: only the passphrase error of a key is turned into an exit code there.\<close>

definition cli_main :: "command \<Rightarrow> command" where
  "cli_main func w =
    (case func w of
       (Inl (KeyPassphraseError m), w') \<Rightarrow> (Inr 1, w')
     | other \<Rightarrow> other)"

text \<open>
  Opening the registry of the home: a missing file is there afterwards, and what the opening wrote
  of a rebuilt cache is in it.
\<close>

definition with_store :: "string list \<Rightarrow> rat \<Rightarrow> str \<Rightarrow> (store \<Rightarrow> world \<Rightarrow> 'a res \<times> world) \<Rightarrow> world \<Rightarrow> 'a res \<times> world" where
  "with_store pragma now utc body w =
    (case open_store pragma DEFAULT_HEALTH_VERIFY_INTERVAL_SECONDS now utc (w_db w) of
       Inl e \<Rightarrow> (Inl e, w\<lparr>w_db := Some (database_of utc (w_db w))\<rparr>)
     | Inr s \<Rightarrow> body s (w\<lparr>w_db := Some (st_db s)\<rparr>))"


section \<open>Keys\<close>

text \<open>\<open>except (OSError, ValueError)\<close> around a key operation; the last file state it reached stays.\<close>

definition key_command :: "'a steps \<Rightarrow> command" where
  "key_command r w =
    (case r of (states, result) \<Rightarrow>
      (case result of
         Inr _ \<Rightarrow> Inr 0
       | Inl e \<Rightarrow> (if is_OSError e \<or> is_ValueError e then Inr 1 else Inl e),
       w\<lparr>w_home := last (w_home w # states)\<rparr>))"

definition cmd_genkey :: "'k ed25519 \<Rightarrow> 'k provider \<Rightarrow> bool \<Rightarrow> 'k \<Rightarrow> string list \<Rightarrow> rat \<Rightarrow> str \<Rightarrow> command" where
  "cmd_genkey E P force key pragma now utc w =
    (if f_active (w_home w) \<noteq> None \<and> \<not> force then (Inr 1, w)
     else if f_active (w_home w) \<noteq> None \<and> w_db w \<noteq> None then
       (case with_store pragma now utc (\<lambda>s w1. (store_head s, w1)) w of
          (Inl e, w1) \<Rightarrow> (if is_StoreIntegrityError e then Inr 2 else Inl e, w1)
        | (Inr (log_size, _), w1) \<Rightarrow>
           (if log_size > 0 then (Inr 1, w1) else key_command (initialize_key E P force key (w_home w1)) w1))
     else key_command (initialize_key E P force key (w_home w)) w)"

definition cmd_prepare_key_rotation :: "'k ed25519 \<Rightarrow> 'k provider \<Rightarrow> 'k \<Rightarrow> command" where
  "cmd_prepare_key_rotation E P staged w = key_command (prepare_rotation E P staged (w_home w)) w"

definition cmd_activate_key_rotation :: "'k ed25519 \<Rightarrow> 'k provider \<Rightarrow> bool \<Rightarrow> command" where
  "cmd_activate_key_rotation E P confirm_pins_deployed w =
    (if \<not> confirm_pins_deployed then (Inr 1, w) else key_command (activate_rotation E P (w_home w)) w)"

definition cmd_cancel_key_rotation :: "'k ed25519 \<Rightarrow> 'k provider \<Rightarrow> bool \<Rightarrow> command" where
  "cmd_cancel_key_rotation E P confirm w =
    (if \<not> confirm then (Inr 1, w) else key_command (cancel_rotation E P (w_home w)) w)"

definition cmd_retire_key :: "'k ed25519 \<Rightarrow> 'k provider \<Rightarrow> bool \<Rightarrow> bool \<Rightarrow> str \<Rightarrow> command" where
  "cmd_retire_key E P confirm_overlap_elapsed compromised kid w =
    (if \<not> confirm_overlap_elapsed \<and> \<not> compromised then (Inr 1, w)
     else key_command (retire_public_key E P kid (w_home w)) w)"


section \<open>Auditors\<close>

definition auditor_entry :: "str \<Rightarrow> str \<Rightarrow> str \<Rightarrow> str \<Rightarrow> obj" where
  "auditor_entry aid organisation pinned digest =
    [(lit ''auditor_id'', JStr aid), (lit ''org'', JStr organisation), (lit ''public_key'', JStr pinned),
     (lit ''token_sha256'', JStr digest)]"

definition other_auditor :: "str \<Rightarrow> json \<Rightarrow> bool" where
  "other_auditor aid item = (case item of JObj members \<Rightarrow> get_or members ''auditor_id'' JNull \<noteq> JStr aid | _ \<Rightarrow> True)"

definition updated_auditors :: "unit res \<Rightarrow> str \<Rightarrow> str \<Rightarrow> str \<Rightarrow> str \<Rightarrow> json res option \<Rightarrow> json res" where
  "updated_auditors require_private aid organisation pinned token file =
    bindE (case file of
             None \<Rightarrow> Inr [(lit ''auditors'', JArr [])]
           | Some content \<Rightarrow>
              bindE (read_auditors require_private file) (\<lambda>_.
              bindE content (\<lambda>v.
                case v of JObj data \<Rightarrow> Inr data | _ \<Rightarrow> Inl (ValueError ''auditors file must be an object'')))) (\<lambda>data.
    bindE (utf8_encode token) (\<lambda>raw.
    let entry = auditor_entry aid organisation pinned (sha256_hex raw) in
    bindE (new_tokens [args_of entry]) (\<lambda>_.
      case get_or data ''auditors'' (JArr []) of
        JArr items \<Rightarrow>
          Inr (JObj (AList.update (lit ''auditors'') (JArr (filter (other_auditor aid) items @ [JObj entry])) data))
      | _ \<Rightarrow> Inl TypeError)))"

definition cmd_issue_token :: "unit res \<Rightarrow> str \<Rightarrow> str \<Rightarrow> str \<Rightarrow> str \<Rightarrow> command" where
  "cmd_issue_token require_private aid organisation pinned token w =
    (case updated_auditors require_private aid organisation pinned token (w_auditors w) of
       Inl e \<Rightarrow> (if is_OSError e \<or> e = TypeError \<or> is_ValueError e then Inr 1 else Inl e, w)
     | Inr v \<Rightarrow> (Inr 0, w\<lparr>w_auditors := Some (json_file v)\<rparr>))"


section \<open>Records, snapshots and bundles\<close>

definition setdefault :: "string \<Rightarrow> json \<Rightarrow> obj \<Rightarrow> obj" where
  "setdefault k v d = (if lit k \<in> keys_of d then d else d @ [(lit k, v)])"

definition cmd_sign_record :: "'k ed25519 \<Rightarrow> 'k provider \<Rightarrow> bytes \<Rightarrow> world \<Rightarrow> obj res" where
  "cmd_sign_record E P raw w =
    bindE (p_load P (f_active (w_home w))) (\<lambda>key.
    bindE (load_json raw) (\<lambda>v.
      case v of
        JObj body \<Rightarrow>
          bindE (sign_record E key (setdefault ''schema_version'' (JInt 1) body)) (\<lambda>record.
          bindE (validate_record (JObj record)) (\<lambda>_. Inr record))
      | _ \<Rightarrow> Inl (ValueError ''record body must be a JSON object'')))"

definition with_key :: "'k provider \<Rightarrow> ('k \<Rightarrow> world \<Rightarrow> 'a res \<times> world) \<Rightarrow> world \<Rightarrow> 'a res \<times> world" where
  "with_key P body w = (case p_load P (f_active (w_home w)) of Inl e \<Rightarrow> (Inl e, w) | Inr key \<Rightarrow> body key w)"

definition cmd_export_snapshot :: "'k ed25519 \<Rightarrow> 'k provider \<Rightarrow> string list \<Rightarrow> rat \<Rightarrow> str \<Rightarrow> world \<Rightarrow> obj res \<times> world" where
  "cmd_export_snapshot E P pragma now utc =
    with_key P (\<lambda>key. with_store pragma now utc (\<lambda>s w. (build_snapshot E key None None None s, w)))"

definition cmd_export_bundle :: "'k ed25519 \<Rightarrow> 'k provider \<Rightarrow> string list \<Rightarrow> rat \<Rightarrow> str \<Rightarrow> world \<Rightarrow> obj res \<times> world" where
  "cmd_export_bundle E P pragma now utc =
    with_key P (\<lambda>key. with_store pragma now utc (\<lambda>s w. (export_bundle E key s s, w)))"

definition cmd_import_bundle ::
  "'k ed25519 \<Rightarrow> 'k provider \<Rightarrow> str \<Rightarrow> bool \<Rightarrow> json res \<Rightarrow> string list \<Rightarrow> rat \<Rightarrow> str \<Rightarrow> command" where
  "cmd_import_bundle E P upstream_key accept_older file pragma now utc =
    with_key P (\<lambda>key. with_store pragma now utc (\<lambda>s w.
      (case file of
         Inl e \<Rightarrow> (Inl e, w)
       | Inr (JObj offered) \<Rightarrow>
          (case import_bundle E key upstream_key accept_older now utc (JObj offered) s of
             (Inr n, s') \<Rightarrow> (Inr 0, w\<lparr>w_db := Some (st_db s')\<rparr>)
           | (Inl e, s') \<Rightarrow> (if is_ValueError e then Inr 1 else Inl e, w\<lparr>w_db := Some (st_db s')\<rparr>))
       | Inr _ \<Rightarrow> (Inr 1, w))))"

definition cmd_verify_chain :: "string list \<Rightarrow> rat \<Rightarrow> str \<Rightarrow> command" where
  "cmd_verify_chain pragma now utc w =
    (case open_store pragma DEFAULT_HEALTH_VERIFY_INTERVAL_SECONDS now utc (w_db w) of
       Inl e \<Rightarrow> (if is_StoreIntegrityError e then Inr 2 else Inl e, w\<lparr>w_db := Some (database_of utc (w_db w))\<rparr>)
     | Inr s \<Rightarrow> (bindE (store_head s) (\<lambda>_. Inr 0), w\<lparr>w_db := Some (st_db s)\<rparr>))"


section \<open>Backups\<close>

text \<open>\<open>Store.backup_to\<close>: the copy is opened, hence verified, and its boundary returned.\<close>

definition backup_to :: "string list \<Rightarrow> rat \<Rightarrow> str \<Rightarrow> store \<Rightarrow> (snapshot_boundary \<times> db) res" where
  "backup_to pragma now utc s =
    bindE (open_store pragma DEFAULT_HEALTH_VERIFY_INTERVAL_SECONDS now utc (Some (st_db s))) (\<lambda>copy.
    bindE (snapshot_boundary None copy) (\<lambda>b. Inr (b, st_db copy)))"

text \<open>The exit code with the database copy and the checkpoint written; \<open>exists\<close> tells whether an output is already there.\<close>

definition cmd_backup ::
  "'k ed25519 \<Rightarrow> 'k provider \<Rightarrow> bool \<Rightarrow> string list \<Rightarrow> rat \<Rightarrow> str \<Rightarrow> world \<Rightarrow> (int \<times> (db \<times> json res) option) res \<times> world" where
  "cmd_backup E P output_exists pragma now utc =
    with_key P (\<lambda>key. with_store pragma now utc (\<lambda>s w.
      (if output_exists then Inr (1, None)
       else bindE (backup_to pragma now utc s) (\<lambda>(b, copy).
         bindE (build_snapshot E key (Some b) None None s) (\<lambda>checkpoint.
           Inr (0, Some (copy, json_file (JObj checkpoint))))), w)))"

definition boundary_of_checkpoint :: "obj \<Rightarrow> snapshot_boundary" where
  "boundary_of_checkpoint c =
    \<lparr>sb_version = (case get_int c (lit ''version'') of Some i \<Rightarrow> i | None \<Rightarrow> 0),
     sb_log_size = (case get_int c (lit ''log_size'') of Some i \<Rightarrow> i | None \<Rightarrow> 0),
     sb_head = field_text c ''head'', sb_merkle_root = field_text c ''merkle_root'', sb_created_at = field_text c ''created_at''\<rparr>"

definition check_backup ::
  "'k ed25519 \<Rightarrow> 'k provider \<Rightarrow> str option \<Rightarrow> string list \<Rightarrow> rat \<Rightarrow> str \<Rightarrow> db option \<Rightarrow> json res \<Rightarrow> home \<Rightarrow> unit res" where
  "check_backup E P pinned pragma now utc database checkpoint_file h =
    bindE (open_store pragma DEFAULT_HEALTH_VERIFY_INTERVAL_SECONDS now utc database) (\<lambda>s.
    bindE checkpoint_file (\<lambda>v.
    bindE (validate_snapshot v) (\<lambda>checkpoint.
    bindE (case pinned of Some k \<Rightarrow> Inr [k] | None \<Rightarrow> public_keys E P None h) (\<lambda>ks.
    bindE (guardE (list_ex (\<lambda>k. verify_signed E k checkpoint) ks) (ValueError ''checkpoint signature does not verify'')) (\<lambda>_.
    bindE (checkpoint_matches (boundary_of_checkpoint checkpoint) s) (\<lambda>matches.
      guardE matches (ValueError ''backup is below or inconsistent with the checkpoint'')))))))"

definition cmd_verify_backup ::
  "'k ed25519 \<Rightarrow> 'k provider \<Rightarrow> str option \<Rightarrow> string list \<Rightarrow> rat \<Rightarrow> str \<Rightarrow> db option \<Rightarrow> json res \<Rightarrow> world \<Rightarrow> int res" where
  "cmd_verify_backup E P pinned pragma now utc database checkpoint_file w =
    (case check_backup E P pinned pragma now utc database checkpoint_file (w_home w) of
       Inr _ \<Rightarrow> Inr 0
     | Inl e \<Rightarrow> (if is_OSError e \<or> is_ValueError e \<or> is_StoreIntegrityError e then Inr 2 else Inl e))"


section \<open>Serving\<close>

text \<open>What \<open>serve\<close> refuses before it starts; \<open>loopback\<close> is the answer of \<open>_loopback_host\<close>.\<close>

record serve_args =
  s_certfile :: str
  s_keyfile :: str
  s_behind_proxy :: bool
  s_trusted_proxy :: str
  s_interval :: "rat option option"
  s_checkpoint :: "bytes res option option"

definition serve_refused :: "bool \<Rightarrow> serve_args \<Rightarrow> bool" where
  "serve_refused loopback a \<longleftrightarrow>
    (s_certfile a \<noteq> []) \<noteq> (s_keyfile a \<noteq> []) \<or>
    s_behind_proxy a \<and> s_trusted_proxy a = [] \<or>
    \<not> loopback \<and> s_certfile a = [] \<and> \<not> s_behind_proxy a \<or>
    (case s_interval a of None \<Rightarrow> False | Some None \<Rightarrow> True | Some (Some v) \<Rightarrow> v \<le> 0)"

definition served_env :: "serve_args \<Rightarrow> environment \<Rightarrow> environment" where
  "served_env a env =
    env\<lparr>en_interval := (case s_interval a of None \<Rightarrow> en_interval env | Some v \<Rightarrow> Some (Inr v)),
        en_checkpoint := (case s_checkpoint a of None \<Rightarrow> en_checkpoint env | Some file \<Rightarrow> file)\<rparr>"

text \<open>The exit code of a refusal, or what is handed to the server.\<close>

definition cmd_serve ::
  "'k ed25519 \<Rightarrow> 'k provider \<Rightarrow> bool \<Rightarrow> serve_args \<Rightarrow> environment \<Rightarrow> unit res \<Rightarrow> string list \<Rightarrow> rat \<Rightarrow> str \<Rightarrow> world \<Rightarrow>
   (int + 'k running \<times> store \<times> posture) res" where
  "cmd_serve E P loopback a env require_private pragma now utc w =
    (if serve_refused loopback a then Inr (Inl 1)
     else bindE (app_from_env E P (served_env a env) require_private pragma now utc w) (\<lambda>app. Inr (Inr app)))"

definition home_from_env :: "str option \<Rightarrow> str option \<Rightarrow> str" where
  "home_from_env current legacy =
    (case current of
       Some c \<Rightarrow> (if c \<noteq> [] then c else case legacy of Some l \<Rightarrow> (if l \<noteq> [] then l else lit ''./data'') | None \<Rightarrow> lit ''./data'')
     | None \<Rightarrow> (case legacy of Some l \<Rightarrow> (if l \<noteq> [] then l else lit ''./data'') | None \<Rightarrow> lit ''./data''))"


section \<open>What the commands keep\<close>

lemma open_store_ok:
  assumes "db_ok d es"
  shows "\<exists>s. open_store [''ok''] DEFAULT_HEALTH_VERIFY_INTERVAL_SECONDS now utc (Some d) = Inr s \<and> st_db s = d \<and> store_ok s es"
  using open_verified_ok [OF assms, of 300 now utc] by (auto simp: open_store_def database_of_def DEFAULT_HEALTH_VERIFY_INTERVAL_SECONDS_def)

lemma store_head_ok: "store_ok s es \<Longrightarrow> \<exists>h. store_head s = Inr (int (length es), h)"
  using snapshot_boundary_ok [of "st_db s" es None]
  by (auto simp: store_head_def snapshot_boundary_def store_ok_def boundary_spec_size)

lemma genkey_refused:
  assumes "w_db w = Some d" "db_ok d es" "es \<noteq> []" "f_active (w_home w) \<noteq> None"
  shows "cmd_genkey E P force key [''ok''] now utc w = (Inr 1, w)"
proof -
  obtain s where s: "open_store [''ok''] DEFAULT_HEALTH_VERIFY_INTERVAL_SECONDS now utc (Some d) = Inr s" "st_db s = d" "store_ok s es"
    using open_store_ok [OF assms(2)] by blast
  obtain h where "store_head s = Inr (int (length es), h)" using store_head_ok [OF s(3)] by blast
  moreover have "w\<lparr>w_db := Some d\<rparr> = w" using assms(1) by simp
  ultimately show ?thesis
    using assms s(1,2) by (simp add: cmd_genkey_def with_store_def)
qed

lemma boundary_of_own_checkpoint:
  assumes "ed25519_ok E" "boundary_ok b" "sign_record E k (snapshot_body b) = Inr snap"
  shows "boundary_of_checkpoint snap = b" "validate_snapshot (JObj snap) = Inr snap" "json_file (JObj snap) = Inr (JObj snap)"
    "verify_signed E (public_pinned E k) snap"
proof -
  obtain m where snap: "snap = snapshot_body b @ [(lit ''sig'', sig_envelope E k m)]" "document_ok 2 (JObj snap)"
    "validate_snapshot (JObj snap) = Inr snap" "verify_signed E (public_pinned E k) snap"
    using snapshot_valid [OF assms(1,2), of k] assms(3) by auto
  show "validate_snapshot (JObj snap) = Inr snap" "verify_signed E (public_pinned E k) snap" by (fact snap)+
  show "boundary_of_checkpoint snap = b"
    by (simp add: boundary_of_checkpoint_def snap(1) snapshot_body_def get_int_def field_text_def get_str_def)
  obtain raw where "canonical_document (JObj snap) = Inr raw"
    using snap(2) document_ok_canonical [of "JObj snap"] by (auto simp: document_ok_def MAX_JSON_DEPTH_def)
  then show "json_file (JObj snap) = Inr (JObj snap)" by (simp add: json_file_def)
qed

text \<open>A candidate database for \<open>es'\<close> against the checkpoint taken at \<open>es\<close>.\<close>

lemma checkpoint_matches_iff:
  assumes "store_ok s es'" "b = boundary_spec created es (length es)"
  shows "\<exists>m. checkpoint_matches b s = Inr m \<and>
    (m \<longleftrightarrow> length es \<le> length es' \<and> boundary_spec (created_of (st_db s)) es' (length es) = b)"
proof -
  have d: "db_ok (st_db s) es'" using assms(1) by (simp add: store_ok_def)
  show ?thesis
    using snapshot_boundary_ok [OF d, of "Some (int (length es))"]
    by (simp add: checkpoint_matches_def snapshot_boundary_def assms(2) boundary_spec_size lookup_failure_def)
qed

lemma backup_then_verify:
  assumes E: "ed25519_ok E" and k: "p_load P (f_active (w_home w)) = Inr k"
    and d: "w_db w = Some d" "db_ok d es" "int (length es) \<le> MAX_SAFE_INTEGER"
  obtains snap where "cmd_backup E P False [''ok''] now utc w = (Inr (0, Some (d, Inr (JObj snap))), w)"
    "\<And>now' utc' d' es' w'. db_ok d' es' \<Longrightarrow> cmd_verify_backup E P (Some (public_pinned E k)) [''ok''] now' utc' (Some d') (Inr (JObj snap)) w' =
      Inr (if length es \<le> length es' \<and> boundary_spec (created_of d') es' (length es) = boundary_spec (created_of d) es (length es)
           then 0 else 2)"
proof -
  let ?b = "boundary_spec (created_of d) es (length es)"
  obtain s where s: "open_store [''ok''] DEFAULT_HEALTH_VERIFY_INTERVAL_SECONDS now utc (Some d) = Inr s" "st_db s = d" "store_ok s es"
    using open_store_ok [OF d(2)] by blast
  have b: "boundary_ok ?b" by (rule boundary_spec_ok [OF d(2) le_refl d(3)])
  obtain snap where snap: "sign_record E k (snapshot_body ?b) = Inr snap" by (rule snapshot_valid [OF E b])
  note own = boundary_of_own_checkpoint [OF E b snap]
  have "snapshot_boundary None s = Inr ?b"
    using snapshot_boundary_ok [OF d(2), of None] s(2) by (simp add: snapshot_boundary_def)
  then have "backup_to [''ok''] now utc s = Inr (?b, d)" using s(1,2) by (simp add: backup_to_def)
  moreover have "w\<lparr>w_db := Some d\<rparr> = w" using d(1) by simp
  ultimately have 1: "cmd_backup E P False [''ok''] now utc w = (Inr (0, Some (d, Inr (JObj snap))), w)"
    using k s(1,2) d(1) snap own(3) by (simp add: cmd_backup_def with_key_def with_store_def build_snapshot_def)
  have 2: "cmd_verify_backup E P (Some (public_pinned E k)) [''ok''] now' utc' (Some d') (Inr (JObj snap)) w' =
      Inr (if length es \<le> length es' \<and> boundary_spec (created_of d') es' (length es) = ?b then 0 else 2)"
    if ok: "db_ok d' es'" for now' utc' d' es' w'
  proof -
    obtain s' where s': "open_store [''ok''] DEFAULT_HEALTH_VERIFY_INTERVAL_SECONDS now' utc' (Some d') = Inr s'" "st_db s' = d'" "store_ok s' es'"
      using open_store_ok [OF ok] by blast
    obtain m where "checkpoint_matches ?b s' = Inr m"
      "m \<longleftrightarrow> length es \<le> length es' \<and> boundary_spec (created_of d') es' (length es) = ?b"
      using checkpoint_matches_iff [OF s'(3) refl, of "created_of d" es] s'(2) by auto
    then show ?thesis using s'(1) own by (auto simp: cmd_verify_backup_def check_backup_def)
  qed
  show thesis by (rule that [OF 1 2])
qed


section \<open>Issuing a token\<close>

definition field_checks :: "auditor_args \<Rightarrow> auditor \<Rightarrow> bool" where
  "field_checks x a \<longleftrightarrow>
    check_auditor_id (arg_auditor_id x) = Inr (auditor_id a) \<and> check_org (arg_org x) = Inr (org a) \<and>
    check_public_key (arg_public_key x) = Inr (public_key a) \<and> check_token_digest (arg_token_sha256 x) = Inr (token_sha256 a)"

lemma check_auditors_iff:
  "check_auditors ids digests xs = Inr as \<longleftrightarrow>
    list_all2 field_checks xs as \<and> distinct (map auditor_id as) \<and> distinct (map token_sha256 as) \<and>
    set (map auditor_id as) \<inter> set ids = {} \<and> set (map token_sha256 as) \<inter> set digests = {}"
proof (induction xs arbitrary: ids digests as)
  case (Cons x xs)
  show ?case
  proof (cases as)
    case (Cons a rest)
    have "check_auditors ids digests (x # xs) = Inr (a # rest) \<longleftrightarrow>
        field_checks x a \<and> auditor_id a \<notin> set ids \<and> token_sha256 a \<notin> set digests \<and>
        check_auditors (auditor_id a # ids) (token_sha256 a # digests) xs = Inr rest"
      by (cases a) (auto simp: field_checks_def bindE_Inr_iff split: if_splits)
    then show ?thesis unfolding Cons using Cons.IH [of "auditor_id a # ids" "token_sha256 a # digests" rest] by auto
  qed (auto simp: bindE_Inr_iff split: if_splits)
qed auto

lemma new_tokens_iff:
  "new_tokens xs = Inr tokens \<longleftrightarrow>
    (\<exists>as. list_all2 field_checks xs as \<and> distinct (map auditor_id as) \<and> distinct (map token_sha256 as) \<and>
      tokens = map (\<lambda>a. (token_sha256 a, a)) as)"
  using by_hash_fresh [of _ "[]"] by (fastforce simp: new_tokens_def bindE_Inr_iff check_auditors_iff)

lemma list_all2_filter:
  "list_all2 R xs ys \<Longrightarrow> (\<And>x y. R x y \<Longrightarrow> P x = Q y) \<Longrightarrow> list_all2 R (filter P xs) (filter Q ys)"
  by (induction rule: list_all2_induct) auto

lemma check_items: "mapE check_item items = Inr objs \<longleftrightarrow> items = map JObj objs \<and> (\<forall>m \<in> set objs. check_item (JObj m) = Inr m)"
proof (induction items arbitrary: objs)
  case (Cons v items)
  have "check_item v = Inr m \<longleftrightarrow> v = JObj m \<and> check_item (JObj m) = Inr m" for m
    by (cases v) (auto simp: check_item_def split: if_splits)
  then show ?case by (cases objs) (auto simp: bindE_Inr_iff Cons.IH)
qed auto

lemma load_auditors_iff:
  "load_auditors (JObj [(lit ''auditors'', JArr items)]) = Inr tokens \<longleftrightarrow>
    (\<exists>objs as. items = map JObj objs \<and> (\<forall>m \<in> set objs. check_item (JObj m) = Inr m) \<and> list_all2 field_checks (map args_of objs) as \<and>
      distinct (map auditor_id as) \<and> distinct (map token_sha256 as) \<and> tokens = map (\<lambda>a. (token_sha256 a, a)) as)"
  by (auto simp: load_auditors_def bindE_Inr_iff check_items new_tokens_iff)

lemma field_checks_entry:
  assumes "auditor_ok a"
  shows "field_checks (args_of (auditor_entry (auditor_id a) (org a) (public_key a) (token_sha256 a))) a"
proof -
  have "check_auditor_id (JStr (auditor_id a)) = Inr (auditor_id a)" "check_org (JStr (org a)) = Inr (org a)"
    "check_public_key (JStr (public_key a)) = Inr (public_key a)"
    using assms by (auto simp: auditor_ok_def check_auditor_id_def check_org_def check_public_key_def not_less)
  moreover have "check_token_digest (JStr (token_sha256 a)) = Inr (token_sha256 a)"
    using assms unfolding auditor_ok_def check_token_digest_def by (auto simp: Let_def)
  ultimately show ?thesis by (simp add: field_checks_def args_of_def auditor_entry_def)
qed

lemma other_auditor_iff: "field_checks (args_of m) a \<Longrightarrow> other_auditor aid (JObj m) \<longleftrightarrow> auditor_id a \<noteq> aid"
  by (auto simp: field_checks_def args_of_def other_auditor_def dest!: check_auditor_id_Inr)

lemma auditors_document:
  assumes "load_json raw = Inr v" "load_auditors v = Inr old"
  obtains items where "v = JObj [(lit ''auditors'', JArr items)]"
proof -
  obtain d where d: "v = JObj d" "keys_of d = {lit ''auditors''}"
    using assms(2) by (cases v) (auto simp: load_auditors_def split: if_splits)
  have "distinct (map fst d)" using load_json_ok [OF assms(1)] d(1) by simp
  moreover have "set (map fst d) = {lit ''auditors''}" using d(2) by (simp add: keys_of_def)
  ultimately have "length d = 1" using distinct_card [of "map fst d"] by simp
  then obtain k x where "d = [(k, x)]" by (cases d) auto
  then show thesis using that assms(2) d by (auto simp: load_auditors_def split: json.splits)
qed

lemma register_auditor:
  assumes old: "load_auditors (JObj [(lit ''auditors'', JArr items)]) = Inr old" and a: "auditor_ok a"
    and fresh: "token_sha256 a \<notin> fst ` set (filter (\<lambda>(_, x). auditor_id x \<noteq> auditor_id a) old)"
  shows "load_auditors (JObj [(lit ''auditors'', JArr (filter (other_auditor (auditor_id a)) items @
      [JObj (auditor_entry (auditor_id a) (org a) (public_key a) (token_sha256 a))]))]) =
    Inr (filter (\<lambda>(_, x). auditor_id x \<noteq> auditor_id a) old @ [(token_sha256 a, a)])"
proof -
  let ?e = "auditor_entry (auditor_id a) (org a) (public_key a) (token_sha256 a)"
  obtain objs as where o1: "items = map JObj objs" "\<forall>m \<in> set objs. check_item (JObj m) = Inr m"
    "list_all2 field_checks (map args_of objs) as" "distinct (map auditor_id as)" "distinct (map token_sha256 as)"
    "old = map (\<lambda>x. (token_sha256 x, x)) as"
    using old unfolding load_auditors_iff by blast
  let ?keep = "filter (other_auditor (auditor_id a) \<circ> JObj) objs" and ?as = "filter (\<lambda>x. auditor_id x \<noteq> auditor_id a) as"
  have "list_all2 (\<lambda>m x. field_checks (args_of m) x) ?keep ?as"
    using list_all2_filter [of "\<lambda>m x. field_checks (args_of m) x" objs as] o1(3) other_auditor_iff
    by (simp add: list_all2_map1)
  then have "list_all2 field_checks (map args_of (?keep @ [?e])) (?as @ [a])"
    using field_checks_entry [OF a] by (simp add: list_all2_map1 list_all2_appendI)
  moreover have "check_item (JObj ?e) = Inr ?e"
    by (auto simp: check_item_def auditor_entry_def keys_of_def auditor_fields_def)
  moreover have "distinct (map auditor_id (?as @ [a]))" "distinct (map token_sha256 (?as @ [a]))"
    using o1(4,5) fresh by (auto simp: o1(6) distinct_map inj_on_def image_iff)
  moreover have "filter (\<lambda>(_, x). auditor_id x \<noteq> auditor_id a) old @ [(token_sha256 a, a)] =
      map (\<lambda>x. (token_sha256 x, x)) (?as @ [a])"
    by (simp add: o1(6) filter_map comp_def)
  ultimately show ?thesis
    unfolding load_auditors_iff using o1(1,2)
    by (intro exI [of _ "?keep @ [?e]"] exI [of _ "?as @ [a]"]) (auto simp: filter_map)
qed

lemma clean_b64: "clean (b64encode raw)"
  by (rule clean_low) (force dest!: b64encode_ascii)

lemma clean_append: "clean (xs @ ys) \<longleftrightarrow> clean xs \<and> clean ys"
  by (auto simp: clean_def str_ok_def)

lemma entry_document:
  assumes "auditor_ok a" "clean (auditor_id a)" "clean (org a)"
  shows "document_ok 1 (JObj (auditor_entry (auditor_id a) (org a) (public_key a) (token_sha256 a)))"
proof -
  have digest: "clean (token_sha256 a)"
    by (rule clean_low) (use assms(1) in \<open>auto simp: auditor_ok_def hex_digits_def lit_def\<close>)
  obtain raw where "parse_public_key (public_key a) = Inr raw" using assms(1) by (auto simp: auditor_ok_def)
  then have "public_key a = b64encode raw \<or> public_key a = lit ''ed25519:'' @ b64encode raw"
    by (rule parse_public_key_canonical)
  moreover have "clean (lit ''ed25519:'' @ b64encode raw)" by (simp only: clean_append clean_lit clean_b64)
  ultimately have "clean (public_key a)" using clean_b64 by metis
  moreover note digest clean_lit [of "''auditor_id''"] clean_lit [of "''org''"] clean_lit [of "''public_key''"] clean_lit [of "''token_sha256''"]
  ultimately show ?thesis using assms(2,3)
    by (auto simp: auditor_entry_def document_ok_def ccj_leaves_JObj json_depth_JObj_le clean_def)
qed

lemma auditors_file_document:
  assumes "document_ok MAX_JSON_DEPTH (JObj [(lit ''auditors'', JArr items)])" "document_ok 1 e" "set kept \<subseteq> set items"
  shows "json_file (JObj [(lit ''auditors'', JArr (kept @ [e]))]) = Inr (JObj [(lit ''auditors'', JArr (kept @ [e]))])"
proof -
  have "document_ok MAX_JSON_DEPTH (JObj [(lit ''auditors'', JArr (kept @ [e]))])"
    using assms clean_lit [of "''auditors''"]
    by (fastforce simp: document_ok_def ccj_leaves_JObj ccj_leaves_JArr json_depth_JObj_le json_depth_JArr_le clean_def MAX_JSON_DEPTH_def)
  then show ?thesis using document_ok_canonical by (fastforce simp: json_file_def split: sum.split)
qed

text \<open>The auditors file of a home: absent, or a file that loads.\<close>

definition auditors_file :: "json res option \<Rightarrow> auditor_tokens \<Rightarrow> bool" where
  "auditors_file file old \<longleftrightarrow>
    (case file of None \<Rightarrow> old = [] | Some content \<Rightarrow> \<exists>raw. content = load_json raw \<and> bindE content load_auditors = Inr old)"

lemma auditors_fileE:
  assumes "auditors_file file old"
  obtains items where "load_auditors (JObj [(lit ''auditors'', JArr items)]) = Inr old"
    "document_ok MAX_JSON_DEPTH (JObj [(lit ''auditors'', JArr items)])"
    "file = None \<and> items = [] \<or> file = Some (Inr (JObj [(lit ''auditors'', JArr items)]))"
proof (cases "file")
  case None
  have "document_ok MAX_JSON_DEPTH (JObj [(lit ''auditors'', JArr [])])"
    using clean_lit [of "''auditors''"]
    by (auto simp: document_ok_def ccj_leaves_JObj ccj_leaves_JArr json_depth_JObj_le json_depth_JArr_le clean_def MAX_JSON_DEPTH_def)
  then show thesis using that [of "[]"] assms None by (simp add: auditors_file_def load_auditors_iff)
next
  case (Some c)
  then obtain raw v where v: "c = Inr v" "load_json raw = Inr v" "load_auditors v = Inr old"
    using assms by (auto simp: auditors_file_def bindE_Inr_iff)
  obtain items where items: "v = JObj [(lit ''auditors'', JArr items)]" by (rule auditors_document [OF v(2,3)])
  moreover have "document_ok MAX_JSON_DEPTH v"
    using load_json_ok [OF v(2)] load_json_canonical [OF v(2)] by (auto simp: document_ok_def canonical_document_Inr)
  ultimately show thesis using that [of items] v Some by simp
qed

text \<open>A well-formed auditor is always written; whether the file can be read again depends on its text.\<close>

lemma issue_token_writes:
  assumes f: "auditors_file (w_auditors w) old" and a: "auditor_ok a"
    and t: "utf8_encode token = Inr raw" "token_sha256 a = sha256_hex raw"
  obtains items where "load_auditors (JObj [(lit ''auditors'', JArr items)]) = Inr old"
    "document_ok MAX_JSON_DEPTH (JObj [(lit ''auditors'', JArr items)])"
    "cmd_issue_token (Inr ()) (auditor_id a) (org a) (public_key a) token w =
      (Inr 0, w\<lparr>w_auditors := Some (json_file (JObj [(lit ''auditors'', JArr (filter (other_auditor (auditor_id a)) items @
         [JObj (auditor_entry (auditor_id a) (org a) (public_key a) (token_sha256 a))]))]))\<rparr>)"
proof -
  let ?e = "auditor_entry (auditor_id a) (org a) (public_key a) (token_sha256 a)"
  obtain items where items: "load_auditors (JObj [(lit ''auditors'', JArr items)]) = Inr old"
    "document_ok MAX_JSON_DEPTH (JObj [(lit ''auditors'', JArr items)])"
    "w_auditors w = None \<and> items = [] \<or> w_auditors w = Some (Inr (JObj [(lit ''auditors'', JArr items)]))"
    using f by (rule auditors_fileE)
  have "new_tokens [args_of ?e] = Inr [(token_sha256 a, a)]"
    unfolding new_tokens_iff using field_checks_entry [OF a] by (intro exI [of _ "[a]"]) simp
  then have "updated_auditors (Inr ()) (auditor_id a) (org a) (public_key a) token (w_auditors w) =
      Inr (JObj [(lit ''auditors'', JArr (filter (other_auditor (auditor_id a)) items @ [JObj ?e]))])"
    using items(1,3) t by (auto simp: updated_auditors_def read_auditors_def)
  with that [OF items(1,2)] show thesis by (simp add: cmd_issue_token_def)
qed

lemma issue_token_registers:
  assumes f: "auditors_file (w_auditors w) old"
    and a: "auditor_ok a" "clean (auditor_id a)" "clean (org a)"
    and t: "utf8_encode token = Inr raw" "token_sha256 a = sha256_hex raw"
    and fresh: "token_sha256 a \<notin> fst ` set (filter (\<lambda>(_, x). auditor_id x \<noteq> auditor_id a) old)"
  obtains v where "cmd_issue_token (Inr ()) (auditor_id a) (org a) (public_key a) token w = (Inr 0, w\<lparr>w_auditors := Some (Inr v)\<rparr>)"
    "load_auditors v = Inr (filter (\<lambda>(_, x). auditor_id x \<noteq> auditor_id a) old @ [(token_sha256 a, a)])"
proof (rule issue_token_writes [OF f a(1) t])
  let ?e = "auditor_entry (auditor_id a) (org a) (public_key a) (token_sha256 a)"
  fix items
  let ?new = "JObj [(lit ''auditors'', JArr (filter (other_auditor (auditor_id a)) items @ [JObj ?e]))]"
  assume items: "load_auditors (JObj [(lit ''auditors'', JArr items)]) = Inr old"
    "document_ok MAX_JSON_DEPTH (JObj [(lit ''auditors'', JArr items)])"
    and run: "cmd_issue_token (Inr ()) (auditor_id a) (org a) (public_key a) token w = (Inr 0, w\<lparr>w_auditors := Some (json_file ?new)\<rparr>)"
  have "json_file ?new = Inr ?new"
    by (rule auditors_file_document [OF items(2) entry_document [OF a]]) auto
  with run show thesis using that [of ?new] register_auditor [OF items(1) a(1) fresh] by simp
qed

lemma json_file_unreadable: "\<not> ccj_leaves v \<Longrightarrow> \<exists>e. json_file v = Inl e"
  by (cases "validate_ccj v 0") (auto simp: json_file_def canonical_document_def validate_ccj_top)

text \<open>
  An organisation with a lone surrogate, as an argument that is not UTF-8 yields, passes every
  check; the command reports success and leaves a file that cannot be read.
\<close>

lemma issue_token_surrogate:
  assumes "auditors_file (w_auditors w) old" "auditor_ok a" "utf8_encode token = Inr raw" "token_sha256 a = sha256_hex raw"
    and "c \<in> set (org a)" "surrogate c"
  shows "\<exists>e. cmd_issue_token (Inr ()) (auditor_id a) (org a) (public_key a) token w = (Inr 0, w\<lparr>w_auditors := Some (Inl e)\<rparr>)"
proof (rule issue_token_writes [OF assms(1-4)])
  fix items
  let ?new = "JObj [(lit ''auditors'', JArr (filter (other_auditor (auditor_id a)) items @
         [JObj (auditor_entry (auditor_id a) (org a) (public_key a) (token_sha256 a))]))]"
  assume run: "cmd_issue_token (Inr ()) (auditor_id a) (org a) (public_key a) token w = (Inr 0, w\<lparr>w_auditors := Some (json_file ?new)\<rparr>)"
  have "\<not> ccj_leaves ?new" using assms(5,6) by (auto simp: ccj_leaves_JObj ccj_leaves_JArr auditor_entry_def)
  then obtain e where "json_file ?new = Inl e" using json_file_unreadable by blast
  with run show ?thesis by auto
qed

lemma tokens_ok_Nil: "tokens_ok []"
  by (simp add: tokens_ok_def)

lemma auditors_file_tokens: "auditors_file file old \<Longrightarrow> tokens_ok old"
  by (auto simp: auditors_file_def tokens_ok_Nil bindE_Inr_iff load_auditors_ok split: option.splits)

lemma replaced_tokens_resolve:
  assumes "tokens_ok old" "token_sha256 a \<notin> fst ` set old" "utf8_encode t = Inr raw"
  shows "resolve (filter (\<lambda>(_, x). auditor_id x \<noteq> aid) old @ [(token_sha256 a, a)]) t =
    (if length t < 22 then Inr None
     else if sha256_hex raw = token_sha256 a then Inr (Some a)
     else case map_of old (sha256_hex raw) of
       Some x \<Rightarrow> Inr (if auditor_id x = aid then None else Some x) | None \<Rightarrow> Inr None)"
proof -
  have d: "distinct (map fst old)" using assms(1) by (simp add: tokens_ok_def)
  have f: "map_of (filter (\<lambda>(_, x). auditor_id x \<noteq> aid) old) q =
      (case map_of old q of Some x \<Rightarrow> if auditor_id x = aid then None else Some x | None \<Rightarrow> None)" for q
    using d
  proof (induction old)
    case (Cons e old)
    have "map_of old (fst e) = None" using Cons.prems by (simp add: map_of_eq_None_iff)
    then show ?case using Cons by (cases e) auto
  qed simp
  have "map_of old (token_sha256 a) = None" using assms(2) by (simp add: map_of_eq_None_iff)
  then show ?thesis
    using assms(3) by (simp add: resolve_def first_match_map_of f map_add_def split: option.split)
qed

end
