(* ===== verification/Migration.thy ===== *)
theory Migration
  imports Bundle
begin

text \<open>
  The first half of \<open>Store.__init__\<close>: how a database file comes to the current schema. The file
  has its \<open>user_version\<close>, the table definitions as \<open>PRAGMA table_info\<close> and \<open>foreign_key_list\<close> report
  them, the indexes, and the rows. Tables whose columns the code does not inspect have the
  columns of the schema. Outside a transaction every statement commits on its own, so an
  opening is the sequence of file states it goes through; a crash leaves one of them.

  The lemmas give a small total-correctness calculus for such scripts, with an invariant that
  holds at every crash point, and describe the rows an old file may hold.
\<close>


section \<open>Database files\<close>

record table_info =
  tb_columns :: "(string \<times> nat) list"
  tb_foreign_keys :: "(string \<times> string \<times> string \<times> string) list"

text \<open>The rows of \<open>idempotency\<close> while that table has no \<open>seq\<close> column.\<close>

record legacy_key =
  y_auditor_id :: "str option"
  y_key :: str
  y_body_sha256 :: str
  y_response_json :: str
  y_expires_at :: int

record db_file =
  user_version :: int
  tables :: "(string \<times> table_info) list"
  indexes :: "(string \<times> string list) list"
  contents :: db
  old_keys :: "legacy_key list"

definition plain_table :: "string list \<Rightarrow> string list \<Rightarrow> table_info" where
  "plain_table primary others =
    \<lparr>tb_columns = zip primary [1..<length primary + 1] @ map (\<lambda>c. (c, 0)) others, tb_foreign_keys = []\<rparr>"

definition REFERENCES_LOG :: "string \<times> string \<times> string \<times> string" where
  "REFERENCES_LOG = (''seq'', ''log'', ''seq'', ''RESTRICT'')"

definition log_table :: table_info where
  "log_table = plain_table [''seq'']
    [''entry_hash'', ''prev_hash'', ''name'', ''source_identity'', ''commit_hash'', ''content_sha256'', ''status'',
     ''record_json'', ''created_at'']"

definition metadata_table :: table_info where "metadata_table = plain_table [''key''] [''value'']"

definition imported_table :: table_info where
  "imported_table = (plain_table [''fingerprint''] [''imported_at'', ''seq''])\<lparr>tb_foreign_keys := [REFERENCES_LOG]\<rparr>"

definition boundaries_table :: table_info where
  "boundaries_table = plain_table [''log_size''] [''head'', ''merkle_root'', ''created_at'']"

definition frontier_table :: table_info where "frontier_table = plain_table [''level''] [''len'', ''tail'']"

definition high_water_table :: table_info where
  "high_water_table = plain_table [''key_id''] [''version'', ''log_size'', ''head'', ''merkle_root'', ''updated_at'']"

definition idempotency_table :: table_info where
  "idempotency_table =
    (plain_table [''auditor_id'', ''key''] [''body_sha256'', ''response_json'', ''seq'', ''expires_at''])
      \<lparr>tb_foreign_keys := [REFERENCES_LOG]\<rparr>"

text \<open>The exceptions of \<open>sqlite3\<close> reach the caller of the constructor as \<open>StoreIntegrityError\<close>.\<close>

definition startup_error :: "exc \<Rightarrow> exc" where
  "startup_error e =
    (case e of DatabaseError m \<Rightarrow> StoreIntegrityError ''SQLite integrity verification failed'' | _ \<Rightarrow> e)"


section \<open>Scripts\<close>

type_synonym script = "db_file \<Rightarrow> db_file list \<times> unit res"

definition check :: "(db_file \<Rightarrow> unit res) \<Rightarrow> script" where
  "check c f = ([], c f)"

definition atomic :: "(db_file \<Rightarrow> db_file res) \<Rightarrow> script" where
  "atomic p f = (case p f of Inl e \<Rightarrow> ([], Inl e) | Inr f' \<Rightarrow> ([f'], Inr ()))"

definition before :: "script \<Rightarrow> script \<Rightarrow> script" where
  "before p q f =
    (case p f of
       (states, Inl e) \<Rightarrow> (states, Inl e)
     | (states, Inr _) \<Rightarrow> (case q (last (f # states)) of (later, r) \<Rightarrow> (states @ later, r)))"

definition no_step :: script where
  "no_step f = ([], Inr ())"

definition run_script :: "script list \<Rightarrow> script" where
  "run_script ps = foldr before ps no_step"


section \<open>Schema statements\<close>

definition create_table :: "string \<Rightarrow> table_info \<Rightarrow> db_file \<Rightarrow> db_file" where
  "create_table t info f = (if map_of (tables f) t = None then f\<lparr>tables := tables f @ [(t, info)]\<rparr> else f)"

definition create_index :: "string \<Rightarrow> string list \<Rightarrow> db_file \<Rightarrow> db_file" where
  "create_index i columns f = (if map_of (indexes f) i = None then f\<lparr>indexes := indexes f @ [(i, columns)]\<rparr> else f)"

definition SCHEMA :: "(db_file \<Rightarrow> db_file) list" where
  "SCHEMA =
    [create_table ''log'' log_table,
     create_index ''idx_log_identity'' [''source_identity'', ''commit_hash''],
     create_index ''idx_log_content'' [''content_sha256''],
     create_table ''metadata'' metadata_table,
     create_table ''imported_records'' imported_table,
     create_table ''boundaries'' boundaries_table,
     create_table ''merkle_frontier'' frontier_table,
     create_table ''upstream_high_water'' high_water_table]"

definition execute_schema :: script where
  "execute_schema = run_script (map (\<lambda>statement. atomic (\<lambda>f. Inr (statement f))) SCHEMA)"

definition set_metadata :: "string \<Rightarrow> str \<Rightarrow> db_file \<Rightarrow> db_file" where
  "set_metadata k v f = f\<lparr>contents := (contents f)\<lparr>db_metadata := AList.update (lit k) v (db_metadata (contents f))\<rparr>\<rparr>"

definition get_metadata :: "string \<Rightarrow> db_file \<Rightarrow> str option" where
  "get_metadata k f = map_of (db_metadata (contents f)) (lit k)"

definition initialize_creation_metadata :: "str \<Rightarrow> script" where
  "initialize_creation_metadata utc =
    atomic (\<lambda>f. Inr (set_metadata ''created_at''
      (case get_metadata ''created_at'' f of
         Some created \<Rightarrow> created
       | None \<Rightarrow> (case db_log (contents f) of first # _ \<Rightarrow> l_created_at first | [] \<Rightarrow> utc)) f))"

definition mark_current_schema :: "string list \<Rightarrow> script" where
  "mark_current_schema pragma =
    atomic (\<lambda>f. let f' = (set_metadata ''schema_version'' (lit ''4'') f)\<lparr>user_version := 4\<rparr> in
      bindE (integrity_errors_on pragma (contents f')) (\<lambda>(errors, _).
        if errors \<noteq> [] then Inl (StoreIntegrityError ''integrity errors'') else Inr f'))"


section \<open>Schema checks\<close>

definition table_columns :: "string \<Rightarrow> db_file \<Rightarrow> string set" where
  "table_columns t f = (case map_of (tables f) t of None \<Rightarrow> {} | Some info \<Rightarrow> set (map fst (tb_columns info)))"

definition legacy_idempotency :: "string set list" where
  "legacy_idempotency =
    [{''key'', ''body_sha256'', ''response_json'', ''expires_at''},
     {''auditor_id'', ''key'', ''body_sha256'', ''response_json'', ''expires_at''},
     {''auditor_id'', ''key'', ''body_sha256'', ''response_json'', ''seq'', ''expires_at''}]"

definition require_legacy_schema :: "db_file \<Rightarrow> unit res" where
  "require_legacy_schema f =
    (let names = fst ` set (tables f) in
     bindE (guardE ({''log'', ''idempotency'', ''imported_records''} \<subseteq> names)
              (StoreIntegrityError ''legacy database schema is incomplete'')) (\<lambda>_.
     bindE (guardE (table_columns ''log'' f = set (map fst (tb_columns log_table)))
              (StoreIntegrityError ''legacy database schema for log is unsupported'')) (\<lambda>_.
     bindE (guardE (table_columns ''imported_records'' f \<in>
                      {{''fingerprint'', ''imported_at''}, {''fingerprint'', ''imported_at'', ''seq''}})
              (StoreIntegrityError ''legacy database schema for imported_records is unsupported'')) (\<lambda>_.
     bindE (guardE (table_columns ''idempotency'' f \<in> set legacy_idempotency)
              (StoreIntegrityError ''legacy database schema for idempotency is unsupported'')) (\<lambda>_.
       if ''metadata'' \<notin> names then Inr ()
       else bindE (guardE (table_columns ''metadata'' f = {''key'', ''value''})
                     (StoreIntegrityError ''legacy database metadata schema is unsupported'')) (\<lambda>_.
         guardE (get_metadata ''schema_version'' f = None)
           (StoreIntegrityError ''database schema version markers disagree; restore a verified backup'')))))))"

definition v2_tables :: "(string \<times> table_info) list" where
  "v2_tables =
    [(''log'', log_table), (''metadata'', metadata_table), (''imported_records'', imported_table),
     (''idempotency'', idempotency_table)]"

definition v3_tables :: "(string \<times> table_info) list" where
  "v3_tables = v2_tables @ [(''boundaries'', boundaries_table), (''merkle_frontier'', frontier_table)]"

definition v4_tables :: "(string \<times> table_info) list" where
  "v4_tables = v3_tables @ [(''upstream_high_water'', high_water_table)]"

text \<open>\<open>for table, expected_columns in required.items()\<close>, then the version marker.\<close>

definition require_columns :: "(string \<times> table_info) list \<Rightarrow> db_file \<Rightarrow> unit res" where
  "require_columns required f =
    eachE (\<lambda>(t, info). guardE (table_columns t f = set (map fst (tb_columns info)))
      (StoreIntegrityError (''database schema is unsupported: '' @ t))) required"

definition require_marker :: "string \<Rightarrow> db_file \<Rightarrow> unit res" where
  "require_marker version f =
    guardE (get_metadata ''schema_version'' f = Some (lit version)) (StoreIntegrityError ''database schema version markers disagree'')"

definition require_v2_schema :: "db_file \<Rightarrow> unit res" where
  "require_v2_schema f = bindE (require_columns v2_tables f) (\<lambda>_. require_marker ''2'' f)"

definition require_v3_schema :: "db_file \<Rightarrow> unit res" where
  "require_v3_schema f = bindE (require_columns v3_tables f) (\<lambda>_. require_marker ''3'' f)"

definition primary_key :: "string \<Rightarrow> db_file \<Rightarrow> string list" where
  "primary_key t f =
    (case map_of (tables f) t of
       None \<Rightarrow> []
     | Some info \<Rightarrow>
        map fst (filter (\<lambda>(_, pk). pk \<noteq> 0) (sort_key (\<lambda>(_, pk). if pk \<noteq> 0 then pk else 1000000) (tb_columns info))))"

definition index_columns :: "string \<Rightarrow> db_file \<Rightarrow> string list" where
  "index_columns i f = (case map_of (indexes f) i of None \<Rightarrow> [] | Some columns \<Rightarrow> columns)"

definition foreign_keys :: "string \<Rightarrow> db_file \<Rightarrow> (string \<times> string \<times> string \<times> string) set" where
  "foreign_keys t f = (case map_of (tables f) t of None \<Rightarrow> {} | Some info \<Rightarrow> set (tb_foreign_keys info))"

definition expected_primary_keys :: "(string \<times> string list) list" where
  "expected_primary_keys =
    [(''log'', [''seq'']), (''metadata'', [''key'']), (''imported_records'', [''fingerprint'']),
     (''idempotency'', [''auditor_id'', ''key'']), (''boundaries'', [''log_size'']), (''merkle_frontier'', [''level'']),
     (''upstream_high_water'', [''key_id''])]"

definition expected_indexes :: "(string \<times> string list) list" where
  "expected_indexes =
    [(''idx_log_identity'', [''source_identity'', ''commit_hash'']), (''idx_log_content'', [''content_sha256'']),
     (''idx_idempotency_expiry'', [''expires_at''])]"

definition require_current_schema :: "db_file \<Rightarrow> unit res" where
  "require_current_schema f =
    bindE (require_columns v4_tables f) (\<lambda>_.
    bindE (eachE (\<lambda>(t, key). guardE (primary_key t f = key) (StoreIntegrityError ''database primary key is malformed''))
             expected_primary_keys) (\<lambda>_.
    bindE (eachE (\<lambda>(i, columns). guardE (index_columns i f = columns) (StoreIntegrityError ''database index is missing or malformed''))
             expected_indexes) (\<lambda>_.
    bindE (eachE (\<lambda>t. guardE (REFERENCES_LOG \<in> foreign_keys t f) (StoreIntegrityError ''database foreign key is missing''))
             [''imported_records'', ''idempotency'']) (\<lambda>_.
      require_marker ''4'' f))))"


section \<open>Migrations\<close>

definition migrate_v2_to_v3 :: script where
  "migrate_v2_to_v3 =
    atomic (\<lambda>f. Inr ((set_metadata ''schema_version'' (lit ''3'')
      (create_table ''merkle_frontier'' frontier_table (create_table ''boundaries'' boundaries_table f)))\<lparr>user_version := 3\<rparr>))"

definition migrate_v3_to_v4 :: script where
  "migrate_v3_to_v4 =
    atomic (\<lambda>f. Inr ((set_metadata ''schema_version'' (lit ''4'')
      (create_table ''upstream_high_water'' high_water_table f))\<lparr>user_version := 4\<rparr>))"

definition add_seq_column :: "db_file \<Rightarrow> db_file" where
  "add_seq_column f =
    f\<lparr>tables := map (\<lambda>(t, info). (t, if t = ''imported_records''
        then info\<lparr>tb_columns := tb_columns info @ [(''seq'', 0)], tb_foreign_keys := tb_foreign_keys info @ [REFERENCES_LOG]\<rparr>
        else info)) (tables f)\<rparr>"

text \<open>The dictionary \<open>by_fingerprint\<close>, latest first.\<close>

fun by_fingerprint :: "(str \<times> int) list \<Rightarrow> log_row list \<Rightarrow> (str \<times> int) list res" where
  "by_fingerprint acc [] = Inr acc"
| "by_fingerprint acc (row # rows) =
    bindE (case json_loads (l_record_json row) of
             Inl JSONDecodeError \<Rightarrow> Inl (StoreIntegrityError ''cannot migrate imported records'')
           | r \<Rightarrow> r) (\<lambda>record.
    bindE (import_fingerprint record) (\<lambda>fingerprint.
      by_fingerprint (case fingerprint of None \<Rightarrow> acc | Some p \<Rightarrow> (p, l_seq row) # acc) rows))"

definition resolve_imports :: "(str \<times> int) list \<Rightarrow> imported_row list \<Rightarrow> imported_row list" where
  "resolve_imports known =
    map (\<lambda>m. if m_seq m = None then m\<lparr>m_seq := map_of known (m_fingerprint m)\<rparr> else m)"

definition add_import_sequences :: script where
  "add_import_sequences f =
    (if ''seq'' \<in> table_columns ''imported_records'' f then no_step f else atomic (\<lambda>f. Inr (add_seq_column f)) f)"

definition resolve_import_sequences :: script where
  "resolve_import_sequences f =
    (if list_all (\<lambda>m. m_seq m \<noteq> None) (db_imported (contents f)) then no_step f
     else atomic (\<lambda>f. bindE (by_fingerprint [] (db_log (contents f))) (\<lambda>known.
       Inr (f\<lparr>contents := (contents f)\<lparr>db_imported := resolve_imports known (db_imported (contents f))\<rparr>\<rparr>))) f)"

definition migrate_imported_records :: script where
  "migrate_imported_records = run_script [add_import_sequences, resolve_import_sequences]"

definition convert_key :: "legacy_key \<Rightarrow> db \<Rightarrow> idempotency_row list \<Rightarrow> idempotency_row list res" where
  "convert_key row d inserted =
    bindE (case json_loads (y_response_json row) of
             Inl JSONDecodeError \<Rightarrow> Inl (StoreIntegrityError ''legacy idempotency response is invalid'')
           | r \<Rightarrow> r) (\<lambda>response.
      case (case response of JObj members \<Rightarrow> get_int members (lit ''seq'') | _ \<Rightarrow> None) of
        None \<Rightarrow> Inl (StoreIntegrityError ''legacy idempotency response has no sequence'')
      | Some seq \<Rightarrow>
         bindE (bind_ints [seq]) (\<lambda>_.
           case y_auditor_id row of
             None \<Rightarrow> Inl (DatabaseError ''NOT NULL constraint failed'')
           | Some aid \<Rightarrow>
              (if (aid, y_key row) \<in> (\<lambda>r. (i_auditor_id r, i_key r)) ` set inserted \<or> log_row_at d seq = None
               then Inl (DatabaseError ''constraint failed'')
               else Inr (inserted @ [\<lparr>i_auditor_id = aid, i_key = y_key row, i_body_sha256 = y_body_sha256 row,
                                  i_response_json = y_response_json row, i_seq = seq, i_expires_at = y_expires_at row\<rparr>]))))"

fun convert_keys :: "legacy_key list \<Rightarrow> db \<Rightarrow> idempotency_row list \<Rightarrow> idempotency_row list res" where
  "convert_keys [] d inserted = Inr inserted"
| "convert_keys (row # rows) d inserted = bindE (convert_key row d inserted) (convert_keys rows d)"

definition rebuild_idempotency :: "int \<Rightarrow> db_file \<Rightarrow> db_file res" where
  "rebuild_idempotency now f =
    (let legacy = filter (\<lambda>k. y_expires_at k > now) (old_keys f) in
     if legacy \<noteq> [] \<and> ''auditor_id'' \<notin> table_columns ''idempotency'' f
     then Inl (StoreIntegrityError ''unexpired legacy idempotency entries have no auditor scope'')
     else if map_of (indexes f) ''idx_idempotency_expiry'' \<noteq> None then Inl (DatabaseError ''index already exists'')
     else bindE (convert_keys legacy (contents f) []) (\<lambda>converted.
       Inr (f\<lparr>tables := AList.update ''idempotency'' idempotency_table (tables f),
              indexes := indexes f @ [(''idx_idempotency_expiry'', [''expires_at''])],
              contents := (contents f)\<lparr>db_idempotency := converted\<rparr>, old_keys := []\<rparr>)))"

definition migrate_idempotency :: "int \<Rightarrow> script" where
  "migrate_idempotency now f =
    (if map_of (tables f) ''idempotency'' = None then
       run_script [atomic (\<lambda>f. Inr (create_table ''idempotency'' idempotency_table f)),
                   atomic (\<lambda>f. Inr (create_index ''idx_idempotency_expiry'' [''expires_at''] f))] f
     else if {''auditor_id'', ''seq''} \<subseteq> table_columns ''idempotency'' f then
       atomic (\<lambda>f. Inr (create_index ''idx_idempotency_expiry'' [''expires_at''] f)) f
     else atomic (rebuild_idempotency now) f)"

definition initialize_file :: "string list \<Rightarrow> int \<Rightarrow> str \<Rightarrow> script" where
  "initialize_file pragma now utc =
    run_script [execute_schema, initialize_creation_metadata utc, migrate_imported_records, migrate_idempotency now,
                mark_current_schema pragma]"

definition upgrade :: "string list \<Rightarrow> int \<Rightarrow> str \<Rightarrow> script" where
  "upgrade pragma now utc f =
    (if user_version f = 0 then before (check require_legacy_schema) (initialize_file pragma now utc) f
     else if user_version f = 4 then check require_current_schema f
     else if user_version f = 3 then
       run_script [check require_v3_schema, migrate_v3_to_v4, check require_current_schema] f
     else if user_version f = 2 then
       run_script [check require_v2_schema, migrate_v2_to_v3, check require_v3_schema, migrate_v3_to_v4,
                   check require_current_schema] f
     else ([], Inl (StoreIntegrityError ''unsupported database schema version'')))"

text \<open>A file that holds nothing yet.\<close>

definition empty_file :: db_file where
  "empty_file =
    \<lparr>user_version = 0, tables = [], indexes = [],
     contents = \<lparr>db_log = [], db_log_sequence = 0, db_metadata = [], db_imported = [], db_boundaries = [],
                 db_frontier = [], db_high_water = [], db_idempotency = []\<rparr>, old_keys = []\<rparr>"

text \<open>The whole constructor: the states the file goes through, and the opened store.\<close>

definition construct :: "string list \<Rightarrow> rat \<Rightarrow> rat \<Rightarrow> int \<Rightarrow> str \<Rightarrow> db_file option \<Rightarrow> db_file list \<times> store res" where
  "construct pragma interval monotonic now utc file =
    (if interval \<le> 0 then ([], Inl (ValueError ''health_verify_interval must be a positive finite number of seconds''))
     else
       let start = (case file of None \<Rightarrow> empty_file | Some f \<Rightarrow> f);
           (states, r) = (case file of None \<Rightarrow> initialize_file pragma now utc start | Some f \<Rightarrow> upgrade pragma now utc f)
       in case bindE r (\<lambda>_. open_verified pragma interval monotonic utc (contents (last (start # states)))) of
            Inl e \<Rightarrow> (states, Inl (startup_error e))
          | Inr s \<Rightarrow> (states @ [(last (start # states))\<lparr>contents := st_db s\<rparr>], Inr s))"


section \<open>Total correctness with crash points\<close>

text \<open>
  From every state in \<open>P\<close> the script ends without an error in a state of \<open>Q\<close>, and every state
  a crash can leave on the way satisfies \<open>I\<close>.
\<close>

definition runs :: "(db_file \<Rightarrow> bool) \<Rightarrow> script \<Rightarrow> (db_file \<Rightarrow> bool) \<Rightarrow> (db_file \<Rightarrow> bool) \<Rightarrow> bool" where
  "runs P p I Q \<longleftrightarrow> (\<forall>f. P f \<longrightarrow> snd (p f) = Inr () \<and> (\<forall>g \<in> set (fst (p f)). I g) \<and> Q (last (f # fst (p f))))"

lemma runsD:
  assumes "runs P p I Q" "P f"
  obtains states where "p f = (states, Inr ())" "\<forall>g \<in> set states. I g" "Q (last (f # states))"
  using that [of "fst (p f)"] assms by (simp add: runs_def prod_eq_iff)

lemma runs_atomic: "(\<And>f. P f \<Longrightarrow> \<exists>f'. p f = Inr f' \<and> I f' \<and> Q f') \<Longrightarrow> runs P (atomic p) I Q"
  by (fastforce simp: runs_def atomic_def)

lemma runs_check: "(\<And>f. P f \<Longrightarrow> c f = Inr () \<and> Q f) \<Longrightarrow> runs P (check c) I Q"
  by (simp add: runs_def check_def)

lemma runs_no_step: "(\<And>f. P f \<Longrightarrow> Q f) \<Longrightarrow> runs P no_step I Q"
  by (simp add: runs_def no_step_def)

lemma runs_cond:
  "runs (\<lambda>f. P f \<and> c f) p I Q \<Longrightarrow> runs (\<lambda>f. P f \<and> \<not> c f) q I Q \<Longrightarrow> runs P (\<lambda>f. if c f then p f else q f) I Q"
  unfolding runs_def by presburger

lemma runs_before:
  assumes p: "runs P p I Q" and q: "runs Q q I R"
  shows "runs P (before p q) I R"
  unfolding runs_def
proof (intro allI impI)
  fix f assume "P f"
  with p obtain s1 where s1: "p f = (s1, Inr ())" "\<forall>g \<in> set s1. I g" "Q (last (f # s1))" by (rule runsD)
  obtain s2 where s2: "q (last (f # s1)) = (s2, Inr ())" "\<forall>g \<in> set s2. I g" "R (last (last (f # s1) # s2))"
    using q s1(3) by (rule runsD)
  have "last (f # s1 @ s2) = last (last (f # s1) # s2)" by (cases "s2 = []") simp_all
  then show "snd (before p q f) = Inr () \<and> (\<forall>g \<in> set (fst (before p q f)). I g) \<and> R (last (f # fst (before p q f)))"
    using s1(1,2) s2 by (auto simp: before_def simp del: last.simps)
qed

lemma runs_weaken:
  "runs P p I Q \<Longrightarrow> (\<And>f. P' f \<Longrightarrow> P f) \<Longrightarrow> (\<And>f. I f \<Longrightarrow> I' f) \<Longrightarrow> (\<And>f. Q f \<Longrightarrow> Q' f) \<Longrightarrow> runs P' p I' Q'"
  by (auto simp: runs_def)

lemma runs_script_Nil: "(\<And>f. P f \<Longrightarrow> Q f) \<Longrightarrow> runs P (run_script []) I Q"
  by (simp add: run_script_def runs_def no_step_def)

lemma runs_script_Cons: "runs P p I Q \<Longrightarrow> runs Q (run_script ps) I R \<Longrightarrow> runs P (run_script (p # ps)) I R"
  unfolding run_script_def by (simp add: runs_before)

lemmas runs_script = runs_script_Cons runs_script_Nil

text \<open>A list of unconditional statements, each keeping \<open>I\<close>.\<close>

lemma runs_statements:
  assumes "\<And>k f. k < length ps \<Longrightarrow> I f \<Longrightarrow> I ((ps ! k) f)" "\<And>f. I f \<Longrightarrow> Q (fold (\<lambda>p. p) ps f)"
  shows "runs I (run_script (map (\<lambda>p. atomic (\<lambda>f. Inr (p f))) ps)) I (\<lambda>f. I f \<and> Q f)"
proof -
  have "runs (\<lambda>f. I f \<and> Q (fold (\<lambda>p. p) ps f)) (run_script (map (\<lambda>p. atomic (\<lambda>f. Inr (p f))) ps)) I (\<lambda>f. I f \<and> Q f)"
    using assms(1)
  proof (induction ps)
    case (Cons p ps)
    have "runs (\<lambda>f. I f \<and> Q (fold (\<lambda>p. p) (p # ps) f)) (atomic (\<lambda>f. Inr (p f))) I (\<lambda>f. I f \<and> Q (fold (\<lambda>p. p) ps f))"
      using Cons.prems [of 0] by (intro runs_atomic) auto
    moreover have "\<And>k f. k < length ps \<Longrightarrow> I f \<Longrightarrow> I ((ps ! k) f)" using Cons.prems [of "Suc _"] by simp
    ultimately show ?case using Cons.IH by (simp add: runs_script_Cons)
  qed (simp add: runs_script_Nil)
  then show ?thesis using assms(2) by (auto elim: runs_weaken)
qed


section \<open>Rows\<close>

lemma import_fingerprint_defined:
  assumes "entry_ok e"
  shows "\<exists>p. import_fingerprint (JObj (fst e)) = Inr p"
proof -
  let ?r = "without (lit ''sig'') (fst e)"
  have d: "dict_ok (JObj ?r)" by (rule dict_ok_without) (use assms in \<open>simp only: entry_ok_def\<close>)
  obtain b where "canonical_bytes (fst e) = Inr b" using assms by (auto simp: entry_ok_def admit_def bindE_Inr_iff)
  then have c: "ccj_leaves (JObj ?r)" using d by (auto simp: canonical_bytes_def canonical_document_Inr)
  have m: "map_of ?r (lit ''endorsements'') = map_of (fst e) (lit ''endorsements'')"
    "map_of ?r (lit ''source_identity'') = map_of (fst e) (lit ''source_identity'')"
    "map_of ?r (lit ''commit'') = map_of (fst e) (lit ''commit'')"
    "map_of ?r (lit ''content_sha256'') = map_of (fst e) (lit ''content_sha256'')"
    "map_of ?r (lit ''status'') = map_of (fst e) (lit ''status'')" by simp_all
  have same: "import_fingerprint (JObj ?r) = import_fingerprint (JObj (fst e))"
    unfolding import_fingerprint_def json.case m ..
  show ?thesis
  proof (cases "import_signature (prior_endorsements ?r)")
    case (JStr g)
    have "\<forall>x \<in> set (prior_endorsements ?r). dict_ok x \<and> ccj_leaves x"
      using prior_endorsements_ok [OF d] prior_endorsements_ccj [OF c] by blast
    then have "dict_ok (JStr g)" "ccj_leaves (JStr g)" using import_signature_ok [OF JStr] by blast+
    then obtain p where "fingerprint_payload ?r (JStr g) = Inr p" using fingerprint_payload_defined [OF d c] by blast
    then show ?thesis
      unfolding same [symmetric] using JStr
      by (auto simp: import_fingerprint_def prior_endorsements_def fingerprint_payload_def fingerprint_fields_def Let_def
          split: option.splits json.splits)
  qed (auto simp: import_fingerprint_def same [symmetric] prior_endorsements_def nonempty_text_def Let_def split: option.splits json.splits)
qed

lemma row_record:
  assumes "entry_ok (es ! i)"
  shows "\<exists>v. json_loads (l_record_json (row_at es i)) = Inr v \<and> import_fingerprint v = import_fingerprint (JObj (fst (es ! i)))"
proof -
  have d: "dict_ok (JObj (fst (es ! i)))" "plain (JObj (fst (es ! i)))" using assms by (simp_all only: entry_ok_def)
  show ?thesis
    using json_loads_dumps [OF d] import_fingerprint_sort [OF d(1)] by (simp add: row_at_def mk_row_def del: sort_json.simps)
qed

text \<open>What \<open>by_fingerprint\<close> collects: sequence numbers of records with that fingerprint, and every fingerprint.\<close>

definition known_ok :: "entry list \<Rightarrow> (str \<times> int) list \<Rightarrow> bool" where
  "known_ok es known \<longleftrightarrow>
    (\<forall>(p, n) \<in> set known. 1 \<le> n \<and> n \<le> int (length es) \<and> import_fingerprint (JObj (fst (es ! (nat n - 1)))) = Inr (Some p))"

lemma by_fingerprint_ok:
  assumes "\<forall>e \<in> set es. entry_ok e" "\<forall>i \<in> set is. i < length es" "known_ok es acc"
  shows "\<exists>known. by_fingerprint acc (map (row_at es) is) = Inr known \<and> known_ok es known \<and>
    (\<forall>p. p \<in> fst ` set acc \<or> (\<exists>i \<in> set is. import_fingerprint (JObj (fst (es ! i))) = Inr (Some p)) \<longrightarrow> p \<in> fst ` set known)"
  using assms(2,3)
proof (induction "is" arbitrary: acc)
  case (Cons i "is")
  have e: "entry_ok (es ! i)" and l: "l_seq (row_at es i) = int i + 1" using assms(1) Cons.prems by (simp_all add: row_at_def mk_row_def)
  obtain p where p: "import_fingerprint (JObj (fst (es ! i))) = Inr p" using import_fingerprint_defined [OF e] by blast
  obtain v where v: "json_loads (l_record_json (row_at es i)) = Inr v" "import_fingerprint v = Inr p" using row_record [OF e] p by auto
  let ?acc = "case p of None \<Rightarrow> acc | Some q \<Rightarrow> (q, int i + 1) # acc"
  have "known_ok es ?acc" using Cons.prems p by (auto simp: known_ok_def nat_add_distrib split: option.split)
  with Cons.IH [of ?acc] Cons.prems obtain known where known: "by_fingerprint ?acc (map (row_at es) is) = Inr known" "known_ok es known"
    "\<forall>p. p \<in> fst ` set ?acc \<or> (\<exists>i \<in> set is. import_fingerprint (JObj (fst (es ! i))) = Inr (Some p)) \<longrightarrow> p \<in> fst ` set known"
    by auto
  have "by_fingerprint acc (map (row_at es) (i # is)) = Inr known" using known(1) v by (cases p) (simp_all add: l)
  moreover have "q \<in> fst ` set ?acc" if "q \<in> fst ` set acc \<or> p = Some q" for q using that by (auto split: option.split)
  ultimately show ?case using known(2,3) p by (intro exI [of _ known]) auto
qed simp

text \<open>An entry of the import ledger of an old file: resolved, or not yet resolved but in the log.\<close>

definition import_known :: "entry list \<Rightarrow> imported_row \<Rightarrow> bool" where
  "import_known es m \<longleftrightarrow>
    imported_ok es m \<or>
    m_seq m = None \<and> (\<exists>i < length es. import_fingerprint (JObj (fst (es ! i))) = Inr (Some (m_fingerprint m)))"

lemma resolve_imports_ok:
  assumes "\<forall>e \<in> set es. entry_ok e" "\<forall>m \<in> set ms. import_known es m"
  shows "\<exists>known. by_fingerprint [] (rows_of es) = Inr known \<and> (\<forall>m \<in> set (resolve_imports known ms). imported_ok es m)"
proof -
  obtain known where k: "by_fingerprint [] (rows_of es) = Inr known" "known_ok es known"
    "\<And>p. (\<exists>i < length es. import_fingerprint (JObj (fst (es ! i))) = Inr (Some p)) \<Longrightarrow> p \<in> fst ` set known"
    using by_fingerprint_ok [OF assms(1), of "[0..<length es]" "[]"] unfolding rows_of_def by (auto simp: known_ok_def Bex_def)
  have "imported_ok es (if m_seq m = None then m\<lparr>m_seq := map_of known (m_fingerprint m)\<rparr> else m)" if m: "m \<in> set ms" for m
  proof (cases "m_seq m")
    case None
    then have "m_fingerprint m \<in> fst ` set known" using assms(2) [rule_format, OF m] k(3) by (auto simp: import_known_def imported_ok_def)
    then obtain n where "map_of known (m_fingerprint m) = Some n" using weak_map_of_SomeI by fastforce
    with None k(2) show ?thesis by (auto simp: imported_ok_def known_ok_def dest!: map_of_SomeD)
  qed (use assms(2) m in \<open>auto simp: import_known_def\<close>)
  with k(1) show ?thesis unfolding resolve_imports_def set_map by blast
qed

text \<open>The tables an old file shares with the current ones; the caches are complete or not there yet.\<close>

definition caches_ok :: "entry list \<Rightarrow> db \<Rightarrow> bool" where
  "caches_ok es d \<longleftrightarrow>
    db_boundaries d = boundaries_of es \<and> db_frontier d = db_frontier (save_frontier (frontier_of (leaves es)) d) \<or>
    db_boundaries d = [] \<and> db_frontier d = []"

definition old_rows_ok :: "entry list \<Rightarrow> db \<Rightarrow> bool" where
  "old_rows_ok es d \<longleftrightarrow>
    (\<forall>e \<in> set es. entry_ok e) \<and> length es < 2 ^ 63 \<and> db_log d = rows_of es \<and> db_log_sequence d = int (length es) \<and>
    caches_ok es d \<and>
    (\<forall>r \<in> set (db_idempotency d). idempotency_ok es r) \<and>
    distinct (map (\<lambda>r. (i_auditor_id r, i_key r)) (db_idempotency d)) \<and>
    (\<forall>w \<in> set (db_high_water d). high_water_ok w) \<and> distinct (map hw_key_id (db_high_water d))"

definition rebuilt :: "entry list \<Rightarrow> db \<Rightarrow> db" where
  "rebuilt es d = save_frontier (frontier_of (leaves es)) (d\<lparr>db_boundaries := boundaries_of es\<rparr>)"

lemma rebuilt_ok:
  assumes "old_rows_ok es d" "\<forall>m \<in> set (db_imported d). imported_ok es m" "metadata_ok (db_metadata d)"
  shows "db_ok (rebuilt es d) es"
  using assms by (simp add: old_rows_ok_def db_ok_def tables_ok_def ledgers_ok_def rebuilt_def save_frontier_def)

lemma integrity_errors_caches:
  "integrity_errors_on pragma (d\<lparr>db_boundaries := b, db_frontier := fr\<rparr>) = integrity_errors_on pragma d"
proof -
  let ?d = "d\<lparr>db_boundaries := b, db_frontier := fr\<rparr>"
  have lr: "log_row_at ?d = log_row_at d" by (simp add: fun_eq_iff log_row_at_def)
  have "idempotency_issues ?d hs row = idempotency_issues d hs row" "imported_issues ?d m = imported_issues d m" for hs row m
    unfolding idempotency_issues_def imported_issues_def lr by (rule refl)+
  then have "idempotency_issues ?d = idempotency_issues d" "imported_issues ?d = imported_issues d" by blast+
  moreover have "foreign_key_issues ?d = foreign_key_issues d" "metadata_issues ?d = metadata_issues d"
    unfolding foreign_key_issues_def metadata_issues_def lr by simp_all
  ultimately show ?thesis by (simp add: integrity_errors_on_def)
qed

lemma old_rows_open:
  assumes "old_rows_ok es d" "\<forall>m \<in> set (db_imported d). imported_ok es m" "metadata_ok (db_metadata d)"
  shows "\<exists>walked. integrity_errors_on [''ok''] d = Inr ([], walked)"
    and "0 < interval \<Longrightarrow> \<exists>s. open_verified [''ok''] interval now utc d = Inr s \<and> st_db s = rebuilt es d \<and> store_ok s es"
proof -
  have ok: "db_ok (rebuilt es d) es" by (rule rebuilt_ok [OF assms])
  have r: "rebuilt es d = d\<lparr>db_boundaries := db_boundaries (rebuilt es d), db_frontier := db_frontier (rebuilt es d)\<rparr>"
    by (simp add: rebuilt_def save_frontier_def)
  then have i: "integrity_errors_on [''ok''] d = integrity_errors_on [''ok''] (rebuilt es d)"
    by (metis integrity_errors_caches)
  then show "\<exists>walked. integrity_errors_on [''ok''] d = Inr ([], walked)" using integrity_errors_ok [OF ok] by simp
  have e: "ensure_boundaries d = Inr (rebuilt es d)"
  proof (cases "db_boundaries d = [] \<and> db_frontier d = []")
    case True
    then have "d = (rebuilt es d)\<lparr>db_boundaries := filter (\<lambda>_. False) (db_boundaries (rebuilt es d)), db_frontier := []\<rparr>"
      by (simp add: rebuilt_def save_frontier_def)
    then show ?thesis using ensure_boundaries_rebuilds [OF ok, of "\<lambda>_. False"] by simp
  next
    case False
    then have "rebuilt es d = d" using assms(1) by (auto simp: old_rows_ok_def caches_ok_def rebuilt_def save_frontier_def)
    then show ?thesis using ensure_boundaries_ok [OF ok] by simp
  qed
  have "open_verified [''ok''] interval now utc d = open_verified [''ok''] interval now utc (rebuilt es d)"
    unfolding open_verified_def i e ensure_boundaries_ok [OF ok] ..
  then show "0 < interval \<Longrightarrow> \<exists>s. open_verified [''ok''] interval now utc d = Inr s \<and> st_db s = rebuilt es d \<and> store_ok s es"
    using open_verified_ok [OF ok] by metis
qed


end
