(* ===== verification/Upgrade.thy ===== *)
theory Upgrade
  imports Migration
begin

text \<open>
  Which database files open. \<open>supported\<close> describes the files of every schema version and the
  states in which a migration can be interrupted; opening one of them succeeds, keeps its log,
  and passes only through supported files, so that an interrupted migration can be resumed.
  A database whose creation was interrupted is the exception: it is refused.
\<close>


section \<open>Files that can be opened\<close>

definition imported_legacy :: table_info where
  "imported_legacy = plain_table [''fingerprint''] [''imported_at'']"

definition unscoped_keys :: table_info where
  "unscoped_keys = plain_table [''key''] [''body_sha256'', ''response_json'', ''expires_at'']"

definition scoped_keys :: table_info where
  "scoped_keys = plain_table [''auditor_id'', ''key''] [''body_sha256'', ''response_json'', ''expires_at'']"

text \<open>An unexpired key of an old table, as the row it becomes.\<close>

definition converts :: "entry list \<Rightarrow> legacy_key \<Rightarrow> idempotency_row \<Rightarrow> bool" where
  "converts es k r \<longleftrightarrow>
    y_auditor_id k = Some (i_auditor_id r) \<and> y_key k = i_key r \<and> y_body_sha256 k = i_body_sha256 r \<and>
    y_response_json k = i_response_json r \<and> y_expires_at k = i_expires_at r \<and> idempotency_ok es r"

definition legacy_keys_ok :: "int \<Rightarrow> entry list \<Rightarrow> db_file \<Rightarrow> bool" where
  "legacy_keys_ok now es f \<longleftrightarrow>
    db_idempotency (contents f) = [] \<and> map_of (indexes f) ''idx_idempotency_expiry'' = None \<and>
    (map_of (tables f) ''idempotency'' = Some unscoped_keys \<and> (\<forall>k \<in> set (old_keys f). y_expires_at k \<le> now) \<or>
     map_of (tables f) ''idempotency'' = Some scoped_keys \<and> distinct (map (\<lambda>k. (y_auditor_id k, y_key k)) (old_keys f)) \<and>
       (\<forall>k \<in> set (old_keys f). now < y_expires_at k \<longrightarrow> (\<exists>r. converts es k r)))"

definition created_ok :: "db_file \<Rightarrow> bool" where
  "created_ok f \<longleftrightarrow> (case get_metadata ''created_at'' f of Some t \<Rightarrow> timestamp t | None \<Rightarrow> False)"

definition optional :: "'a option \<Rightarrow> 'a \<Rightarrow> bool" where
  "optional x v \<longleftrightarrow> x = None \<or> x = Some v"

definition has_tables :: "(string \<times> table_info) list \<Rightarrow> db_file \<Rightarrow> bool" where
  "has_tables required f \<longleftrightarrow> (\<forall>(t, info) \<in> set required. map_of (tables f) t = Some info)"

definition fits :: "(string \<times> table_info) list \<Rightarrow> db_file \<Rightarrow> bool" where
  "fits schema f \<longleftrightarrow> (\<forall>(t, info) \<in> set schema. optional (map_of (tables f) t) info)"

definition has_indexes :: "(string \<times> string list) list \<Rightarrow> db_file \<Rightarrow> bool" where
  "has_indexes required f \<longleftrightarrow> (\<forall>(i, columns) \<in> set required. map_of (indexes f) i = Some columns)"

definition fits_indexes :: "db_file \<Rightarrow> bool" where
  "fits_indexes f \<longleftrightarrow> (\<forall>(i, columns) \<in> set expected_indexes. optional (map_of (indexes f) i) columns)"

definition added_tables :: "(string \<times> table_info) list" where
  "added_tables =
    [(''metadata'', metadata_table), (''boundaries'', boundaries_table), (''merkle_frontier'', frontier_table),
     (''upstream_high_water'', high_water_table)]"

definition legacy_file :: "int \<Rightarrow> entry list \<Rightarrow> db_file \<Rightarrow> bool" where
  "legacy_file now es f \<longleftrightarrow>
    user_version f = 0 \<and> old_rows_ok es (contents f) \<and> (\<forall>m \<in> set (db_imported (contents f)). import_known es m) \<and>
    map_of (tables f) ''log'' = Some log_table \<and>
    (map_of (tables f) ''imported_records'' = Some imported_table \<or> map_of (tables f) ''imported_records'' = Some imported_legacy) \<and>
    (map_of (tables f) ''idempotency'' = Some idempotency_table \<or> legacy_keys_ok now es f) \<and>
    fits added_tables f \<and> fits_indexes f \<and>
    get_metadata ''schema_version'' f = None \<and> (get_metadata ''created_at'' f = None \<or> created_ok f)"

definition versioned_file :: "int \<Rightarrow> string \<Rightarrow> (string \<times> table_info) list \<Rightarrow> entry list \<Rightarrow> db_file \<Rightarrow> bool" where
  "versioned_file version marker required es f \<longleftrightarrow>
    user_version f = version \<and> old_rows_ok es (contents f) \<and> (\<forall>m \<in> set (db_imported (contents f)). imported_ok es m) \<and>
    has_tables required f \<and> fits v4_tables f \<and> has_indexes expected_indexes f \<and>
    get_metadata ''schema_version'' f = Some (lit marker) \<and> created_ok f"

abbreviation file_v2 :: "entry list \<Rightarrow> db_file \<Rightarrow> bool" where "file_v2 \<equiv> versioned_file 2 ''2'' v2_tables"
abbreviation file_v3 :: "entry list \<Rightarrow> db_file \<Rightarrow> bool" where "file_v3 \<equiv> versioned_file 3 ''3'' v3_tables"
abbreviation file_v4 :: "entry list \<Rightarrow> db_file \<Rightarrow> bool" where "file_v4 \<equiv> versioned_file 4 ''4'' v4_tables"

definition supported :: "int \<Rightarrow> entry list \<Rightarrow> db_file \<Rightarrow> bool" where
  "supported now es f \<longleftrightarrow> legacy_file now es f \<or> file_v2 es f \<or> file_v3 es f \<or> file_v4 es f"

lemma legacy_keys_mono: "legacy_keys_ok now es f \<Longrightarrow> now \<le> now' \<Longrightarrow> legacy_keys_ok now' es f"
  by (auto simp: legacy_keys_ok_def)

lemma supported_mono: "supported now es f \<Longrightarrow> now \<le> now' \<Longrightarrow> supported now' es f"
  unfolding supported_def legacy_file_def using legacy_keys_mono by blast

named_theorems file_simps

lemma set_metadata_simps [file_simps]:
  "user_version (set_metadata k v f) = user_version f" "tables (set_metadata k v f) = tables f"
  "indexes (set_metadata k v f) = indexes f" "old_keys (set_metadata k v f) = old_keys f"
  "get_metadata k' (set_metadata k v f) = (if lit k' = lit k then Some v else get_metadata k' f)"
  "contents (set_metadata k v f) = (contents f)\<lparr>db_metadata := AList.update (lit k) v (db_metadata (contents f))\<rparr>"
  by (simp_all add: set_metadata_def get_metadata_def update_conv')

lemma create_table_simps [file_simps]:
  "user_version (create_table t i f) = user_version f" "indexes (create_table t i f) = indexes f"
  "contents (create_table t i f) = contents f" "old_keys (create_table t i f) = old_keys f"
  "get_metadata k (create_table t i f) = get_metadata k f"
  "map_of (tables (create_table t i f)) t' =
    (if t' = t \<and> map_of (tables f) t = None then Some i else map_of (tables f) t')"
  by (auto simp: create_table_def get_metadata_def map_add_def split: option.split)

lemma create_index_simps [file_simps]:
  "user_version (create_index t i f) = user_version f" "tables (create_index t i f) = tables f"
  "contents (create_index t i f) = contents f" "old_keys (create_index t i f) = old_keys f"
  "get_metadata k (create_index t i f) = get_metadata k f"
  "map_of (indexes (create_index x i f)) x' =
    (if x' = x \<and> map_of (indexes f) x = None then Some i else map_of (indexes f) x')"
  by (auto simp: create_index_def get_metadata_def map_add_def split: option.split)

lemma old_rows_metadata [file_simps]: "old_rows_ok es (d\<lparr>db_metadata := m\<rparr>) = old_rows_ok es d"
  by (simp add: old_rows_ok_def caches_ok_def save_frontier_def)

lemma get_metadata_update [file_simps]: "get_metadata k (f\<lparr>user_version := v\<rparr>) = get_metadata k f"
  by (simp add: get_metadata_def)


section \<open>Versions 2 to 4\<close>

lemma require_columns_ok: "has_tables required f \<Longrightarrow> require_columns required f = Inr ()"
  by (auto simp: has_tables_def require_columns_def table_columns_def)

lemma require_marker_ok: "get_metadata ''schema_version'' f = Some (lit v) \<Longrightarrow> require_marker v f = Inr ()"
  by (simp add: require_marker_def)

text \<open>The columns of a primary key come first in every table, so sorting by position changes nothing.\<close>

lemma plain_primary_key:
  assumes "map_of (tables f) t = Some info" "tb_columns info = tb_columns (plain_table primary others)" "length primary < 1000000"
  shows "primary_key t f = primary"
proof -
  let ?key = "\<lambda>(_, pk :: nat). if pk \<noteq> 0 then pk else 1000000" and ?cs = "zip primary [1..<length primary + 1]"
  have "map ?key ?cs = [1..<length primary + 1]"
    by (rule nth_equalityI) (auto simp del: upt_Suc)
  then have "map ?key (?cs @ map (\<lambda>c. (c, 0)) others) = [1..<length primary + 1] @ replicate (length others) 1000000"
    by (simp add: comp_def map_replicate_const)
  moreover have "sorted ([1..<length primary + 1] @ replicate (length others) 1000000)"
    using assms(3) by (simp only: sorted_append sorted_upt sorted_replicate) auto
  ultimately have "sorted (map ?key (?cs @ map (\<lambda>c. (c, 0)) others))" by simp
  then have "sort_key ?key (?cs @ map (\<lambda>c. (c, 0)) others) = ?cs @ map (\<lambda>c. (c, 0)) others" by (rule sort_key_id_if_sorted)
  moreover have "filter (\<lambda>(_, pk). pk \<noteq> 0) ?cs = ?cs"
    by (auto simp: filter_id_conv set_zip simp del: upt_Suc)
  ultimately show ?thesis using assms(1,2) by (simp add: primary_key_def plain_table_def filter_map comp_def del: upt_Suc)
qed

lemma primary_keys_ok:
  assumes "has_tables v4_tables f"
  shows "\<forall>(t, key) \<in> set expected_primary_keys. primary_key t f = key"
proof -
  have "map_of (tables f) ''log'' = Some log_table" "map_of (tables f) ''metadata'' = Some metadata_table"
    "map_of (tables f) ''imported_records'' = Some imported_table" "map_of (tables f) ''idempotency'' = Some idempotency_table"
    "map_of (tables f) ''boundaries'' = Some boundaries_table" "map_of (tables f) ''merkle_frontier'' = Some frontier_table"
    "map_of (tables f) ''upstream_high_water'' = Some high_water_table"
    using assms by (simp_all add: has_tables_def v4_tables_def v3_tables_def v2_tables_def)
  note key = this [THEN plain_primary_key]
  have "primary_key ''log'' f = [''seq'']" by (rule key(1)) (auto simp: log_table_def)
  moreover have "primary_key ''metadata'' f = [''key'']" by (rule key(2)) (auto simp: metadata_table_def)
  moreover have "primary_key ''imported_records'' f = [''fingerprint'']" by (rule key(3)) (auto simp: imported_table_def)
  moreover have "primary_key ''idempotency'' f = [''auditor_id'', ''key'']" by (rule key(4)) (auto simp: idempotency_table_def)
  moreover have "primary_key ''boundaries'' f = [''log_size'']" by (rule key(5)) (auto simp: boundaries_table_def)
  moreover have "primary_key ''merkle_frontier'' f = [''level'']" by (rule key(6)) (auto simp: frontier_table_def)
  moreover have "primary_key ''upstream_high_water'' f = [''key_id'']" by (rule key(7)) (auto simp: high_water_table_def)
  ultimately show ?thesis unfolding expected_primary_keys_def by simp
qed

lemma require_current_ok:
  assumes "file_v4 es f"
  shows "require_current_schema f = Inr ()"
proof -
  have t: "has_tables v4_tables f" and i: "has_indexes expected_indexes f"
    and m: "get_metadata ''schema_version'' f = Some (lit ''4'')"
    using assms unfolding versioned_file_def by blast+
  have "map_of (tables f) ''imported_records'' = Some imported_table" "map_of (tables f) ''idempotency'' = Some idempotency_table"
    using t by (simp_all add: has_tables_def v4_tables_def v3_tables_def v2_tables_def)
  then have "\<forall>t \<in> {''imported_records'', ''idempotency''}. REFERENCES_LOG \<in> foreign_keys t f"
    by (simp add: foreign_keys_def imported_table_def idempotency_table_def)
  moreover have "\<forall>(i, columns) \<in> set expected_indexes. index_columns i f = columns"
    using i by (auto simp: has_indexes_def index_columns_def)
  ultimately show ?thesis
    using require_columns_ok [OF t] primary_keys_ok [OF t] require_marker_ok [OF m]
    by (simp add: require_current_schema_def bindE_unit_Inr_iff case_prod_beta)
qed

lemma require_v3_ok: "file_v3 es f \<Longrightarrow> require_v3_schema f = Inr ()"
  unfolding versioned_file_def require_v3_schema_def by (simp add: require_columns_ok require_marker_ok)

lemma require_v2_ok: "file_v2 es f \<Longrightarrow> require_v2_schema f = Inr ()"
  unfolding versioned_file_def require_v2_schema_def by (simp add: require_columns_ok require_marker_ok)

text \<open>Statements keep what a file has and what its tables may be.\<close>

lemma has_tables_mono: "(\<And>t info. map_of (tables f) t = Some info \<Longrightarrow> map_of (tables f') t = Some info) \<Longrightarrow> has_tables R f \<Longrightarrow> has_tables R f'"
  by (auto simp: has_tables_def)

lemma has_tables_create: "has_tables R f \<Longrightarrow> has_tables R (create_table t i f)"
  by (rule has_tables_mono) (auto simp: create_table_simps)

lemma has_tables_added:
  "has_tables R f \<Longrightarrow> optional (map_of (tables f) t) i \<Longrightarrow> has_tables (R @ [(t, i)]) (create_table t i f)"
  using has_tables_create [of R f t i] by (auto simp: has_tables_def create_table_simps optional_def)

lemma fits_create:
  assumes "distinct (map fst T)" "(t, i) \<in> set T" "fits T f"
  shows "fits T (create_table t i f)"
proof -
  have "optional (map_of (tables (create_table t i f)) t') i'" if "(t', i') \<in> set T" for t' i'
  proof (cases "t' = t")
    case True
    then have "i' = i" using assms(1,2) that by (metis map_of_is_SomeI option.inject)
    then show ?thesis using True assms(3) that by (auto simp: fits_def create_table_simps optional_def)
  next
    case False
    then show ?thesis using assms(3) that by (auto simp: fits_def create_table_simps)
  qed
  then show ?thesis by (auto simp: fits_def)
qed

lemma fitsD: "fits T f \<Longrightarrow> (t, i) \<in> set T \<Longrightarrow> optional (map_of (tables f) t) i"
  by (auto simp: fits_def)

lemma tables_update [file_simps]:
  "has_tables R (f\<lparr>user_version := v\<rparr>) = has_tables R f" "has_tables R (set_metadata k x f) = has_tables R f"
  "has_tables R (create_index n columns f) = has_tables R f"
  "fits R (f\<lparr>user_version := v\<rparr>) = fits R f" "fits R (set_metadata k x f) = fits R f" "fits R (create_index n columns f) = fits R f"
  by (simp_all add: has_tables_def fits_def file_simps)

lemma indexes_update [file_simps]:
  "has_indexes X (f\<lparr>user_version := v\<rparr>) = has_indexes X f" "has_indexes X (set_metadata k x f) = has_indexes X f"
  "has_indexes X (create_table t i f) = has_indexes X f"
  "fits_indexes (f\<lparr>user_version := v\<rparr>) = fits_indexes f" "fits_indexes (set_metadata k x f) = fits_indexes f"
  "fits_indexes (create_table t i f) = fits_indexes f"
  by (simp_all add: has_indexes_def fits_indexes_def file_simps)

lemma schema_tables:
  "distinct (map fst v4_tables)" "distinct (map fst added_tables)" "(''boundaries'', boundaries_table) \<in> set v4_tables"
  "(''merkle_frontier'', frontier_table) \<in> set v4_tables" "(''upstream_high_water'', high_water_table) \<in> set v4_tables"
  by (simp_all add: v4_tables_def v3_tables_def v2_tables_def added_tables_def)

lemma created_ok_update [file_simps]:
  "created_ok (f\<lparr>user_version := v\<rparr>) = created_ok f" "created_ok (set_metadata ''schema_version'' x f) = created_ok f"
  "created_ok (create_table t i f) = created_ok f" "created_ok (create_index n columns f) = created_ok f"
  by (simp_all add: created_ok_def file_simps)

lemma to_v3:
  assumes "file_v2 es f"
  shows "file_v3 es ((set_metadata ''schema_version'' (lit ''3'')
      (create_table ''merkle_frontier'' frontier_table (create_table ''boundaries'' boundaries_table f)))\<lparr>user_version := 3\<rparr>)"
proof -
  let ?b = "create_table ''boundaries'' boundaries_table f"
  have h: "has_tables v2_tables f" and ft: "fits v4_tables f" using assms by (simp_all add: versioned_file_def)
  have 1: "has_tables (v2_tables @ [(''boundaries'', boundaries_table)]) ?b" "fits v4_tables ?b"
    by (rule has_tables_added [OF h fitsD [OF ft schema_tables(3)]], rule fits_create [OF schema_tables(1,3) ft])
  have "has_tables v3_tables (create_table ''merkle_frontier'' frontier_table ?b)"
    "fits v4_tables (create_table ''merkle_frontier'' frontier_table ?b)"
    using has_tables_added [OF 1(1) fitsD [OF 1(2) schema_tables(4)]] fits_create [OF schema_tables(1,4) 1(2)]
    by (simp_all add: v3_tables_def)
  then show ?thesis using assms by (simp add: versioned_file_def file_simps)
qed

lemma to_v4:
  assumes "file_v3 es f"
  shows "file_v4 es ((set_metadata ''schema_version'' (lit ''4'') (create_table ''upstream_high_water'' high_water_table f))\<lparr>user_version := 4\<rparr>)"
proof -
  have h: "has_tables v3_tables f" and ft: "fits v4_tables f" using assms by (simp_all add: versioned_file_def)
  have "has_tables v4_tables (create_table ''upstream_high_water'' high_water_table f)"
    "fits v4_tables (create_table ''upstream_high_water'' high_water_table f)"
    using has_tables_added [OF h fitsD [OF ft schema_tables(5)]] fits_create [OF schema_tables(1,5) ft] by (simp_all add: v4_tables_def)
  then show ?thesis using assms by (simp add: versioned_file_def file_simps)
qed

lemma migrate_v3_runs: "runs (file_v3 es) migrate_v3_to_v4 (file_v4 es) (file_v4 es)"
  unfolding migrate_v3_to_v4_def by (rule runs_atomic) (use to_v4 in blast)

lemma migrate_v2_runs: "runs (file_v2 es) migrate_v2_to_v3 (file_v3 es) (file_v3 es)"
  unfolding migrate_v2_to_v3_def by (rule runs_atomic) (use to_v3 in blast)

lemma upgrade_versioned:
  assumes "file_v2 es f \<or> file_v3 es f \<or> file_v4 es f"
  obtains states where "upgrade [''ok''] now utc f = (states, Inr ())" "\<forall>g \<in> set states. supported t es g" "file_v4 es (last (f # states))"
proof -
  let ?I = "\<lambda>f. supported t es f" and ?current = "check require_current_schema"
  have c: "runs (file_v4 es) ?current ?I (file_v4 es)" using require_current_ok by (auto intro: runs_check)
  have m3: "runs (file_v3 es) migrate_v3_to_v4 ?I (file_v4 es)"
    using migrate_v3_runs by (rule runs_weaken) (auto simp: supported_def)
  have r3: "runs (file_v3 es) (check require_v3_schema) ?I (file_v3 es)" using require_v3_ok by (auto intro: runs_check)
  have m2: "runs (file_v2 es) migrate_v2_to_v3 ?I (file_v3 es)"
    using migrate_v2_runs by (rule runs_weaken) (auto simp: supported_def)
  have r2: "runs (file_v2 es) (check require_v2_schema) ?I (file_v2 es)" using require_v2_ok by (auto intro: runs_check)
  have end3: "runs (file_v3 es) (run_script [migrate_v3_to_v4, ?current]) ?I (file_v4 es)"
    by (intro runs_script_Cons [OF m3] runs_script_Cons [OF c] runs_script_Nil)
  have s3: "runs (file_v3 es) (run_script [check require_v3_schema, migrate_v3_to_v4, ?current]) ?I (file_v4 es)"
    by (rule runs_script_Cons [OF r3 end3])
  have s2: "runs (file_v2 es) (run_script [check require_v2_schema, migrate_v2_to_v3, check require_v3_schema, migrate_v3_to_v4, ?current]) ?I (file_v4 es)"
    by (rule runs_script_Cons [OF r2 runs_script_Cons [OF m2 s3]])
  from assms show thesis
  proof (elim disjE)
    assume f: "file_v2 es f"
    then have "user_version f = 2" by (simp add: versioned_file_def)
    then show thesis using runsD [OF s2 f] that by (simp add: upgrade_def) blast
  next
    assume f: "file_v3 es f"
    then have "user_version f = 3" by (simp add: versioned_file_def)
    then show thesis using runsD [OF s3 f] that by (simp add: upgrade_def) blast
  next
    assume f: "file_v4 es f"
    then have "user_version f = 4" by (simp add: versioned_file_def)
    then show thesis using runsD [OF c f] that by (simp add: upgrade_def) blast
  qed
qed


section \<open>Unversioned files\<close>

lemma table_names: "fst ` set (tb_columns (plain_table primary others)) = set (primary @ others)"
proof -
  have "fst ` set (zip primary [1..<length primary + 1]) = set primary"
    by (metis length_upt add_diff_cancel_right' list.set_map map_fst_zip)
  then show ?thesis by (simp add: plain_table_def image_Un image_image del: upt_Suc)
qed

lemmas table_defs = log_table_def metadata_table_def imported_table_def idempotency_table_def imported_legacy_def
  unscoped_keys_def scoped_keys_def

lemma foreign_key_columns: "tb_columns (info\<lparr>tb_foreign_keys := ks\<rparr>) = tb_columns info"
  by simp

lemma legacy_columns:
  "fst ` set (tb_columns idempotency_table) = {''auditor_id'', ''key'', ''body_sha256'', ''response_json'', ''seq'', ''expires_at''}"
  "fst ` set (tb_columns scoped_keys) = {''auditor_id'', ''key'', ''body_sha256'', ''response_json'', ''expires_at''}"
  "fst ` set (tb_columns unscoped_keys) = {''key'', ''body_sha256'', ''response_json'', ''expires_at''}"
  "fst ` set (tb_columns imported_table) = {''fingerprint'', ''imported_at'', ''seq''}"
  "fst ` set (tb_columns imported_legacy) = {''fingerprint'', ''imported_at''}"
  "fst ` set (tb_columns metadata_table) = {''key'', ''value''}"
  unfolding table_defs by (simp_all only: foreign_key_columns table_names append.simps list.set)

lemma require_legacy_ok:
  assumes "legacy_file now es f"
  shows "require_legacy_schema f = Inr ()"
proof -
  have known: "map_of (tables f) ''log'' = Some log_table"
    "map_of (tables f) ''imported_records'' = Some imported_table \<or> map_of (tables f) ''imported_records'' = Some imported_legacy"
    "map_of (tables f) ''idempotency'' \<in> {Some idempotency_table, Some unscoped_keys, Some scoped_keys}"
    "optional (map_of (tables f) ''metadata'') metadata_table" "get_metadata ''schema_version'' f = None"
    using assms by (auto simp: legacy_file_def legacy_keys_ok_def fits_def added_tables_def)
  have names: "t \<in> fst ` set (tables f)" if "map_of (tables f) t = Some info" for t info
    using map_of_SomeD [OF that] by force
  have "{''log'', ''idempotency'', ''imported_records''} \<subseteq> fst ` set (tables f)" using names known(1-3) by blast
  moreover have "table_columns ''log'' f = fst ` set (tb_columns log_table)" using known(1) by (simp add: table_columns_def)
  moreover have "table_columns ''imported_records'' f \<in> {{''fingerprint'', ''imported_at''}, {''fingerprint'', ''imported_at'', ''seq''}}"
    unfolding insert_iff using known(2) by (elim disjE) (simp_all only: table_columns_def option.case set_map legacy_columns simp_thms)
  moreover have "table_columns ''idempotency'' f \<in> set legacy_idempotency"
    unfolding legacy_idempotency_def list.set insert_iff using known(3) [unfolded insert_iff]
    by (elim disjE) (simp_all only: table_columns_def option.case set_map legacy_columns simp_thms empty_iff)
  moreover have "''metadata'' \<in> fst ` set (tables f) \<Longrightarrow> table_columns ''metadata'' f = {''key'', ''value''}"
    using known(4) by (auto simp: optional_def table_columns_def legacy_columns map_of_eq_None_iff)
  ultimately show ?thesis using known(5) by (simp add: require_legacy_schema_def Let_def)
qed

text \<open>The statements of the schema keep an unversioned file and add what is missing.\<close>

lemma legacy_create_table:
  assumes "legacy_file now es f" "(t, i) \<in> set added_tables \<or> map_of (tables f) t \<noteq> None"
  shows "legacy_file now es (create_table t i f)"
proof (cases "map_of (tables f) t")
  case None
  then have a: "(t, i) \<in> set added_tables" using assms(2) by simp
  then have "t \<notin> {''log'', ''imported_records'', ''idempotency''}" by (auto simp: added_tables_def)
  then have "map_of (tables (create_table t i f)) x = map_of (tables f) x" if "x \<in> {''log'', ''imported_records'', ''idempotency''}" for x
    using that by (auto simp: create_table_simps)
  moreover have "fits added_tables (create_table t i f)"
    using assms(1) by (intro fits_create [OF schema_tables(2) a]) (simp add: legacy_file_def)
  ultimately show ?thesis using assms(1) by (simp add: legacy_file_def legacy_keys_ok_def file_simps)
next
  case (Some info)
  then have "create_table t i f = f" by (simp add: create_table_def)
  then show ?thesis using assms(1) by simp
qed

lemma fits_indexes_create: "(n, columns) \<in> set expected_indexes \<Longrightarrow> fits_indexes f \<Longrightarrow> fits_indexes (create_index n columns f)"
  by (auto simp: fits_indexes_def create_index_simps optional_def expected_indexes_def)

lemma legacy_create_index:
  assumes "legacy_file now es f" "(n, columns) \<in> set expected_indexes"
    "n \<noteq> ''idx_idempotency_expiry'' \<or> map_of (tables f) ''idempotency'' = Some idempotency_table"
  shows "legacy_file now es (create_index n columns f)"
  using assms fits_indexes_create [OF assms(2), of f] unfolding legacy_file_def legacy_keys_ok_def
  by (auto simp: file_simps)

definition schema_done :: "db_file \<Rightarrow> bool" where
  "schema_done f \<longleftrightarrow> has_tables added_tables f \<and>
    map_of (indexes f) ''idx_log_identity'' = Some [''source_identity'', ''commit_hash''] \<and>
    map_of (indexes f) ''idx_log_content'' = Some [''content_sha256'']"

lemma optional_added: "optional x v \<Longrightarrow> (if x = None then Some v else x) = Some v"
  by (auto simp: optional_def)

lemma execute_schema_runs: "runs (legacy_file now es) execute_schema (legacy_file now es) (\<lambda>f. legacy_file now es f \<and> schema_done f)"
  unfolding execute_schema_def
proof (rule runs_statements)
  fix k f assume k: "k < length SCHEMA" and f: "legacy_file now es f"
  have "map_of (tables f) ''log'' \<noteq> None" "map_of (tables f) ''imported_records'' \<noteq> None" using f by (auto simp: legacy_file_def)
  then have 1: "legacy_file now es (create_table ''log'' i f)" "legacy_file now es (create_table ''imported_records'' i f)" for i
    by (auto intro: legacy_create_table [OF f])
  have 2: "legacy_file now es (create_table t i f)" if "(t, i) \<in> set added_tables" for t i
    using legacy_create_table [OF f] that by blast
  have 3: "legacy_file now es (create_index ''idx_log_identity'' [''source_identity'', ''commit_hash''] f)"
    "legacy_file now es (create_index ''idx_log_content'' [''content_sha256''] f)"
    by (rule legacy_create_index [OF f]; simp add: expected_indexes_def)+
  have "\<forall>p \<in> set SCHEMA. legacy_file now es (p f)" unfolding SCHEMA_def using 1 2 3 by (simp add: added_tables_def)
  then show "legacy_file now es ((SCHEMA ! k) f)" using nth_mem [OF k] by blast
next
  fix f assume "legacy_file now es f"
  then have "fits added_tables f" "fits_indexes f" by (simp_all add: legacy_file_def)
  then have "optional (map_of (tables f) ''metadata'') metadata_table" "optional (map_of (tables f) ''boundaries'') boundaries_table"
    "optional (map_of (tables f) ''merkle_frontier'') frontier_table" "optional (map_of (tables f) ''upstream_high_water'') high_water_table"
    "optional (map_of (indexes f) ''idx_log_identity'') [''source_identity'', ''commit_hash'']"
    "optional (map_of (indexes f) ''idx_log_content'') [''content_sha256'']"
    by (simp_all add: fits_def fits_indexes_def added_tables_def expected_indexes_def)
  note o = this [THEN optional_added]
  show "schema_done (fold (\<lambda>p. p) SCHEMA f)"
    by (simp add: SCHEMA_def schema_done_def has_tables_def added_tables_def file_simps o split del: if_split cong: if_cong)
qed

lemma creation_metadata_runs:
  assumes "timestamp utc"
  shows "runs (\<lambda>f. legacy_file now es f \<and> schema_done f) (initialize_creation_metadata utc) (legacy_file now es)
    (\<lambda>f. legacy_file now es f \<and> schema_done f \<and> created_ok f)"
  unfolding initialize_creation_metadata_def
proof (rule runs_atomic)
  fix f assume f: "legacy_file now es f \<and> schema_done f"
  define t where "t = (case get_metadata ''created_at'' f of
      Some created \<Rightarrow> created
    | None \<Rightarrow> (case db_log (contents f) of first # _ \<Rightarrow> l_created_at first | [] \<Rightarrow> utc))"
  have es: "\<forall>e \<in> set es. entry_ok e" "db_log (contents f) = rows_of es" using f by (simp_all add: legacy_file_def old_rows_ok_def)
  have "timestamp (l_created_at first)" if "rows_of es = first # rest" for first rest
  proof -
    have "rows_of es ! 0 = first" "0 < length es" using that by (simp, metis length_rows_of(1) length_greater_0_conv list.distinct(1) that)
    then have "first = row_at es 0" by (simp add: rows_of_def)
    then show ?thesis using es(1) \<open>0 < length es\<close> by (simp add: row_at_def mk_row_def entry_ok_def)
  qed
  then have "timestamp t"
    using assms f es(2) by (auto simp: t_def legacy_file_def created_ok_def split: option.splits list.splits)
  then have "created_ok (set_metadata ''created_at'' t f)" by (simp add: created_ok_def file_simps)
  moreover have "schema_done (set_metadata ''created_at'' t f)" using f by (simp add: schema_done_def file_simps)
  moreover have "legacy_file now es (set_metadata ''created_at'' t f)"
    using f \<open>created_ok (set_metadata _ t f)\<close> by (simp add: legacy_file_def legacy_keys_ok_def file_simps)
  ultimately show "\<exists>f'. Inr (set_metadata ''created_at'' (case get_metadata ''created_at'' f of
      Some created \<Rightarrow> created
    | None \<Rightarrow> (case db_log (contents f) of first # _ \<Rightarrow> l_created_at first | [] \<Rightarrow> utc)) f) = Inr f' \<and>
    legacy_file now es f' \<and> legacy_file now es f' \<and> schema_done f' \<and> created_ok f'"
    unfolding t_def [symmetric] by blast
qed

definition prepared :: "int \<Rightarrow> entry list \<Rightarrow> db_file \<Rightarrow> bool" where
  "prepared now es f \<longleftrightarrow> legacy_file now es f \<and> schema_done f \<and> created_ok f"

lemma map_of_add_seq_column:
  "map_of (tables (add_seq_column f)) t =
    (if t = ''imported_records''
     then map_option (\<lambda>info. info\<lparr>tb_columns := tb_columns info @ [(''seq'', 0)], tb_foreign_keys := tb_foreign_keys info @ [REFERENCES_LOG]\<rparr>)
            (map_of (tables f) t)
     else map_of (tables f) t)"
proof -
  have "map_of (map (\<lambda>(t, i). (t, g t i)) xs) t = map_option (g t) (map_of xs t)" for g :: "string \<Rightarrow> table_info \<Rightarrow> table_info" and xs
    by (induction xs) auto
  then show ?thesis by (simp add: add_seq_column_def option.map_ident)
qed

lemma add_seq_column_simps [file_simps]:
  "user_version (add_seq_column f) = user_version f" "indexes (add_seq_column f) = indexes f"
  "contents (add_seq_column f) = contents f" "old_keys (add_seq_column f) = old_keys f"
  "get_metadata k (add_seq_column f) = get_metadata k f"
  by (simp_all add: add_seq_column_def get_metadata_def)

lemma seq_column_added:
  "imported_legacy\<lparr>tb_columns := tb_columns imported_legacy @ [(''seq'', 0)], tb_foreign_keys := tb_foreign_keys imported_legacy @ [REFERENCES_LOG]\<rparr> =
    imported_table"
  by (simp add: imported_legacy_def imported_table_def plain_table_def)

lemma add_seq_column_prepared:
  assumes "prepared now es f" "map_of (tables f) ''imported_records'' = Some imported_legacy"
  shows "prepared now es (add_seq_column f)" "map_of (tables (add_seq_column f)) ''imported_records'' = Some imported_table"
proof -
  show i: "map_of (tables (add_seq_column f)) ''imported_records'' = Some imported_table"
    using assms(2) by (simp add: map_of_add_seq_column seq_column_added)
  have same: "map_of (tables (add_seq_column f)) t = map_of (tables f) t" if "t \<noteq> ''imported_records''" for t
    using that by (simp add: map_of_add_seq_column)
  have "has_tables added_tables f" "fits added_tables f" using assms(1) by (simp_all add: prepared_def schema_done_def legacy_file_def)
  then have "has_tables added_tables (add_seq_column f)" "fits added_tables (add_seq_column f)"
    by (simp_all add: has_tables_def fits_def added_tables_def same)
  then show "prepared now es (add_seq_column f)"
    using assms(1) i
    by (simp add: prepared_def legacy_file_def legacy_keys_ok_def schema_done_def created_ok_def fits_indexes_def file_simps same)
qed

definition imports_done :: "int \<Rightarrow> entry list \<Rightarrow> db_file \<Rightarrow> bool" where
  "imports_done now es f \<longleftrightarrow> prepared now es f \<and> map_of (tables f) ''imported_records'' = Some imported_table \<and>
    (\<forall>m \<in> set (db_imported (contents f)). imported_ok es m)"

lemma contents_imported [file_simps]:
  "old_rows_ok es (d\<lparr>db_imported := ms\<rparr>) = old_rows_ok es d"
  "get_metadata k (f\<lparr>contents := (contents f)\<lparr>db_imported := ms\<rparr>\<rparr>) = get_metadata k f"
  by (simp_all add: old_rows_ok_def caches_ok_def save_frontier_def get_metadata_def)

lemma prepared_imported:
  assumes "prepared now es f" "\<forall>m \<in> set ms. imported_ok es m"
  shows "prepared now es (f\<lparr>contents := (contents f)\<lparr>db_imported := ms\<rparr>\<rparr>)"
  using assms
  by (auto simp: prepared_def legacy_file_def legacy_keys_ok_def schema_done_def created_ok_def fits_indexes_def fits_def has_tables_def
      import_known_def file_simps)

lemma seq_column:
  assumes "prepared now es f"
  shows "''seq'' \<in> table_columns ''imported_records'' f \<longleftrightarrow> map_of (tables f) ''imported_records'' = Some imported_table"
    "''seq'' \<notin> table_columns ''imported_records'' f \<Longrightarrow> map_of (tables f) ''imported_records'' = Some imported_legacy"
proof -
  have seq: "''seq'' \<in> set (map fst (tb_columns imported_table))" "''seq'' \<notin> set (map fst (tb_columns imported_legacy))"
    unfolding set_map legacy_columns by simp_all
  then have differ: "imported_table \<noteq> imported_legacy" by auto
  have columns: "table_columns ''imported_records'' f = set (map fst (tb_columns info))"
    if "map_of (tables f) ''imported_records'' = Some info" for info using that by (simp add: table_columns_def)
  have known: "map_of (tables f) ''imported_records'' = Some imported_table \<or> map_of (tables f) ''imported_records'' = Some imported_legacy"
    using assms by (simp add: prepared_def legacy_file_def)
  then show iff: "''seq'' \<in> table_columns ''imported_records'' f \<longleftrightarrow> map_of (tables f) ''imported_records'' = Some imported_table"
  proof
    assume t: "map_of (tables f) ''imported_records'' = Some imported_legacy"
    then have "''seq'' \<notin> table_columns ''imported_records'' f" using columns seq(2) by metis
    then show ?thesis using t differ by simp
  qed (use columns seq(1) in metis)
  show "''seq'' \<notin> table_columns ''imported_records'' f \<Longrightarrow> map_of (tables f) ''imported_records'' = Some imported_legacy"
    using known iff by blast
qed

lemma add_imports_runs:
  "runs (prepared now es) add_import_sequences (prepared now es)
    (\<lambda>f. prepared now es f \<and> map_of (tables f) ''imported_records'' = Some imported_table)"
  unfolding add_import_sequences_def
proof (rule runs_cond)
  show "runs (\<lambda>f. prepared now es f \<and> ''seq'' \<in> table_columns ''imported_records'' f) no_step (prepared now es)
      (\<lambda>f. prepared now es f \<and> map_of (tables f) ''imported_records'' = Some imported_table)"
    by (rule runs_no_step) (use seq_column(1) in blast)
  show "runs (\<lambda>f. prepared now es f \<and> ''seq'' \<notin> table_columns ''imported_records'' f) (atomic (\<lambda>f. Inr (add_seq_column f)))
      (prepared now es) (\<lambda>f. prepared now es f \<and> map_of (tables f) ''imported_records'' = Some imported_table)"
  proof (rule runs_atomic)
    fix f assume f: "prepared now es f \<and> ''seq'' \<notin> table_columns ''imported_records'' f"
    then have "map_of (tables f) ''imported_records'' = Some imported_legacy" using seq_column(2) by blast
    from add_seq_column_prepared [OF _ this] f
    show "\<exists>f'. Inr (add_seq_column f) = Inr f' \<and> prepared now es f' \<and>
        prepared now es f' \<and> map_of (tables f') ''imported_records'' = Some imported_table" by blast
  qed
qed

lemma resolve_imports_runs:
  "runs (\<lambda>f. prepared now es f \<and> map_of (tables f) ''imported_records'' = Some imported_table) resolve_import_sequences
    (prepared now es) (imports_done now es)"
  unfolding resolve_import_sequences_def
proof (rule runs_cond)
  have known: "\<forall>m \<in> set (db_imported (contents f)). import_known es m" if "prepared now es f" for f
    using that by (simp add: prepared_def legacy_file_def)
  then have "imported_ok es m" if "prepared now es f" "list_all (\<lambda>m. m_seq m \<noteq> None) (db_imported (contents f))"
      "m \<in> set (db_imported (contents f))" for f m
    using bspec [OF known [OF that(1)] that(3)] that(2,3) by (auto simp: list_all_iff import_known_def)
  then show "runs (\<lambda>f. (prepared now es f \<and> map_of (tables f) ''imported_records'' = Some imported_table) \<and>
      list_all (\<lambda>m. m_seq m \<noteq> None) (db_imported (contents f))) no_step (prepared now es) (imports_done now es)"
    by (intro runs_no_step) (unfold imports_done_def, blast)
  show "runs (\<lambda>f. (prepared now es f \<and> map_of (tables f) ''imported_records'' = Some imported_table) \<and>
        \<not> list_all (\<lambda>m. m_seq m \<noteq> None) (db_imported (contents f)))
      (atomic (\<lambda>f. bindE (by_fingerprint [] (db_log (contents f))) (\<lambda>known.
        Inr (f\<lparr>contents := (contents f)\<lparr>db_imported := resolve_imports known (db_imported (contents f))\<rparr>\<rparr>))))
      (prepared now es) (imports_done now es)"
  proof (rule runs_atomic)
    fix f assume f: "(prepared now es f \<and> map_of (tables f) ''imported_records'' = Some imported_table) \<and>
        \<not> list_all (\<lambda>m. m_seq m \<noteq> None) (db_imported (contents f))"
    then have es: "\<forall>e \<in> set es. entry_ok e" "db_log (contents f) = rows_of es"
      by (simp_all add: prepared_def legacy_file_def old_rows_ok_def)
    obtain ks where ks: "by_fingerprint [] (rows_of es) = Inr ks"
      "\<forall>m \<in> set (resolve_imports ks (db_imported (contents f))). imported_ok es m"
      using resolve_imports_ok [OF es(1) known] f by blast
    then show "\<exists>f'. bindE (by_fingerprint [] (db_log (contents f))) (\<lambda>known.
          Inr (f\<lparr>contents := (contents f)\<lparr>db_imported := resolve_imports known (db_imported (contents f))\<rparr>\<rparr>)) = Inr f' \<and>
        prepared now es f' \<and> imports_done now es f'"
      using prepared_imported [of now es f] f es(2) by (simp add: imports_done_def)
  qed
qed

lemma migrate_imported_runs:
  "runs (prepared now es) migrate_imported_records (prepared now es) (imports_done now es)"
  unfolding migrate_imported_records_def
  by (intro runs_script_Cons [OF add_imports_runs] runs_script_Cons [OF resolve_imports_runs] runs_script_Nil)

text \<open>The idempotency table: an index on the current one, or the rows of an old one converted.\<close>

lemma convert_key_ok:
  assumes "converts es k r" "length es < 2 ^ 63" "db_log d = rows_of es"
    "(i_auditor_id r, i_key r) \<notin> (\<lambda>r. (i_auditor_id r, i_key r)) ` set inserted"
  shows "convert_key k d inserted = Inr (inserted @ [r])"
proof -
  have n: "1 \<le> i_seq r" "i_seq r \<le> int (length es)" and k: "y_response_json k = json_dumps False (JObj (response_of es (i_seq r)))"
    using assms(1) by (simp_all add: converts_def idempotency_ok_def)
  have "json_loads (y_response_json k) = Inr (JObj (response_of es (i_seq r)))" unfolding k by (rule response_loads [OF n assms(2)])
  moreover have "get_int (response_of es (i_seq r)) (lit ''seq'') = Some (i_seq r)" by (simp add: response_of_def get_int_def)
  moreover have "bind_ints [i_seq r] = Inr ()" using n assms(2) by (simp add: bind_ints_def)
  moreover have "log_row_at d (i_seq r) \<noteq> None" using n by (simp add: log_row_at_def assms(3) find_row)
  ultimately show ?thesis using assms(1,4) by (simp add: convert_key_def converts_def get_int_def)
qed

lemma convert_keys_ok:
  assumes "length es < 2 ^ 63" "db_log d = rows_of es" "\<forall>k \<in> set ks. \<exists>r. converts es k r"
    "distinct (map (\<lambda>k. (y_auditor_id k, y_key k)) ks)"
    "\<forall>k \<in> set ks. \<forall>r \<in> set inserted. (y_auditor_id k, y_key k) \<noteq> (Some (i_auditor_id r), i_key r)"
    "\<forall>r \<in> set inserted. idempotency_ok es r" "distinct (map (\<lambda>r. (i_auditor_id r, i_key r)) inserted)"
  shows "\<exists>rs. convert_keys ks d inserted = Inr rs \<and> (\<forall>r \<in> set rs. idempotency_ok es r) \<and>
    distinct (map (\<lambda>r. (i_auditor_id r, i_key r)) rs)"
  using assms(3-)
proof (induction ks arbitrary: inserted)
  case (Cons k ks)
  obtain r where r: "converts es k r" using Cons.prems(1) by auto
  then have kr: "y_auditor_id k = Some (i_auditor_id r)" "y_key k = i_key r" "idempotency_ok es r" by (simp_all add: converts_def)
  have new: "(i_auditor_id r, i_key r) \<notin> (\<lambda>r. (i_auditor_id r, i_key r)) ` set inserted" using Cons.prems(3) kr by auto
  have "\<exists>rs. convert_keys ks d (inserted @ [r]) = Inr rs \<and> (\<forall>r \<in> set rs. idempotency_ok es r) \<and>
      distinct (map (\<lambda>r. (i_auditor_id r, i_key r)) rs)"
    by (rule Cons.IH) (use Cons.prems kr new in \<open>auto simp: image_iff\<close>)
  then show ?case using convert_key_ok [OF r assms(1,2) new] by simp
qed simp

definition upgraded_tables :: "int \<Rightarrow> entry list \<Rightarrow> db_file \<Rightarrow> bool" where
  "upgraded_tables now es f \<longleftrightarrow> imports_done now es f \<and> map_of (tables f) ''idempotency'' = Some idempotency_table \<and>
    map_of (indexes f) ''idx_idempotency_expiry'' = Some [''expires_at'']"

lemma rebuild_ok:
  assumes f: "imports_done now es f" and k: "legacy_keys_ok now es f"
  obtains f' where "rebuild_idempotency now f = Inr f'" "upgraded_tables now es f'"
proof -
  let ?legacy = "filter (\<lambda>k. y_expires_at k > now) (old_keys f)"
  have l: "legacy_file now es f" and d: "schema_done f" "created_ok f" using f by (simp_all add: imports_done_def prepared_def)
  then have es: "length es < 2 ^ 63" "db_log (contents f) = rows_of es" and rows: "old_rows_ok es (contents f)"
    by (simp_all add: legacy_file_def old_rows_ok_def)
  have scoped: "?legacy = [] \<or> map_of (tables f) ''idempotency'' = Some scoped_keys \<and>
      distinct (map (\<lambda>k. (y_auditor_id k, y_key k)) ?legacy) \<and> (\<forall>k \<in> set ?legacy. \<exists>r. converts es k r)"
    using k by (auto simp: legacy_keys_ok_def distinct_map_filter filter_empty_conv)
  then have guard: "\<not> (?legacy \<noteq> [] \<and> ''auditor_id'' \<notin> table_columns ''idempotency'' f)"
    by (auto simp: table_columns_def legacy_columns)
  have none: "map_of (indexes f) ''idx_idempotency_expiry'' = None" using k by (simp add: legacy_keys_ok_def)
  obtain rs where rs: "convert_keys ?legacy (contents f) [] = Inr rs" "\<forall>r \<in> set rs. idempotency_ok es r"
    "distinct (map (\<lambda>r. (i_auditor_id r, i_key r)) rs)"
  proof (cases "?legacy = []")
    case False
    then have "\<exists>rs. convert_keys ?legacy (contents f) [] = Inr rs \<and> (\<forall>r \<in> set rs. idempotency_ok es r) \<and>
        distinct (map (\<lambda>r. (i_auditor_id r, i_key r)) rs)"
      using scoped by (intro convert_keys_ok [OF es]) auto
    then show thesis using that by blast
  qed (use that [of "[]"] in simp)
  define f' where "f' = f\<lparr>tables := AList.update ''idempotency'' idempotency_table (tables f),
      indexes := indexes f @ [(''idx_idempotency_expiry'', [''expires_at''])],
      contents := (contents f)\<lparr>db_idempotency := rs\<rparr>, old_keys := []\<rparr>"
  have sel: "user_version f' = user_version f" "contents f' = (contents f)\<lparr>db_idempotency := rs\<rparr>"
    "get_metadata x f' = get_metadata x f" for x
    by (simp_all add: f'_def get_metadata_def)
  have tab: "map_of (tables f') t = (if t = ''idempotency'' then Some idempotency_table else map_of (tables f) t)" for t
    by (simp add: f'_def update_conv')
  have ind: "map_of (indexes f') x = (if x = ''idx_idempotency_expiry'' then Some [''expires_at''] else map_of (indexes f) x)" for x
    by (auto simp: f'_def map_add_def none split: option.split)
  have added: "fits added_tables f" "has_tables added_tables f" using l d by (simp_all add: legacy_file_def schema_done_def)
  have "has_tables added_tables f'" "fits added_tables f'"
    using added by (simp_all add: has_tables_def fits_def added_tables_def tab)
  moreover have "fits_indexes f'" using l by (simp add: legacy_file_def fits_indexes_def expected_indexes_def ind optional_def)
  moreover have "old_rows_ok es (contents f')"
    using rows rs(2,3) by (simp add: sel old_rows_ok_def caches_ok_def save_frontier_def)
  ultimately have "upgraded_tables now es f'"
    using f by (simp add: upgraded_tables_def imports_done_def prepared_def legacy_file_def schema_done_def created_ok_def sel tab ind)
  moreover have "rebuild_idempotency now f = Inr f'"
    using guard none rs(1) by (simp add: rebuild_idempotency_def Let_def f'_def)
  ultimately show thesis using that by blast
qed

lemma migrate_idempotency_runs: "runs (imports_done now es) (migrate_idempotency now) (legacy_file now es) (upgraded_tables now es)"
  unfolding runs_def
proof (intro allI impI)
  fix f assume f: "imports_done now es f"
  then have l: "legacy_file now es f" by (simp add: imports_done_def prepared_def)
  then consider "map_of (tables f) ''idempotency'' = Some idempotency_table" | "legacy_keys_ok now es f"
    by (auto simp: legacy_file_def)
  then show "snd (migrate_idempotency now f) = Inr () \<and> (\<forall>g \<in> set (fst (migrate_idempotency now f)). legacy_file now es g) \<and>
      upgraded_tables now es (last (f # fst (migrate_idempotency now f)))"
  proof cases
    case 1
    let ?f = "create_index ''idx_idempotency_expiry'' [''expires_at''] f"
    have "table_columns ''idempotency'' f = set (map fst (tb_columns idempotency_table))" using 1 by (simp add: table_columns_def)
    then have "{''auditor_id'', ''seq''} \<subseteq> table_columns ''idempotency'' f" unfolding set_map legacy_columns by simp
    then have run: "migrate_idempotency now f = ([?f], Inr ())" using 1 by (simp add: migrate_idempotency_def atomic_def)
    have e: "(''idx_idempotency_expiry'', [''expires_at'']) \<in> set expected_indexes" by (simp add: expected_indexes_def)
    then have "optional (map_of (indexes f) ''idx_idempotency_expiry'') [''expires_at'']" using l by (auto simp: legacy_file_def fits_indexes_def)
    note index = optional_added [OF this]
    have lf: "legacy_file now es ?f" using legacy_create_index [OF l e] 1 by simp
    then have "upgraded_tables now es ?f"
      using f 1 index by (simp add: upgraded_tables_def imports_done_def prepared_def schema_done_def file_simps)
    then show ?thesis using run lf by simp
  next
    case 2
    then have t: "map_of (tables f) ''idempotency'' \<in> {Some unscoped_keys, Some scoped_keys}" by (auto simp: legacy_keys_ok_def)
    then have "''seq'' \<notin> table_columns ''idempotency'' f"
      unfolding insert_iff by (elim disjE) (simp_all add: table_columns_def legacy_columns)
    then have run: "migrate_idempotency now f = atomic (rebuild_idempotency now) f" using t by (auto simp: migrate_idempotency_def)
    obtain f' where "rebuild_idempotency now f = Inr f'" "upgraded_tables now es f'" using rebuild_ok [OF f 2] by blast
    then show ?thesis by (simp add: run atomic_def upgraded_tables_def imports_done_def prepared_def)
  qed
qed

lemma marked_v4:
  assumes "upgraded_tables now es f"
  shows "file_v4 es ((set_metadata ''schema_version'' (lit ''4'') f)\<lparr>user_version := 4\<rparr>)"
proof -
  have "has_tables added_tables f" "map_of (tables f) ''log'' = Some log_table" "map_of (tables f) ''imported_records'' = Some imported_table"
    "map_of (tables f) ''idempotency'' = Some idempotency_table" "schema_done f" "map_of (indexes f) ''idx_idempotency_expiry'' = Some [''expires_at'']"
    using assms by (simp_all add: upgraded_tables_def imports_done_def prepared_def legacy_file_def schema_done_def)
  then have t: "has_tables v4_tables f" and "has_indexes expected_indexes f"
    by (simp_all add: has_tables_def has_indexes_def added_tables_def v4_tables_def v3_tables_def v2_tables_def expected_indexes_def schema_done_def)
  moreover have "fits v4_tables f" using t by (auto simp: fits_def has_tables_def optional_def)
  ultimately show ?thesis
    using assms by (simp add: versioned_file_def upgraded_tables_def imports_done_def prepared_def legacy_file_def file_simps)
qed

lemma v4_rows:
  assumes "file_v4 es f"
  shows "old_rows_ok es (contents f)" "\<forall>m \<in> set (db_imported (contents f)). imported_ok es m" "metadata_ok (db_metadata (contents f))"
  using assms by (simp_all add: versioned_file_def metadata_ok_def created_ok_def get_metadata_def)

lemma mark_runs: "runs (upgraded_tables now es) (mark_current_schema [''ok'']) (file_v4 es) (file_v4 es)"
  unfolding mark_current_schema_def
proof (rule runs_atomic)
  fix f assume f: "upgraded_tables now es f"
  let ?f = "(set_metadata ''schema_version'' (lit ''4'') f)\<lparr>user_version := 4\<rparr>"
  have v: "file_v4 es ?f" by (rule marked_v4 [OF f])
  obtain walked where "integrity_errors_on [''ok''] (contents ?f) = Inr ([], walked)" using old_rows_open(1) [OF v4_rows [OF v]] by blast
  then show "\<exists>f'. (let f' = (set_metadata ''schema_version'' (lit ''4'') f)\<lparr>user_version := 4\<rparr> in
      bindE (integrity_errors_on [''ok''] (contents f')) (\<lambda>(errors, _).
        if errors \<noteq> [] then Inl (StoreIntegrityError ''integrity errors'') else Inr f')) = Inr f' \<and> file_v4 es f' \<and> file_v4 es f'"
    using v by (simp add: Let_def)
qed

lemma initialize_runs:
  assumes "timestamp utc"
  shows "runs (legacy_file now es) (initialize_file [''ok''] now utc) (supported now es) (file_v4 es)"
proof -
  have 1: "runs (legacy_file now es) execute_schema (supported now es) (\<lambda>f. legacy_file now es f \<and> schema_done f)"
    by (rule runs_weaken [OF execute_schema_runs]) (simp_all add: supported_def)
  have 2: "runs (\<lambda>f. legacy_file now es f \<and> schema_done f) (initialize_creation_metadata utc) (supported now es) (prepared now es)"
    by (rule runs_weaken [OF creation_metadata_runs [OF assms]]) (simp_all add: supported_def prepared_def)
  have 3: "runs (prepared now es) migrate_imported_records (supported now es) (imports_done now es)"
    by (rule runs_weaken [OF migrate_imported_runs]) (simp_all add: supported_def prepared_def)
  have 4: "runs (imports_done now es) (migrate_idempotency now) (supported now es) (upgraded_tables now es)"
    by (rule runs_weaken [OF migrate_idempotency_runs]) (simp_all add: supported_def)
  have 5: "runs (upgraded_tables now es) (mark_current_schema [''ok'']) (supported now es) (file_v4 es)"
    by (rule runs_weaken [OF mark_runs]) (simp_all add: supported_def)
  show ?thesis
    unfolding initialize_file_def
    by (intro runs_script_Cons [OF 1] runs_script_Cons [OF 2] runs_script_Cons [OF 3] runs_script_Cons [OF 4] runs_script_Cons [OF 5]
        runs_script_Nil)
qed

lemma upgrade_supported:
  assumes "supported now es f" "timestamp utc"
  obtains states where "upgrade [''ok''] now utc f = (states, Inr ())" "\<forall>g \<in> set states. supported now es g" "file_v4 es (last (f # states))"
proof (cases "legacy_file now es f")
  case True
  then have "user_version f = 0" by (simp add: legacy_file_def)
  moreover have "runs (legacy_file now es) (check require_legacy_schema) (supported now es) (legacy_file now es)"
    using require_legacy_ok by (auto intro: runs_check)
  from runsD [OF runs_before [OF this initialize_runs [OF assms(2)]] True] obtain states where
    "before (check require_legacy_schema) (initialize_file [''ok''] now utc) f = (states, Inr ())"
    "\<forall>g \<in> set states. supported now es g" "file_v4 es (last (f # states))" by blast
  ultimately show thesis using that by (simp add: upgrade_def)
next
  case False
  then show thesis using upgrade_versioned [of es f now utc now] assms(1) that by (auto simp: supported_def)
qed

lemma rebuilt_v4:
  assumes "file_v4 es f"
  shows "file_v4 es (f\<lparr>contents := rebuilt es (contents f)\<rparr>)"
  using assms
  by (simp add: versioned_file_def old_rows_ok_def caches_ok_def rebuilt_def save_frontier_def has_tables_def fits_def has_indexes_def
      get_metadata_def created_ok_def)

lemma construct_supported:
  assumes "supported now es f" "timestamp utc" "0 < interval"
  obtains states s where "construct [''ok''] interval monotonic now utc (Some f) = (states, Inr s)"
    "store_ok s es" "\<forall>g \<in> set states. supported now es g"
proof -
  obtain states where u: "upgrade [''ok''] now utc f = (states, Inr ())" "\<forall>g \<in> set states. supported now es g"
    "file_v4 es (last (f # states))" by (rule upgrade_supported [OF assms(1,2)])
  let ?f = "last (f # states)"
  obtain s where s: "open_verified [''ok''] interval monotonic utc (contents ?f) = Inr s" "st_db s = rebuilt es (contents ?f)" "store_ok s es"
    using old_rows_open(2) [OF v4_rows [OF u(3)] assms(3)] by blast
  have "construct [''ok''] interval monotonic now utc (Some f) = (states @ [?f\<lparr>contents := st_db s\<rparr>], Inr s)"
    using assms(3) u(1) s(1) by (simp add: construct_def)
  moreover have "supported now es (?f\<lparr>contents := st_db s\<rparr>)" using rebuilt_v4 [OF u(3)] s(2) by (simp add: supported_def)
  ultimately show thesis using that s(3) u(2) by auto
qed


text \<open>A file of the current schema is only verified: the constructor is \<open>open_verified\<close> there.\<close>

lemma construct_current:
  assumes "user_version f = 4" "require_current_schema f = Inr ()"
  shows "snd (construct pragma interval monotonic now utc (Some f)) =
    (case open_verified pragma interval monotonic utc (contents f) of Inl e \<Rightarrow> Inl (startup_error e) | Inr s \<Rightarrow> Inr s)"
proof (cases "interval \<le> 0")
  case True
  then show ?thesis by (simp add: construct_def open_verified_def startup_error_def)
next
  case False
  have u: "upgrade pragma now utc f = ([], Inr ())" using assms by (simp add: upgrade_def check_def)
  show ?thesis using False by (simp add: construct_def u split: sum.split)
qed


section \<open>Creation\<close>

text \<open>A crash before the idempotency table exists leaves a file that the next start refuses.\<close>

lemma idempotency_missing:
  assumes "user_version g = 0" "map_of (tables g) ''idempotency'' = None" "0 < interval"
  shows "construct pragma interval monotonic now utc (Some g) =
    ([], Inl (StoreIntegrityError ''legacy database schema is incomplete''))"
proof -
  have "''idempotency'' \<notin> fst ` set (tables g)" using assms(2) by (simp add: map_of_eq_None_iff)
  then have "require_legacy_schema g = Inl (StoreIntegrityError ''legacy database schema is incomplete'')"
    by (simp add: require_legacy_schema_def Let_def)
  then show ?thesis using assms(1,3) by (simp add: construct_def upgrade_def before_def check_def startup_error_def)
qed

definition bare_file :: "db \<Rightarrow> db_file" where
  "bare_file d =
    \<lparr>user_version = 0,
     tables = [(''log'', log_table), (''metadata'', metadata_table), (''imported_records'', imported_table),
       (''boundaries'', boundaries_table), (''merkle_frontier'', frontier_table), (''upstream_high_water'', high_water_table)],
     indexes = [(''idx_log_identity'', [''source_identity'', ''commit_hash'']), (''idx_log_content'', [''content_sha256''])],
     contents = d, old_keys = []\<rparr>"

lemma execute_schema_empty:
  obtains states where "execute_schema empty_file = (states, Inr ())" "length states = 8"
    "last (empty_file # states) = bare_file (contents empty_file)"
    "\<forall>g \<in> set states. user_version g = 0 \<and> map_of (tables g) ''idempotency'' = None"
  by (simp add: execute_schema_def run_script_def SCHEMA_def before_def atomic_def no_step_def create_table_def create_index_def
      empty_file_def bare_file_def)

definition created_db :: "str \<Rightarrow> db" where
  "created_db utc = (contents empty_file)\<lparr>db_metadata := [(lit ''created_at'', utc)]\<rparr>"

definition created_file :: "str \<Rightarrow> db_file" where
  "created_file utc = create_table ''idempotency'' idempotency_table (bare_file (created_db utc))"

lemma created_file_legacy: "timestamp utc \<Longrightarrow> legacy_file now [] (created_file utc)"
  by (simp add: legacy_file_def created_file_def bare_file_def created_db_def empty_file_def create_table_def old_rows_ok_def caches_ok_def
      fits_def fits_indexes_def added_tables_def expected_indexes_def optional_def get_metadata_def created_ok_def)

lemma created_file_upgraded: "timestamp utc \<Longrightarrow> upgraded_tables now [] (create_index ''idx_idempotency_expiry'' [''expires_at''] (created_file utc))"
  using legacy_create_index [OF created_file_legacy, of utc "''idx_idempotency_expiry''" "[''expires_at'']" now]
  by (simp add: upgraded_tables_def imports_done_def prepared_def schema_done_def created_file_def bare_file_def created_db_def empty_file_def
      create_table_def create_index_def has_tables_def added_tables_def expected_indexes_def created_ok_def get_metadata_def)

lemma initialize_empty:
  assumes "timestamp utc"
  obtains before_keys f where
    "initialize_file [''ok''] now utc empty_file =
      (before_keys @ [created_file utc, create_index ''idx_idempotency_expiry'' [''expires_at''] (created_file utc), f], Inr ())"
    "length before_keys = 9" "\<forall>g \<in> set before_keys. user_version g = 0 \<and> map_of (tables g) ''idempotency'' = None"
    "file_v4 [] f" "contents f = new_db utc"
proof -
  obtain states where s: "execute_schema empty_file = (states, Inr ())" "length states = 8"
    "last (empty_file # states) = bare_file (contents empty_file)"
    "\<forall>g \<in> set states. user_version g = 0 \<and> map_of (tables g) ''idempotency'' = None" by (rule execute_schema_empty)
  let ?b = "bare_file (created_db utc)" and ?i = "create_index ''idx_idempotency_expiry'' [''expires_at''] (created_file utc)"
  have 2: "initialize_creation_metadata utc (bare_file (contents empty_file)) = ([?b], Inr ())"
    by (simp add: initialize_creation_metadata_def atomic_def set_metadata_def get_metadata_def bare_file_def created_db_def empty_file_def)
  have 3: "migrate_imported_records ?b = ([], Inr ())"
    by (simp add: migrate_imported_records_def run_script_def before_def no_step_def add_import_sequences_def resolve_import_sequences_def
        bare_file_def created_db_def empty_file_def table_columns_def imported_table_def plain_table_def)
  have 4: "migrate_idempotency now ?b = ([created_file utc, ?i], Inr ())"
    by (simp add: migrate_idempotency_def run_script_def before_def no_step_def atomic_def created_file_def bare_file_def)
  let ?f = "(set_metadata ''schema_version'' (lit ''4'') ?i)\<lparr>user_version := 4\<rparr>"
  have v: "file_v4 [] ?f" by (rule marked_v4 [OF created_file_upgraded [OF assms]])
  obtain walked where "integrity_errors_on [''ok''] (contents ?f) = Inr ([], walked)" using old_rows_open(1) [OF v4_rows [OF v]] by blast
  then have 5: "mark_current_schema [''ok''] ?i = ([?f], Inr ())" by (simp add: mark_current_schema_def atomic_def Let_def)
  have "initialize_file [''ok''] now utc empty_file = ((states @ [?b]) @ [created_file utc, ?i, ?f], Inr ())"
    using s(1,3) 2 3 4 5 by (simp add: initialize_file_def run_script_def before_def no_step_def)
  moreover have "contents ?f = new_db utc"
    by (simp add: set_metadata_def create_index_def created_file_def create_table_def bare_file_def created_db_def empty_file_def new_db_def
        save_frontier_def)
  ultimately show thesis using that v s(2,4) by (auto simp: bare_file_def)
qed

lemma construct_new:
  assumes "timestamp utc" "0 < interval"
  obtains states s where "construct [''ok''] interval monotonic now utc None = (states, Inr s)" "st_db s = new_db utc" "store_ok s []"
    "length states = 13" "\<forall>k < 9. user_version (states ! k) = 0 \<and> map_of (tables (states ! k)) ''idempotency'' = None"
    "\<forall>k < 13. 9 \<le> k \<longrightarrow> supported now [] (states ! k)"
proof -
  let ?i = "create_index ''idx_idempotency_expiry'' [''expires_at''] (created_file utc)"
  obtain b f where b: "initialize_file [''ok''] now utc empty_file = (b @ [created_file utc, ?i, f], Inr ())" "length b = 9"
    "\<forall>g \<in> set b. user_version g = 0 \<and> map_of (tables g) ''idempotency'' = None" "file_v4 [] f" "contents f = new_db utc"
    by (rule initialize_empty [OF assms(1)])
  have "db_ok (new_db utc) []" by (rule new_db_ok [OF assms(1)])
  from open_verified_ok [OF this assms(2), of monotonic utc] obtain s where
    s: "open_verified [''ok''] interval monotonic utc (new_db utc) = Inr s" "st_db s = new_db utc" "store_ok s []" by blast
  have c: "construct [''ok''] interval monotonic now utc None = (b @ [created_file utc, ?i, f, f], Inr s)"
    using assms(2) b(1,5) s(1,2) by (simp add: construct_def)
  have k1: "legacy_file now [] (created_file utc)" by (rule created_file_legacy [OF assms(1)])
  have k2: "legacy_file now [] ?i"
    using created_file_upgraded [OF assms(1)] by (simp add: upgraded_tables_def imports_done_def prepared_def)
  have "supported now [] g" if "g \<in> {created_file utc, ?i, f}" for g
    using that k1 k2 b(4) by (auto simp: supported_def)
  moreover have "(b @ [created_file utc, ?i, f, f]) ! k \<in> {created_file utc, ?i, f}" if "9 \<le> k" "k < 13" for k
  proof -
    have "[created_file utc, ?i, f, f] ! (k - 9) \<in> set [created_file utc, ?i, f, f]" using that by (intro nth_mem) simp
    then show ?thesis using that b(2) by (simp add: nth_append)
  qed
  moreover have "\<forall>k < 9. user_version ((b @ [created_file utc, ?i, f, f]) ! k) = 0 \<and>
      map_of (tables ((b @ [created_file utc, ?i, f, f]) ! k)) ''idempotency'' = None"
    using b(2,3) by (auto simp: nth_append)
  ultimately show thesis using that [OF c s(2,3)] b(2) by simp
qed

end
