(* ===== verification/Verifier.thy ===== *)
theory Verifier
  imports StoreHealth
begin

text \<open>
  The life of the background verifier threads (\<open>start_health_verifier\<close>,
  \<open>stop_health_verifier\<close>, \<open>health_verifier_running\<close>, \<open>_health_verifier_loop\<close>): callers start and
  stop the verifier at any moment while writers commit, every thread ever created takes its own steps,
  and a caller of stop waits for a bounded time only. \<open>verifier_step\<close> is the step relation of
  the whole; its steps are the sections the code runs under \<open>_verifier_lock\<close> and the moves of a
  thread. The lemmas show that at most one thread is ever alive, which is what makes the
  one-pass relation \<open>pass_step\<close> a sound abstraction, and that a stopped thread ends.
\<close>


section \<open>Threads\<close>

text \<open>
  Where a thread stands: created but refused by the system, about to call \<open>wait\<close>, waiting, at
  the two points of \<open>refresh_health_verdict\<close> before its snapshot, with the errors of its walk in
  hand, and finished.
\<close>

datatype phase = Unstarted | Looping | Waiting | Calling | Walking | Walked "issue list" | Finished

fun is_alive :: "phase \<Rightarrow> bool" where
  "is_alive Unstarted = False"
| "is_alive Finished = False"
| "is_alive _ = True"

text \<open>Threads are numbered in the order of their creation; \<open>v_joins\<close> are the threads callers of stop wait for.\<close>

record verifier =
  verifier_thread :: "nat option"
  verifier_stop :: bool
  verifier_threads :: "phase list"
  verifier_joins :: "nat list"

definition new_verifier :: verifier where
  "new_verifier = \<lparr>verifier_thread = None, verifier_stop = False, verifier_threads = [], verifier_joins = []\<rparr>"

text \<open>\<open>created\<close>: whether the system grants the thread; \<open>Thread.start\<close> raises \<open>RuntimeError\<close> otherwise.\<close>

definition fresh_thread :: "bool \<Rightarrow> verifier \<Rightarrow> unit res \<times> verifier" where
  "fresh_thread created v =
    (if created then Inr () else Inl (RuntimeError ''can't start new thread''),
     v\<lparr>verifier_stop := False, verifier_thread := Some (length (verifier_threads v)),
       verifier_threads := verifier_threads v @ [if created then Looping else Unstarted]\<rparr>)"

definition start_health_verifier :: "bool \<Rightarrow> verifier \<Rightarrow> unit res \<times> verifier" where
  "start_health_verifier created v =
    (case verifier_thread v of
       Some t \<Rightarrow> if is_alive (verifier_threads v ! t) then (Inr (), v) else fresh_thread created v
     | None \<Rightarrow> fresh_thread created v)"

text \<open>
  \<open>stop_health_verifier\<close> up to the \<open>join\<close>, which refuses a thread that never started, and after
  it, whether the thread ended or the wait timed out.
\<close>

definition stop_request :: "verifier \<Rightarrow> unit res \<times> verifier" where
  "stop_request v =
    (case verifier_thread v of
       None \<Rightarrow> (Inr (), v)
     | Some t \<Rightarrow>
        (if verifier_threads v ! t = Unstarted
         then (Inl (RuntimeError ''cannot join thread before it is started''), v\<lparr>verifier_stop := True\<rparr>)
         else (Inr (), v\<lparr>verifier_stop := True, verifier_joins := t # verifier_joins v\<rparr>)))"

definition stop_return :: "nat \<Rightarrow> verifier \<Rightarrow> verifier" where
  "stop_return t v =
    (let v' = v\<lparr>verifier_joins := remove1 t (verifier_joins v)\<rparr>
     in if \<not> is_alive (verifier_threads v ! t) \<and> verifier_thread v = Some t then v'\<lparr>verifier_thread := None\<rparr> else v')"

definition health_verifier_running :: "verifier \<Rightarrow> bool" where
  "health_verifier_running v =
    (case verifier_thread v of
       None \<Rightarrow> False
     | Some t \<Rightarrow> is_alive (verifier_threads v ! t) \<and> \<not> verifier_stop v)"


section \<open>Steps\<close>

text \<open>
  \<open>_health_verifier_loop\<close> and the pass it runs, one move at a time. \<open>Event.wait\<close> reads the flag
  first; a wait that timed out goes on to a pass even when the flag was set in that moment.
\<close>

inductive loop_move :: "string list \<Rightarrow> bool \<Rightarrow> store \<Rightarrow> phase \<Rightarrow> store \<Rightarrow> phase \<Rightarrow> bool"
  for pragma :: "string list" and stop :: bool and s :: store where
  wait_set: "stop \<Longrightarrow> loop_move pragma stop s Looping s Finished"
| wait_begins: "\<not> stop \<Longrightarrow> loop_move pragma stop s Looping s Waiting"
| wait_woken: "stop \<Longrightarrow> loop_move pragma stop s Waiting s Finished"
| wait_timeout: "loop_move pragma stop s Waiting s Calling"
| already_latched: "integrity_failed s \<Longrightarrow> loop_move pragma stop s Calling s Looping"
| not_latched: "\<not> integrity_failed s \<Longrightarrow> loop_move pragma stop s Calling s Walking"
| walk: "loop_move pragma stop s Walking s (Walked (walk_pass pragma (st_db s)))"
| publish: "loop_move pragma stop s (Walked errors) (snd (publish_pass now utc errors s)) Looping"

inductive_simps loop_move_simps [simp]:
  "loop_move pragma stop s Looping s' p"
  "loop_move pragma stop s Waiting s' p"
  "loop_move pragma stop s Calling s' p"
  "loop_move pragma stop s Walking s' p"
  "loop_move pragma stop s (Walked errors) s' p"
  "loop_move pragma stop s Unstarted s' p"
  "loop_move pragma stop s Finished s' p"

text \<open>A step carries the thread that moved, or none for a writer or a caller.\<close>

inductive verifier_step ::
  "string list \<Rightarrow> nat option \<Rightarrow> verifier \<times> store \<Rightarrow> verifier \<times> store \<Rightarrow> bool" for pragma :: "string list" where
  writes: "operation_ok i \<Longrightarrow> length (db_log (st_db s)) + operation_weight i < 2 ^ 63 \<Longrightarrow>
    verifier_step pragma None (v, s) (v, run_operation i s)"
| starts: "verifier_step pragma None (v, s) (snd (start_health_verifier created v), s)"
| stops: "verifier_step pragma None (v, s) (snd (stop_request v), s)"
| stopped: "t \<in> set (verifier_joins v) \<Longrightarrow> verifier_step pragma None (v, s) (stop_return t v, s)"
| moves: "t < length (verifier_threads v) \<Longrightarrow>
    loop_move pragma (verifier_stop v) s (verifier_threads v ! t) s' p \<Longrightarrow>
    verifier_step pragma (Some t) (v, s) (v\<lparr>verifier_threads := (verifier_threads v)[t := p]\<rparr>, s')"

text \<open>Runs with the list of those that moved.\<close>

inductive verifier_run ::
  "string list \<Rightarrow> nat option list \<Rightarrow> verifier \<times> store \<Rightarrow> verifier \<times> store \<Rightarrow> bool" for pragma :: "string list" where
  run_nil: "verifier_run pragma [] x x"
| run_step: "verifier_run pragma ms x y \<Longrightarrow> verifier_step pragma m y z \<Longrightarrow> verifier_run pragma (ms @ [m]) x z"


section \<open>At most one thread is alive\<close>

text \<open>
  The registered thread and the awaited ones exist, and every live thread is the registered
  one: a thread is created only when the registered one is not alive, and forgotten only then.
\<close>

definition verifier_ok :: "verifier \<Rightarrow> bool" where
  "verifier_ok v \<longleftrightarrow>
    (\<forall>t. verifier_thread v = Some t \<longrightarrow> t < length (verifier_threads v)) \<and>
    (\<forall>t \<in> set (verifier_joins v). t < length (verifier_threads v)) \<and>
    (\<forall>t < length (verifier_threads v). is_alive (verifier_threads v ! t) \<longrightarrow> verifier_thread v = Some t)"

lemma verifier_ok_new [simp]: "verifier_ok new_verifier"
  by (simp add: verifier_ok_def new_verifier_def)

lemma moved_was_alive: "loop_move pragma stop s p s' p' \<Longrightarrow> is_alive p"
  by (induction rule: loop_move.induct) auto

lemma verifier_okI:
  assumes "\<And>t. verifier_thread v = Some t \<Longrightarrow> t < length (verifier_threads v)"
    and "\<And>t. t \<in> set (verifier_joins v) \<Longrightarrow> t < length (verifier_threads v)"
    and "\<And>t. t < length (verifier_threads v) \<Longrightarrow> is_alive (verifier_threads v ! t) \<Longrightarrow> verifier_thread v = Some t"
  shows "verifier_ok v"
  unfolding verifier_ok_def using assms by blast

lemma verifier_okD:
  assumes "verifier_ok v"
  shows registered_exists: "verifier_thread v = Some t \<Longrightarrow> t < length (verifier_threads v)"
    and awaited_exists: "t \<in> set (verifier_joins v) \<Longrightarrow> t < length (verifier_threads v)"
    and alive_registered: "t < length (verifier_threads v) \<Longrightarrow> is_alive (verifier_threads v ! t) \<Longrightarrow> verifier_thread v = Some t"
  using assms unfolding verifier_ok_def by blast+

lemma verifier_ok_fresh:
  assumes ok: "verifier_ok v" and dead: "\<And>t. verifier_thread v = Some t \<Longrightarrow> \<not> is_alive (verifier_threads v ! t)"
  shows "verifier_ok (snd (fresh_thread created v))"
proof (rule verifier_okI, goal_cases)
  case (2 t)
  then show ?case using awaited_exists [OF ok, of t] by (simp add: fresh_thread_def)
next
  case (3 t)
  show ?case
  proof (cases "t = length (verifier_threads v)")
    case False
    then have "t < length (verifier_threads v)" "is_alive (verifier_threads v ! t)"
      using 3 by (simp_all add: fresh_thread_def nth_append)
    then show ?thesis using alive_registered [OF ok] dead by blast
  qed (simp add: fresh_thread_def)
qed (simp add: fresh_thread_def)

lemma verifier_ok_start: "verifier_ok v \<Longrightarrow> verifier_ok (snd (start_health_verifier created v))"
  by (auto simp: start_health_verifier_def split: option.split intro!: verifier_ok_fresh)

lemma verifier_ok_stop: "verifier_ok v \<Longrightarrow> verifier_ok (snd (stop_request v))"
  by (cases "verifier_thread v") (simp_all add: stop_request_def verifier_ok_def)

lemma verifier_ok_stop_return:
  assumes "verifier_ok v"
  shows "verifier_ok (stop_return t v)"
proof (rule verifier_okI, goal_cases)
  case (1 u)
  then show ?case using registered_exists [OF assms] by (simp add: stop_return_def Let_def split: if_splits)
next
  case (2 u)
  then have "u \<in> set (verifier_joins v)" using set_remove1_subset by (fastforce simp: stop_return_def Let_def split: if_splits)
  then show ?case using awaited_exists [OF assms] by (simp add: stop_return_def Let_def)
next
  case (3 u)
  then have "verifier_thread v = Some u" "is_alive (verifier_threads v ! u)"
    using alive_registered [OF assms, of u] by (simp_all add: stop_return_def Let_def split: if_splits)
  then show ?case by (auto simp: stop_return_def Let_def)
qed

lemma verifier_ok_move:
  assumes ok: "verifier_ok v" and move: "loop_move pragma stop s (verifier_threads v ! t) s' p" "t < length (verifier_threads v)"
  shows "verifier_ok (v\<lparr>verifier_threads := (verifier_threads v)[t := p]\<rparr>)"
proof (rule verifier_okI, goal_cases)
  case (3 u)
  then have "is_alive (verifier_threads v ! u)" "u < length (verifier_threads v)"
    using moved_was_alive [OF move(1)] by (cases "u = t"; simp)+
  then show ?case using alive_registered [OF ok] by simp
next
  case (1 u)
  then show ?case using registered_exists [OF ok] by simp
next
  case (2 u)
  then show ?case using awaited_exists [OF ok] by simp
qed

lemma verifier_ok_step: "verifier_step pragma m x y \<Longrightarrow> verifier_ok (fst x) \<Longrightarrow> verifier_ok (fst y)"
  by (induction rule: verifier_step.induct)
    (simp_all add: verifier_ok_start verifier_ok_stop verifier_ok_stop_return verifier_ok_move)

interpretation verifiers: step_invariant "\<lambda>x y. \<exists>m. verifier_step pragma m x y" "\<lambda>x. verifier_ok (fst x)" for pragma
  by unfold_locales (auto intro: verifier_ok_step)

lemma verifier_run_reaches:
  "verifier_run pragma ms x y \<Longrightarrow> (\<lambda>x y. \<exists>m. verifier_step pragma m x y)\<^sup>*\<^sup>* x y"
  by (induction rule: verifier_run.induct) (auto intro: rtranclp.rtrancl_into_rtrancl)

lemma verifier_ok_run: "verifier_run pragma ms x y \<Longrightarrow> verifier_ok (fst x) \<Longrightarrow> verifier_ok (fst y)"
  using verifiers.run_preserves verifier_run_reaches by blast


section \<open>The one pass\<close>

text \<open>
  What \<open>pass_step\<close> sees of the threads: the result of the registered one's walk. A pass that
  opened its snapshot before the latch was set publishes nothing; on a latched store the two
  sides agree on the store only.
\<close>

definition pending :: "verifier \<Rightarrow> issue list option" where
  "pending v =
    (case verifier_thread v of
       None \<Rightarrow> None
     | Some t \<Rightarrow> (case verifier_threads v ! t of Walked errors \<Rightarrow> Some errors | _ \<Rightarrow> None))"

definition seen_as :: "verifier \<times> store \<Rightarrow> store \<times> issue list option \<Rightarrow> bool" where
  "seen_as x a \<longleftrightarrow> fst a = snd x \<and> (integrity_failed (snd x) \<or> snd a = pending (fst x))"

lemma pending_not_alive: "verifier_thread v = Some t \<Longrightarrow> \<not> is_alive (verifier_threads v ! t) \<Longrightarrow> pending v = None"
  by (cases "verifier_threads v ! t") (simp_all add: pending_def)

lemma pending_fresh [simp]: "pending (snd (fresh_thread created v)) = None"
  by (simp add: pending_def fresh_thread_def nth_append)

lemma pending_start [simp]: "pending (snd (start_health_verifier created v)) = pending v"
  by (cases "verifier_thread v") (simp_all add: start_health_verifier_def pending_not_alive, simp add: pending_def)

lemma pending_stop [simp]: "pending (snd (stop_request v)) = pending v"
  by (cases "verifier_thread v") (simp_all add: stop_request_def pending_def)

lemma pending_stop_return [simp]: "pending (stop_return t v) = pending v"
  using pending_not_alive [of v t] by (auto simp: stop_return_def Let_def pending_def split: option.split)

lemma pending_move:
  assumes "verifier_ok v" "t < length (verifier_threads v)" "is_alive (verifier_threads v ! t)"
  shows "pending v = (case verifier_threads v ! t of Walked errors \<Rightarrow> Some errors | _ \<Rightarrow> None)"
    and "pending (v\<lparr>verifier_threads := (verifier_threads v)[t := p]\<rparr>) = (case p of Walked errors \<Rightarrow> Some errors | _ \<Rightarrow> None)"
  using alive_registered [OF assms] assms(2) by (simp_all add: pending_def)

lemma latched_move: "loop_move pragma stop s p s' p' \<Longrightarrow> integrity_failed s \<Longrightarrow> s' = s"
  by (induction rule: loop_move.induct) (simp_all add: publish_pass_def)

lemma move_simulated:
  assumes "loop_move pragma stop s p s' p'" "\<not> integrity_failed s"
  shows "(pass_step pragma)\<^sup>*\<^sup>* (s, case p of Walked errors \<Rightarrow> Some errors | _ \<Rightarrow> None)
           (s', case p' of Walked errors \<Rightarrow> Some errors | _ \<Rightarrow> None)"
  using assms
proof (induction rule: loop_move.induct)
  case walk
  then show ?case using begin_pass by auto
next
  case (publish errors now utc)
  then show ?case using end_pass by auto
qed simp_all

text \<open>The whole system refines the store beside a single pass.\<close>

lemma step_simulated:
  assumes "verifier_step pragma m x y" "verifier_ok (fst x)" "seen_as x a"
  shows "\<exists>b. (pass_step pragma)\<^sup>*\<^sup>* a b \<and> seen_as y b"
  using assms
proof (induction rule: verifier_step.induct)
  case (writes i s v)
  have "pass_step pragma a (run_operation i s, snd a)"
    using writes writer [of i s pragma "snd a"] by (cases a) (simp add: seen_as_def)
  moreover have "seen_as (v, run_operation i s) (run_operation i s, snd a)"
    using writes(4) by (auto simp: seen_as_def latched_refuses)
  ultimately show ?case by blast
next
  case (moves t v s s' p)
  show ?case
  proof (cases "integrity_failed s")
    case True
    then have "s' = s" using latched_move [OF moves(2)] by simp
    then have "seen_as (v\<lparr>verifier_threads := (verifier_threads v)[t := p]\<rparr>, s') a"
      using moves(4) True by (simp add: seen_as_def)
    then show ?thesis by blast
  next
    case False
    then have "a = (s, pending v)" using moves(4) by (simp add: seen_as_def prod_eq_iff)
    then show ?thesis
      using move_simulated [OF moves(2) False] pending_move [OF _ moves(1) moved_was_alive [OF moves(2)]] moves(3)
      by (auto simp: seen_as_def)
  qed
qed ((intro exI [of _ a] conjI, simp, simp add: seen_as_def)+)

lemma run_simulated:
  assumes "verifier_run pragma ms x y" "verifier_ok (fst x)" "seen_as x a"
  shows "\<exists>b. (pass_step pragma)\<^sup>*\<^sup>* a b \<and> seen_as y b"
  using assms
proof (induction rule: verifier_run.induct)
  case (run_step ms x y m z)
  then obtain b where b: "(pass_step pragma)\<^sup>*\<^sup>* a b" "seen_as y b" by blast
  from step_simulated [OF run_step(2) verifier_ok_run [OF run_step(1,4)] b(2)] b(1)
  show ?case by (meson rtranclp_trans)
qed blast


lemma run_latched:
  "verifier_run pragma ms x y \<Longrightarrow> integrity_failed (snd x) \<Longrightarrow> snd y = snd x"
proof (induction rule: verifier_run.induct)
  case (run_step ms x y m z)
  then have y: "snd y = snd x" by simp
  from run_step(2) have "integrity_failed (snd y) \<Longrightarrow> snd z = snd y"
    by (induction rule: verifier_step.induct) (simp_all add: latched_refuses latched_move)
  then show ?case using y run_step(4) by simp
qed simp


section \<open>A stopped thread ends\<close>

text \<open>How many moves a thread that was told to stop still has: at most the five from a timed-out wait.\<close>

fun moves_left :: "phase \<Rightarrow> nat" where
  "moves_left Unstarted = 0"
| "moves_left Finished = 0"
| "moves_left Looping = 1"
| "moves_left (Walked errors) = 2"
| "moves_left Walking = 3"
| "moves_left Calling = 4"
| "moves_left Waiting = 5"

lemma move_decreases: "loop_move pragma True s p s' p' \<Longrightarrow> moves_left p' < moves_left p"
  by (cases p) auto

lemma alive_can_move: "is_alive p \<Longrightarrow> \<exists>s' p'. loop_move pragma stop s p s' p'"
  by (cases p; cases stop; cases "integrity_failed s") auto

definition stopping :: "nat \<Rightarrow> verifier \<Rightarrow> bool" where
  "stopping t v \<longleftrightarrow> t < length (verifier_threads v) \<and> (is_alive (verifier_threads v ! t) \<longrightarrow> verifier_stop v)"


lemma stopping_step:
  assumes "verifier_step pragma m x y" "verifier_ok (fst x)" "stopping t (fst x)"
  shows "stopping t (fst y) \<and>
    (if m = Some t then moves_left (verifier_threads (fst y) ! t) < moves_left (verifier_threads (fst x) ! t)
     else verifier_threads (fst y) ! t = verifier_threads (fst x) ! t)"
  using assms
proof (induction rule: verifier_step.induct)
  case (starts v s created)
  note ok = starts(1) [simplified] and t = starts(2) [simplified]
  show ?case
  proof (cases "is_alive (verifier_threads v ! t)")
    case True
    then have "verifier_thread v = Some t" using alive_registered [OF ok] t by (simp add: stopping_def)
    with True have "start_health_verifier created v = (Inr (), v)" by (simp add: start_health_verifier_def)
    then show ?thesis using t by simp
  next
    case False
    then show ?thesis
      using t by (simp add: stopping_def start_health_verifier_def fresh_thread_def nth_append split: option.split)
  qed
next
  case (stops v s)
  then show ?case by (simp add: stopping_def stop_request_def split: option.split)
next
  case (stopped u v s)
  then show ?case by (simp add: stopping_def stop_return_def Let_def)
next
  case (moves u v s s' p)
  show ?case
  proof (cases "u = t")
    case True
    then have "verifier_stop v" using moves moved_was_alive [OF moves(2)] by (simp add: stopping_def)
    then show ?thesis using moves True move_decreases [of pragma s _ s' p] by (simp add: stopping_def)
  next
    case False
    then show ?thesis using moves by (simp add: stopping_def)
  qed
qed simp

lemma stopping_run:
  assumes "verifier_run pragma ms x y" "verifier_ok (fst x)" "stopping t (fst x)"
  shows "stopping t (fst y) \<and>
    count_list ms (Some t) + moves_left (verifier_threads (fst y) ! t) \<le> moves_left (verifier_threads (fst x) ! t)"
  using assms
proof (induction rule: verifier_run.induct)
  case (run_step ms x y m z)
  then show ?case using stopping_step [OF run_step(2) verifier_ok_run [OF run_step(1,4)], of t] by fastforce
qed simp

lemma stop_request_stopping:
  assumes "verifier_ok v" "t < length (verifier_threads v)"
  shows "stopping t (snd (stop_request v))"
proof (cases "is_alive (verifier_threads v ! t)")
  case True
  then show ?thesis
    using alive_registered [OF assms] assms(2) by (simp add: stop_request_def stopping_def)
next
  case False
  then show ?thesis using assms(2) by (simp add: stop_request_def stopping_def split: option.split)
qed

lemma moves_left_bound: "moves_left p \<le> 5"
  by (cases p) auto

lemma moves_left_0: "moves_left p = 0 \<longleftrightarrow> \<not> is_alive p"
  by (cases p) auto

text \<open>While the stopped thread drains, the verifier counts as not running and a start is a no-op.\<close>

lemma draining:
  assumes "verifier_ok v" "stopping t v" "is_alive (verifier_threads v ! t)"
  shows "\<not> health_verifier_running v \<and> start_health_verifier created v = (Inr (), v)"
  using assms alive_registered [OF assms(1), of t]
  by (simp add: stopping_def health_verifier_running_def start_health_verifier_def)

text \<open>Once no thread is alive, a start the system grants leaves a running verifier, whatever happened before.\<close>

lemma start_runs:
  assumes "\<And>t. verifier_thread v = Some t \<Longrightarrow> \<not> is_alive (verifier_threads v ! t)"
  shows "fst (start_health_verifier True v) = Inr () \<and> health_verifier_running (snd (start_health_verifier True v))"
  using assms by (simp add: start_health_verifier_def fresh_thread_def health_verifier_running_def nth_append split: option.split)

text \<open>Stopping, contrary to its documentation, is not harmless after a start the system refused: the \<open>join\<close> raises.\<close>

lemma stop_after_refused_start:
  assumes "\<And>t. verifier_thread v = Some t \<Longrightarrow> \<not> is_alive (verifier_threads v ! t)"
  shows "fst (stop_request (snd (start_health_verifier False v))) =
    Inl (RuntimeError ''cannot join thread before it is started'')"
  using assms by (auto simp: start_health_verifier_def fresh_thread_def stop_request_def nth_append split: option.split)

end
