(* ===== verification/Permissions.thy ===== *)
theory Permissions
  imports Prelude
begin

text \<open>
  \<open>permissions.py\<close>: private files and directories. The operating system is a parameter: what
  \<open>lstat\<close> reports, what \<open>chmod\<close> or setting an access control list does to an object, and who
  the process is. The decisions of the code on those answers are modelled, on POSIX modes as
  32-bit words and on Windows access control lists as the fields the code reads of them.
\<close>

unbundle bit_operations_syntax


section \<open>What the system reports\<close>

record ace =
  ace_type :: "8 word"
  ace_flags :: "8 word"
  ace_mask :: "32 word"
  ace_sid :: str

text \<open>The control word of the security descriptor, and its list when there is one.\<close>

record acl =
  acl_control :: "16 word"
  acl_entries :: "ace list option"

record file_object =
  st_mode :: "32 word"
  fo_acl :: acl

datatype platform = Posix | Windows

text \<open>
  An operation that changes an object gives its result and the object as the next \<open>lstat\<close> or
  query sees it, also when it failed.
\<close>

record os =
  os_name :: platform
  os_chmod :: "32 word \<Rightarrow> file_object \<Rightarrow> unit res \<times> file_object"
  os_set_acl :: "acl \<Rightarrow> file_object \<Rightarrow> unit res \<times> file_object"
  os_get_acl :: "file_object \<Rightarrow> acl res"
  os_user_sid :: "str res"

definition S_IFMT :: "32 word \<Rightarrow> 32 word" where "S_IFMT mode = mode AND 0xF000"
definition S_ISREG :: "32 word \<Rightarrow> bool" where "S_ISREG mode \<longleftrightarrow> S_IFMT mode = 0x8000"
definition S_ISDIR :: "32 word \<Rightarrow> bool" where "S_ISDIR mode \<longleftrightarrow> S_IFMT mode = 0x4000"
definition S_IMODE :: "32 word \<Rightarrow> 32 word" where "S_IMODE mode = mode AND 0xFFF"

definition PRIVATE_DIRECTORY :: "32 word" where "PRIVATE_DIRECTORY = 0x1C0"
definition PRIVATE_FILE :: "32 word" where "PRIVATE_FILE = 0x180"
definition GROUP_AND_OTHERS :: "32 word" where "GROUP_AND_OTHERS = 0x3F"

definition SE_DACL_PROTECTED :: "16 word" where "SE_DACL_PROTECTED = 0x1000"
definition ACCESS_ALLOWED_ACE_TYPE :: "8 word" where "ACCESS_ALLOWED_ACE_TYPE = 0"
definition OBJECT_INHERIT_ACE :: "8 word" where "OBJECT_INHERIT_ACE = 1"
definition CONTAINER_INHERIT_ACE :: "8 word" where "CONTAINER_INHERIT_ACE = 2"
definition FILE_ALL_ACCESS :: "32 word" where "FILE_ALL_ACCESS = 0x001F01FF"


section \<open>Windows\<close>

definition inheritance :: "bool \<Rightarrow> 8 word" where
  "inheritance directory = (if directory then OBJECT_INHERIT_ACE OR CONTAINER_INHERIT_ACE else 0)"

text \<open>The list that the descriptor \<open>D:P(A;inheritance;FA;;;sid)\<close> denotes.\<close>

definition private_acl :: "bool \<Rightarrow> str \<Rightarrow> acl" where
  "private_acl directory sid =
    \<lparr>acl_control = SE_DACL_PROTECTED,
     acl_entries = Some [\<lparr>ace_type = ACCESS_ALLOWED_ACE_TYPE, ace_flags = inheritance directory, ace_mask = FILE_ALL_ACCESS,
                          ace_sid = sid\<rparr>]\<rparr>"

definition set_windows_private_acl :: "os \<Rightarrow> bool \<Rightarrow> file_object \<Rightarrow> unit res \<times> file_object" where
  "set_windows_private_acl system directory f =
    (case os_user_sid system of
       Inl e \<Rightarrow> (Inl e, f)
     | Inr sid \<Rightarrow> os_set_acl system (private_acl directory sid) f)"

definition windows_private_acl_is_valid :: "os \<Rightarrow> bool \<Rightarrow> file_object \<Rightarrow> bool res" where
  "windows_private_acl_is_valid system directory f =
    bindE (os_get_acl system f) (\<lambda>a.
      if acl_control a AND SE_DACL_PROTECTED = 0 then Inr False
      else case acl_entries a of
        Some [e] \<Rightarrow>
          (if ace_type e \<noteq> ACCESS_ALLOWED_ACE_TYPE \<or> ace_flags e \<noteq> inheritance directory \<or> ace_mask e \<noteq> FILE_ALL_ACCESS
           then Inr False
           else bindE (os_user_sid system) (\<lambda>sid. Inr (ace_sid e = sid)))
      | _ \<Rightarrow> Inr False)"


section \<open>The checks\<close>

text \<open>
  \<open>protect_private_directory\<close> and \<open>protect_private_file\<close> are one definition for both kinds of
  object; \<open>PermissionError\<close> is an \<open>OSError\<close>. The result comes with the object as it is left.
\<close>

definition has_type :: "bool \<Rightarrow> file_object \<Rightarrow> bool" where
  "has_type directory f \<longleftrightarrow> (if directory then S_ISDIR (st_mode f) else S_ISREG (st_mode f))"

definition private_mode :: "bool \<Rightarrow> 32 word" where
  "private_mode directory = (if directory then PRIVATE_DIRECTORY else PRIVATE_FILE)"

definition protect_private :: "os \<Rightarrow> bool \<Rightarrow> file_object \<Rightarrow> unit res \<times> file_object" where
  "protect_private system directory f =
    (if \<not> has_type directory f then (Inl (ValueError ''private state path has the wrong type''), f)
     else if os_name system = Windows then
       (case set_windows_private_acl system directory f of
          (Inl e, f') \<Rightarrow> (Inl e, f')
        | (Inr _, f') \<Rightarrow>
            (bindE (windows_private_acl_is_valid system directory f')
               (\<lambda>valid. guardE valid (OSError ''could not verify private ACL'')), f'))
     else
       (case os_chmod system (private_mode directory) f of
          (Inl e, f') \<Rightarrow> (Inl e, f')
        | (Inr _, f') \<Rightarrow>
            (guardE (S_IMODE (st_mode f') = private_mode directory) (OSError ''could not establish the private mode''), f')))"

definition protect_private_directory :: "os \<Rightarrow> file_object \<Rightarrow> unit res \<times> file_object" where
  "protect_private_directory system f = protect_private system True f"

definition protect_private_file :: "os \<Rightarrow> file_object \<Rightarrow> unit res \<times> file_object" where
  "protect_private_file system f = protect_private system False f"

definition require_private_file :: "os \<Rightarrow> file_object \<Rightarrow> unit res" where
  "require_private_file system f =
    (if \<not> S_ISREG (st_mode f) then Inl (ValueError ''private state path is not a regular file'')
     else if os_name system = Windows then
       bindE (windows_private_acl_is_valid system False f) (\<lambda>valid.
         guardE valid (OSError ''private file ACL is too broad''))
     else guardE (S_IMODE (st_mode f) AND GROUP_AND_OTHERS = 0) (OSError ''private file permissions are too broad''))"

text \<open>\<open>except (OSError, ValueError): return False\<close>; \<open>stated\<close> is the result of \<open>lstat\<close>.\<close>

definition enforced :: "bool res \<Rightarrow> bool res" where
  "enforced r = (case r of Inl e \<Rightarrow> (if is_OSError e \<or> is_ValueError e then Inr False else Inl e) | Inr b \<Rightarrow> Inr b)"

definition private_directory_permissions_enforced :: "os \<Rightarrow> file_object res \<Rightarrow> bool res" where
  "private_directory_permissions_enforced system stated =
    enforced (bindE stated (\<lambda>f.
      if \<not> S_ISDIR (st_mode f) then Inr False
      else if os_name system = Windows then windows_private_acl_is_valid system True f
      else Inr (S_IMODE (st_mode f) = PRIVATE_DIRECTORY)))"

definition private_file_permissions_enforced :: "os \<Rightarrow> file_object res \<Rightarrow> bool res" where
  "private_file_permissions_enforced system stated =
    enforced (bindE stated (\<lambda>f.
      if \<not> S_ISREG (st_mode f) then Inr False
      else if os_name system = Windows then windows_private_acl_is_valid system False f
      else Inr (S_IMODE (st_mode f) AND GROUP_AND_OTHERS = 0)))"


section \<open>What a check establishes\<close>

text \<open>
  What the code relies on: neither operation changes the type of an object, a successful
  \<open>chmod\<close> leaves exactly the requested mode bits on POSIX, and on Windows a list that was set
  is the one reported, with at least its protection bit.
\<close>

definition keeps_type :: "os \<Rightarrow> bool" where
  "keeps_type system \<longleftrightarrow>
    (\<forall>m f. S_IFMT (st_mode (snd (os_chmod system m f))) = S_IFMT (st_mode f)) \<and>
    (\<forall>a f. S_IFMT (st_mode (snd (os_set_acl system a f))) = S_IFMT (st_mode f))"

definition grants_all_to :: "bool \<Rightarrow> str \<Rightarrow> ace \<Rightarrow> bool" where
  "grants_all_to directory sid e \<longleftrightarrow>
    ace_type e = ACCESS_ALLOWED_ACE_TYPE \<and> ace_flags e = inheritance directory \<and> ace_mask e = FILE_ALL_ACCESS \<and> ace_sid e = sid"

lemma has_type_IFMT: "S_IFMT (st_mode f') = S_IFMT (st_mode f) \<Longrightarrow> has_type directory f' = has_type directory f"
  by (simp add: has_type_def S_ISDIR_def S_ISREG_def)

text \<open>The Windows check accepts exactly a protected list with one entry, full access for the current user.\<close>

lemma windows_private_acl_exact:
  "windows_private_acl_is_valid system directory f = Inr True \<longleftrightarrow>
    (\<exists>a e sid. os_get_acl system f = Inr a \<and> acl_control a AND SE_DACL_PROTECTED \<noteq> 0 \<and> acl_entries a = Some [e] \<and>
       os_user_sid system = Inr sid \<and> grants_all_to directory sid e)"
  by (auto simp: windows_private_acl_is_valid_def bindE_def grants_all_to_def split: sum.splits option.splits list.splits if_splits)

lemma private_acl_valid:
  assumes "os_get_acl system f = Inr (private_acl directory sid\<lparr>acl_control := c OR SE_DACL_PROTECTED\<rparr>)" "os_user_sid system = Inr sid"
  shows "windows_private_acl_is_valid system directory f = Inr True"
proof -
  have "(c OR SE_DACL_PROTECTED) AND SE_DACL_PROTECTED = SE_DACL_PROTECTED"
    by (rule bit_eqI) (auto simp: bit_simps)
  moreover have "SE_DACL_PROTECTED \<noteq> 0" by (simp add: SE_DACL_PROTECTED_def)
  ultimately show ?thesis
    using assms by (simp add: windows_private_acl_exact grants_all_to_def private_acl_def)
qed

text \<open>\<open>require_private_file\<close> accepts exactly the files the enforcement query reports as private.\<close>

lemma require_iff_enforced:
  "require_private_file system f = Inr () \<longleftrightarrow> private_file_permissions_enforced system (Inr f) = Inr True"
  by (auto simp: require_private_file_def private_file_permissions_enforced_def enforced_def bindE_def split: sum.splits if_splits)

lemma private_mode_hides: "S_IMODE m = private_mode directory \<Longrightarrow> S_IMODE m AND GROUP_AND_OTHERS = 0"
  by (simp add: private_mode_def PRIVATE_DIRECTORY_def PRIVATE_FILE_def GROUP_AND_OTHERS_def split: if_splits)

definition permissions_enforced :: "os \<Rightarrow> bool \<Rightarrow> file_object res \<Rightarrow> bool res" where
  "permissions_enforced system directory stated =
    (if directory then private_directory_permissions_enforced system stated else private_file_permissions_enforced system stated)"

lemma protected_kind:
  assumes "protect_private system directory f = (Inr (), f')"
  shows "os_name system = Windows \<and> windows_private_acl_is_valid system directory f' = Inr True \<or>
         os_name system = Posix \<and> S_IMODE (st_mode f') = private_mode directory"
proof (cases "os_name system")
  case Posix
  then show ?thesis
    using assms by (auto simp: protect_private_def split: if_splits prod.splits sum.splits)
next
  case Windows
  then show ?thesis
    using assms by (auto simp: protect_private_def bindE_Inr_iff split: if_splits prod.splits sum.splits)
qed

lemma protected_keeps_type:
  assumes "protect_private system directory f = (Inr (), f')" "keeps_type system"
  shows "has_type directory f'"
proof -
  have before: "has_type directory f"
    using assms(1) by (simp add: protect_private_def split: if_splits)
  have "S_IFMT (st_mode f') = S_IFMT (st_mode f)"
  proof (cases "os_name system")
    case Posix
    then have "f' = snd (os_chmod system (private_mode directory) f)"
      using assms(1) before by (auto simp: protect_private_def split: prod.splits sum.splits)
    then show ?thesis using assms(2) by (simp add: keeps_type_def)
  next
    case Windows
    then obtain sid where "os_set_acl system (private_acl directory sid) f = (Inr (), f')"
      using assms(1) before
      by (auto simp: protect_private_def set_windows_private_acl_def split: prod.splits sum.splits)
    then show ?thesis using assms(2) unfolding keeps_type_def by (metis snd_conv)
  qed
  then show ?thesis using before has_type_IFMT by blast
qed

text \<open>A protection that succeeds leaves an object that every later check of the code accepts.\<close>

theorem protected_is_enforced:
  assumes "protect_private system directory f = (Inr (), f')" "keeps_type system"
  shows "permissions_enforced system directory (Inr f') = Inr True"
    and "\<not> directory \<Longrightarrow> require_private_file system f' = Inr ()"
proof -
  note type = protected_keeps_type [OF assms] and kind = protected_kind [OF assms(1)]
  show 1: "permissions_enforced system directory (Inr f') = Inr True"
    using type kind private_mode_hides [of "st_mode f'" directory]
    by (auto simp: permissions_enforced_def private_directory_permissions_enforced_def private_file_permissions_enforced_def
        enforced_def has_type_def private_mode_def split: if_splits)
  show "require_private_file system f' = Inr ()" if "\<not> directory"
    using 1 that by (simp add: permissions_enforced_def require_iff_enforced)
qed


text \<open>On POSIX no bit for the group or for others is left.\<close>

theorem protected_denies_others:
  assumes "protect_private system directory f = (Inr (), f')" "os_name system = Posix" "n < 6"
  shows "\<not> bit (st_mode f') n"
proof -
  have "S_IMODE (st_mode f') AND GROUP_AND_OTHERS = 0"
    using protected_kind [OF assms(1)] assms(2) private_mode_hides by auto
  then have "st_mode f' AND 0x3F = 0"
    by (simp add: S_IMODE_def GROUP_AND_OTHERS_def and.assoc)
  moreover have "bit (0x3F :: 32 word) n"
    using assms(3) by (auto simp: less_Suc_eq numeral_eq_Suc bit_simps)
  ultimately show ?thesis by (metis bit_and_iff bit_0_eq bot_apply bot_bool_def)
qed

text \<open>An object of the wrong type, a symbolic link for one, is refused untouched.\<close>

theorem wrong_type_is_refused:
  assumes "\<not> has_type directory f"
  shows "protect_private system directory f = (Inl (ValueError ''private state path has the wrong type''), f)"
    and "permissions_enforced system directory (Inr f) = Inr False"
    and "\<not> directory \<Longrightarrow> is_ValueError (projl (require_private_file system f))"
  using assms
  by (auto simp: protect_private_def has_type_def permissions_enforced_def private_directory_permissions_enforced_def
      private_file_permissions_enforced_def enforced_def require_private_file_def)

text \<open>A system that does what it documents lets the protection succeed, on any object of the right type.\<close>

definition lawful :: "os \<Rightarrow> bool" where
  "lawful system \<longleftrightarrow> keeps_type system \<and>
    (case os_name system of
       Posix \<Rightarrow> \<forall>m f. m AND 0xFFF = m \<longrightarrow>
         (\<exists>f'. os_chmod system m f = (Inr (), f') \<and> S_IMODE (st_mode f') = m)
     | Windows \<Rightarrow> (\<exists>sid. os_user_sid system = Inr sid) \<and>
         (\<forall>a f. \<exists>f' c. os_set_acl system a f = (Inr (), f') \<and>
            os_get_acl system f' = Inr (a\<lparr>acl_control := c OR SE_DACL_PROTECTED\<rparr>)))"

theorem protection_succeeds:
  assumes "lawful system" "has_type directory f"
  obtains f' where "protect_private system directory f = (Inr (), f')"
    and "permissions_enforced system directory (Inr f') = Inr True"
proof -
  have keeps: "keeps_type system" using assms(1) by (simp add: lawful_def)
  have "\<exists>f'. protect_private system directory f = (Inr (), f')"
  proof (cases "os_name system")
    case Posix
    have "private_mode directory AND 0xFFF = private_mode directory"
      by (simp add: private_mode_def PRIVATE_DIRECTORY_def PRIVATE_FILE_def)
    then obtain f' where "os_chmod system (private_mode directory) f = (Inr (), f')" "S_IMODE (st_mode f') = private_mode directory"
      using assms(1) Posix by (auto simp: lawful_def)
    then show ?thesis using assms(2) Posix by (simp add: protect_private_def)
  next
    case Windows
    then obtain sid where sid: "os_user_sid system = Inr sid"
      using assms(1) by (auto simp: lawful_def)
    have "\<forall>a f. \<exists>f' c. os_set_acl system a f = (Inr (), f') \<and>
        os_get_acl system f' = Inr (a\<lparr>acl_control := c OR SE_DACL_PROTECTED\<rparr>)"
      using assms(1) Windows by (simp add: lawful_def)
    then obtain f' c where set: "os_set_acl system (private_acl directory sid) f = (Inr (), f')"
      and get: "os_get_acl system f' = Inr (private_acl directory sid\<lparr>acl_control := c OR SE_DACL_PROTECTED\<rparr>)"
      by blast
    show ?thesis
      using assms(2) Windows sid set private_acl_valid [OF get sid]
      by (simp add: protect_private_def set_windows_private_acl_def)
  qed
  then show ?thesis using that protected_is_enforced(1) [OF _ keeps] by blast
qed

end
