(* ===== verification/PrivateFiles.thy ===== *)
theory PrivateFiles
  imports Permissions
begin

text \<open>
  How the code uses the permission checks: \<open>_atomic_write\<close>, behind every key, keyring and auditors
  file (\<open>keys.py\<close>), \<open>_read_private_key\<close>, and the preparation of a database file and its
  sidecars (\<open>store.py\<close>). A write is a list of steps on the directory, so that every state a crash
  can leave is visible. The lemmas show that on a lawful system the target holds the old
  content or the whole new one in every such state, never a readable new one, which is the
  atomicity that the model of the key files builds on.
\<close>


section \<open>The directory\<close>

text \<open>The parent, the target and the temporary file beside it, with their contents.\<close>

record directory =
  d_parent :: "file_object option"
  d_target :: "(file_object \<times> bytes) option"
  d_temporary :: "(file_object \<times> bytes) option"

text \<open>
  What the calls give this time: the parent after \<open>mkdir\<close>, the file of \<open>mkstemp\<close>, the bytes that
  reach the file with the outcome of writing and syncing them, and the outcomes of closing,
  replacing, of syncing the directory and of removing the temporary file.
\<close>

record io =
  io_mkdir :: "file_object option \<Rightarrow> file_object res"
  io_mkstemp :: "file_object res"
  io_close :: "unit res"
  io_write :: "bytes \<Rightarrow> unit res \<times> bytes"
  io_replace :: "unit res"
  io_sync :: "unit res"
  io_unlink :: "unit res"

type_synonym dir_step = "directory \<Rightarrow> unit res \<times> directory"

text \<open>The steps in order up to the first that raises, with the state after each.\<close>

fun run_steps :: "dir_step list \<Rightarrow> directory \<Rightarrow> unit res \<times> directory list" where
  "run_steps [] d = (Inr (), [])"
| "run_steps (step # rest) d =
    (case step d of
       (Inl e, d') \<Rightarrow> (Inl e, [d'])
     | (Inr _, d') \<Rightarrow> (case run_steps rest d' of (r, ds) \<Rightarrow> (r, d' # ds)))"

definition make_parent :: "io \<Rightarrow> dir_step" where
  "make_parent disk d =
    (case io_mkdir disk (d_parent d) of Inl e \<Rightarrow> (Inl e, d) | Inr p \<Rightarrow> (Inr (), d\<lparr>d_parent := Some p\<rparr>))"

text \<open>\<open>lstat\<close> of a missing object raises \<open>FileNotFoundError\<close>, an \<open>OSError\<close>.\<close>

definition protect_parent :: "os \<Rightarrow> dir_step" where
  "protect_parent system d =
    (case d_parent d of
       None \<Rightarrow> (Inl (OSError ''no such file''), d)
     | Some p \<Rightarrow> (case protect_private_directory system p of (r, p') \<Rightarrow> (r, d\<lparr>d_parent := Some p'\<rparr>)))"

definition make_temporary :: "io \<Rightarrow> dir_step" where
  "make_temporary disk d =
    (case io_mkstemp disk of Inl e \<Rightarrow> (Inl e, d) | Inr f \<Rightarrow> (Inr (), d\<lparr>d_temporary := Some (f, [])\<rparr>))"

definition close_descriptor :: "io \<Rightarrow> dir_step" where
  "close_descriptor disk d = (io_close disk, d)"

definition on_temporary :: "(file_object \<Rightarrow> unit res \<times> file_object) \<Rightarrow> dir_step" where
  "on_temporary act d =
    (case d_temporary d of
       None \<Rightarrow> (Inl (OSError ''no such file''), d)
     | Some (f, content) \<Rightarrow> (case act f of (r, f') \<Rightarrow> (r, d\<lparr>d_temporary := Some (f', content)\<rparr>)))"

definition write_temporary :: "io \<Rightarrow> bytes \<Rightarrow> dir_step" where
  "write_temporary disk payload d =
    (case d_temporary d of
       None \<Rightarrow> (Inl (OSError ''no such file''), d)
     | Some (f, _) \<Rightarrow> (case io_write disk payload of (r, content) \<Rightarrow> (r, d\<lparr>d_temporary := Some (f, content)\<rparr>)))"

definition replace_target :: "io \<Rightarrow> dir_step" where
  "replace_target disk d =
    (case (d_temporary d, io_replace disk) of
       (None, _) \<Rightarrow> (Inl (OSError ''no such file''), d)
     | (_, Inl e) \<Rightarrow> (Inl e, d)
     | (Some t, Inr _) \<Rightarrow> (Inr (), d\<lparr>d_target := Some t, d_temporary := None\<rparr>))"

definition protect_target :: "os \<Rightarrow> dir_step" where
  "protect_target system d =
    (case d_target d of
       None \<Rightarrow> (Inl (OSError ''no such file''), d)
     | Some (f, content) \<Rightarrow> (case protect_private_file system f of (r, f') \<Rightarrow> (r, d\<lparr>d_target := Some (f', content)\<rparr>)))"

definition sync_directory :: "os \<Rightarrow> io \<Rightarrow> dir_step" where
  "sync_directory system disk d = (if os_name system = Windows then (Inr (), d) else (io_sync disk, d))"

text \<open>\<open>unlink(missing_ok=True)\<close>.\<close>

definition remove_temporary :: "io \<Rightarrow> dir_step" where
  "remove_temporary disk d =
    (case d_temporary d of
       None \<Rightarrow> (Inr (), d)
     | Some _ \<Rightarrow> (case io_unlink disk of Inl e \<Rightarrow> (Inl e, d) | Inr _ \<Rightarrow> (Inr (), d\<lparr>d_temporary := None\<rparr>)))"

definition write_steps :: "os \<Rightarrow> io \<Rightarrow> 32 word \<Rightarrow> bytes \<Rightarrow> dir_step list" where
  "write_steps system disk mode payload =
    [close_descriptor disk, on_temporary (os_chmod system mode), on_temporary (protect_private_file system),
     write_temporary disk payload, on_temporary (protect_private_file system), replace_target disk,
     protect_target system, sync_directory system disk]"

text \<open>
  The states of \<open>_atomic_write\<close> in order. The \<open>finally\<close> clause runs once the temporary file
  exists; an error of its own replaces the one it was entered with.
\<close>

definition atomic_write :: "os \<Rightarrow> io \<Rightarrow> 32 word \<Rightarrow> bytes \<Rightarrow> directory \<Rightarrow> unit res \<times> directory list" where
  "atomic_write system disk mode payload d =
    (case run_steps [make_parent disk, protect_parent system, make_temporary disk] d of
       (Inl e, ds) \<Rightarrow> (Inl e, ds)
     | (Inr _, ds) \<Rightarrow>
        (case run_steps (write_steps system disk mode payload) (last ds) of
           (r, ds') \<Rightarrow>
             (case remove_temporary disk (last (ds @ ds')) of
                (Inl e, d') \<Rightarrow> (Inl e, ds @ ds' @ [d'])
              | (Inr _, d') \<Rightarrow> (r, ds @ ds' @ [d']))))"


section \<open>Reading a key, preparing a database\<close>

text \<open>\<open>stated\<close> is the result of \<open>lstat\<close>, \<open>content\<close> that of reading the file.\<close>

definition read_private_key :: "os \<Rightarrow> file_object res \<Rightarrow> bytes res \<Rightarrow> bytes res" where
  "read_private_key system stated content =
    (case bindE stated (require_private_file system) of
       Inl e \<Rightarrow> Inl (if is_OSError e \<or> is_ValueError e then ValueError ''signing key is unavailable'' else e)
     | Inr _ \<Rightarrow> content)"

text \<open>\<open>created\<close> is what an exclusive creation gives when no object of that name exists.\<close>

definition prepare_private_database_file ::
  "os \<Rightarrow> file_object res \<Rightarrow> file_object option \<Rightarrow> unit res \<times> file_object option" where
  "prepare_private_database_file system created existing =
    (case (case existing of Some f \<Rightarrow> Inr f | None \<Rightarrow> created) of
       Inl e \<Rightarrow> (Inl e, existing)
     | Inr f \<Rightarrow> (case protect_private_file system f of (r, f') \<Rightarrow> (r, Some f')))"

text \<open>The two sidecars, \<open>None\<close> where \<open>exists()\<close> is false.\<close>

fun protect_sqlite_sidecars :: "os \<Rightarrow> file_object option list \<Rightarrow> unit res \<times> file_object option list" where
  "protect_sqlite_sidecars system [] = (Inr (), [])"
| "protect_sqlite_sidecars system (None # rest) =
    (case protect_sqlite_sidecars system rest of (r, fs) \<Rightarrow> (r, None # fs))"
| "protect_sqlite_sidecars system (Some f # rest) =
    (case protect_private_file system f of
       (Inl e, f') \<Rightarrow> (Inl e, Some f' # rest)
     | (Inr _, f') \<Rightarrow> (case protect_sqlite_sidecars system rest of (r, fs) \<Rightarrow> (r, Some f' # fs)))"

lemma prepared_is_private:
  assumes "prepare_private_database_file system created existing = (Inr (), Some f)" "keeps_type system"
  shows "require_private_file system f = Inr ()"
  using assms protected_is_enforced(2) [of system False]
  by (auto simp: prepare_private_database_file_def protect_private_file_def split: sum.splits prod.splits option.splits)

lemma sidecars_are_private:
  assumes "keeps_type system" "protect_sqlite_sidecars system fs = (Inr (), fs')"
  shows "list_all2 (\<lambda>f f'. (f = None) = (f' = None) \<and> (\<forall>g. f' = Some g \<longrightarrow> require_private_file system g = Inr ())) fs fs'"
  using assms(2) protected_is_enforced(2) [of system False, OF _ assms(1)]
  by (induction fs arbitrary: fs' rule: protect_sqlite_sidecars.induct)
    (auto simp: protect_private_file_def split: sum.splits prod.splits)

lemma key_read_was_private:
  "read_private_key system stated content = Inr key \<longleftrightarrow>
    content = Inr key \<and> (\<exists>f. stated = Inr f \<and> private_file_permissions_enforced system (Inr f) = Inr True)"
  unfolding require_iff_enforced [symmetric]
  by (auto simp: read_private_key_def bindE_def split: sum.splits)


section \<open>Every state of a write\<close>

text \<open>What a successful call promises: a regular temporary file, and all the bytes written.\<close>

definition io_ok :: "io \<Rightarrow> bool" where
  "io_ok disk \<longleftrightarrow> (\<forall>f. io_mkstemp disk = Inr f \<longrightarrow> has_type False f) \<and>
    (\<forall>payload. fst (io_write disk payload) = Inr () \<longrightarrow> snd (io_write disk payload) = payload)"

text \<open>
  In every state the target is the one before the write, or private with the whole payload,
  and bytes in the temporary file are private too.
\<close>

definition safe_state :: "os \<Rightarrow> (file_object \<times> bytes) option \<Rightarrow> bytes \<Rightarrow> directory \<Rightarrow> bool" where
  "safe_state system old payload d \<longleftrightarrow>
    (d_target d = old \<or> (\<exists>f. d_target d = Some (f, payload) \<and> require_private_file system f = Inr ())) \<and>
    (\<forall>f content. d_temporary d = Some (f, content) \<longrightarrow> content = [] \<or> require_private_file system f = Inr ())"

text \<open>One step, and a list of steps, from \<open>P\<close>: \<open>I\<close> in every state, \<open>Q\<close> at the end unless a step raised.\<close>

definition step_ok :: "(directory \<Rightarrow> bool) \<Rightarrow> dir_step \<Rightarrow> (directory \<Rightarrow> bool) \<Rightarrow> (directory \<Rightarrow> bool) \<Rightarrow> bool" where
  "step_ok P step I Q \<longleftrightarrow> (\<forall>d. P d \<longrightarrow> I (snd (step d)) \<and> (fst (step d) = Inr () \<longrightarrow> Q (snd (step d))))"

definition steps_ok :: "(directory \<Rightarrow> bool) \<Rightarrow> dir_step list \<Rightarrow> (directory \<Rightarrow> bool) \<Rightarrow> (directory \<Rightarrow> bool) \<Rightarrow> bool" where
  "steps_ok P steps I Q \<longleftrightarrow> (\<forall>d. P d \<longrightarrow>
    (\<forall>d' \<in> set (snd (run_steps steps d)). I d') \<and>
    (fst (run_steps steps d) = Inr () \<longrightarrow> Q (last (d # snd (run_steps steps d)))))"

lemma steps_ok_Nil: "steps_ok P [] I P"
  by (simp add: steps_ok_def)

lemma steps_ok_Cons: "step_ok P step I Q \<Longrightarrow> steps_ok Q steps I R \<Longrightarrow> steps_ok P (step # steps) I R"
proof -
  assume step: "step_ok P step I Q" and rest: "steps_ok Q steps I R"
  have "(\<forall>d' \<in> set (snd (run_steps (step # steps) d)). I d') \<and>
      (fst (run_steps (step # steps) d) = Inr () \<longrightarrow> R (last (d # snd (run_steps (step # steps) d))))" if "P d" for d
  proof (cases "step d")
    case (Pair r d')
    have I: "I d'" and Q: "r = Inr () \<longrightarrow> Q d'" using step that Pair by (auto simp: step_ok_def)
    show ?thesis
    proof (cases r)
      case (Inr u)
      then have "Q d'" using Q by simp
      with rest have "(\<forall>e \<in> set (snd (run_steps steps d')). I e) \<and>
          (fst (run_steps steps d') = Inr () \<longrightarrow> R (last (d' # snd (run_steps steps d'))))"
        unfolding steps_ok_def by blast
      then show ?thesis using Pair Inr I by (cases "run_steps steps d'") (auto split: if_splits)
    qed (use Pair I in simp)
  qed
  then show ?thesis unfolding steps_ok_def by blast
qed

lemma steps_okD:
  "steps_ok P steps I Q \<Longrightarrow> P d \<Longrightarrow> run_steps steps d = (r, ds) \<Longrightarrow>
    (\<forall>d' \<in> set ds. I d') \<and> (r = Inr () \<longrightarrow> Q (last (d # ds)))"
  by (fastforce simp: steps_ok_def)

lemma run_steps_Inr: "run_steps steps d = (Inr u, ds) \<Longrightarrow> length ds = length steps"
  by (induction steps arbitrary: d ds) (auto split: prod.splits sum.splits)

text \<open>The phases of a write: before the temporary file, with one, written, private, in place.\<close>

definition untouched :: "os \<Rightarrow> (file_object \<times> bytes) option \<Rightarrow> directory \<Rightarrow> bool" where
  "untouched system old d \<longleftrightarrow> d_target d = old \<and> d_temporary d = None"

definition parent_private :: "os \<Rightarrow> directory \<Rightarrow> bool" where
  "parent_private system d \<longleftrightarrow> (\<exists>p. d_parent d = Some p \<and> permissions_enforced system True (Inr p) = Inr True)"

definition temporary_at :: "os \<Rightarrow> (file_object \<times> bytes) option \<Rightarrow> (file_object \<Rightarrow> bytes \<Rightarrow> bool) \<Rightarrow> directory \<Rightarrow> bool" where
  "temporary_at system old P d \<longleftrightarrow> d_target d = old \<and> parent_private system d \<and>
    (\<exists>f content. d_temporary d = Some (f, content) \<and> has_type False f \<and> P f content)"

definition in_place :: "os \<Rightarrow> bytes \<Rightarrow> directory \<Rightarrow> bool" where
  "in_place system payload d \<longleftrightarrow> d_temporary d = None \<and> parent_private system d \<and>
    (\<exists>f. d_target d = Some (f, payload) \<and> has_type False f \<and> require_private_file system f = Inr ())"

text \<open>On a lawful system the protection of a regular file succeeds and keeps it regular.\<close>

lemma lawful_protect:
  assumes "lawful system" "has_type False f"
  obtains f' where "protect_private_file system f = (Inr (), f')" "has_type False f'" "require_private_file system f' = Inr ()"
proof -
  have keeps: "keeps_type system" using assms(1) by (simp add: lawful_def)
  obtain f' where f': "protect_private system False f = (Inr (), f')" by (rule protection_succeeds [OF assms])
  from that [of f'] f' protected_keeps_type [OF f' keeps] protected_is_enforced(2) [OF f' keeps]
  show ?thesis by (simp add: protect_private_file_def)
qed

text \<open>Each step of the write in its phase.\<close>

lemma phases_safe:
  shows untouched_safe: "untouched system old d \<Longrightarrow> safe_state system old payload d"
    and in_place_safe: "in_place system payload d \<Longrightarrow> safe_state system old payload d"
    and temporary_safe: "temporary_at system old P d \<Longrightarrow>
      (\<And>f content. P f content \<Longrightarrow> content = [] \<or> require_private_file system f = Inr ()) \<Longrightarrow> safe_state system old payload d"
  by (auto simp: safe_state_def untouched_def in_place_def temporary_at_def) blast

lemma make_parent_ok:
  "step_ok (untouched system old) (make_parent disk) (safe_state system old payload) (untouched system old)"
  by (auto simp: step_ok_def make_parent_def untouched_def safe_state_def split: sum.split)

lemma protect_parent_ok:
  assumes "keeps_type system"
  shows "step_ok (untouched system old) (protect_parent system) (safe_state system old payload)
    (\<lambda>d. untouched system old d \<and> parent_private system d)"
  using protected_is_enforced(1) [of system True, OF _ assms]
  by (auto simp: step_ok_def protect_parent_def untouched_def safe_state_def parent_private_def protect_private_directory_def
      split: option.split prod.split)

lemma make_temporary_ok:
  assumes "io_ok disk"
  shows "step_ok (\<lambda>d. untouched system old d \<and> parent_private system d) (make_temporary disk) (safe_state system old payload)
    (temporary_at system old (\<lambda>f content. content = []))"
  using assms
  by (auto simp: step_ok_def make_temporary_def untouched_def safe_state_def temporary_at_def parent_private_def io_ok_def
      split: sum.split)

lemma no_change_ok:
  assumes "\<And>d. P d \<Longrightarrow> I d" "\<And>d. snd (step d) = d"
  shows "step_ok P step I P"
  using assms by (simp add: step_ok_def)

lemma chmod_temporary_ok:
  assumes "keeps_type system"
  shows "step_ok (temporary_at system old (\<lambda>f content. content = [])) (on_temporary (os_chmod system mode))
    (safe_state system old payload) (temporary_at system old (\<lambda>f content. content = []))"
proof -
  have "has_type False f'" if "os_chmod system mode f = (r, f')" "has_type False f" for f r f'
    using assms that has_type_IFMT [of f' f False] unfolding keeps_type_def by (metis snd_conv)
  then show ?thesis
    by (auto simp: step_ok_def on_temporary_def safe_state_def temporary_at_def parent_private_def split: prod.splits)
qed

lemma protect_temporary_ok:
  assumes "lawful system"
  shows "step_ok (temporary_at system old (\<lambda>f content. content = c)) (on_temporary (protect_private_file system))
    (safe_state system old payload)
    (temporary_at system old (\<lambda>f content. content = c \<and> require_private_file system f = Inr ()))"
proof -
  have "safe_state system old payload d' \<and> temporary_at system old (\<lambda>f content. content = c \<and> require_private_file system f = Inr ()) d'"
    if d: "temporary_at system old (\<lambda>f content. content = c) d" and d': "d' = snd (on_temporary (protect_private_file system) d)" for d d'
  proof -
    obtain f where f: "d_temporary d = Some (f, c)" "has_type False f" and t: "d_target d = old" "parent_private system d"
      using d by (auto simp: temporary_at_def)
    obtain f' where f': "protect_private_file system f = (Inr (), f')" "has_type False f'" "require_private_file system f' = Inr ()"
      by (rule lawful_protect [OF assms f(2)])
    have d'': "d' = d\<lparr>d_temporary := Some (f', c)\<rparr>" using d' f f' by (simp add: on_temporary_def)
    then show ?thesis using f' t by (simp add: safe_state_def temporary_at_def parent_private_def)
  qed
  then show ?thesis by (simp add: step_ok_def)
qed

lemma write_temporary_ok:
  assumes "io_ok disk"
  shows "step_ok (temporary_at system old (\<lambda>f content. content = [] \<and> require_private_file system f = Inr ()))
    (write_temporary disk payload) (safe_state system old payload) (temporary_at system old (\<lambda>f content. content = payload))"
proof -
  have w: "fst (io_write disk payload) = Inr () \<Longrightarrow> snd (io_write disk payload) = payload" using assms by (simp add: io_ok_def)
  show ?thesis
    using w by (cases "io_write disk payload")
      (auto simp: step_ok_def write_temporary_def safe_state_def temporary_at_def parent_private_def)
qed

lemma replace_target_ok:
  "step_ok (temporary_at system old (\<lambda>f content. content = payload \<and> require_private_file system f = Inr ()))
    (replace_target disk) (safe_state system old payload) (in_place system payload)"
  by (cases "io_replace disk")
    (auto simp: step_ok_def replace_target_def safe_state_def temporary_at_def in_place_def parent_private_def)

lemma protect_target_ok:
  assumes "lawful system"
  shows "step_ok (in_place system payload) (protect_target system) (safe_state system old payload) (in_place system payload)"
proof -
  have "in_place system payload (snd (protect_target system d))" if d: "in_place system payload d" for d
  proof -
    obtain f where f: "d_target d = Some (f, payload)" "has_type False f" using d by (auto simp: in_place_def)
    obtain f' where "protect_private_file system f = (Inr (), f')" "has_type False f'" "require_private_file system f' = Inr ()"
      by (rule lawful_protect [OF assms f(2)])
    then show ?thesis using f d by (simp add: protect_target_def in_place_def parent_private_def)
  qed
  then show ?thesis using in_place_safe by (simp add: step_ok_def)
qed


text \<open>The steps before the temporary file, and after it.\<close>

lemma prepare_steps_ok:
  assumes "lawful system" "io_ok disk"
  shows "steps_ok (untouched system old) [make_parent disk, protect_parent system, make_temporary disk]
    (safe_state system old payload) (temporary_at system old (\<lambda>f content. content = []))"
proof -
  have "keeps_type system" using assms(1) by (simp add: lawful_def)
  note steps = make_parent_ok protect_parent_ok [OF this] make_temporary_ok [OF assms(2)]
  show ?thesis by (rule steps_ok_Cons steps steps_ok_Nil)+
qed

lemma write_steps_ok:
  assumes "lawful system" "io_ok disk"
  shows "steps_ok (temporary_at system old (\<lambda>f content. content = [])) (write_steps system disk mode payload)
    (safe_state system old payload) (in_place system payload)"
proof -
  let ?open = "temporary_at system old (\<lambda>f content. content = [])"
  have keeps: "keeps_type system" using assms(1) by (simp add: lawful_def)
  have close: "step_ok ?open (close_descriptor disk) (safe_state system old payload) ?open"
    by (rule no_change_ok) (auto simp: close_descriptor_def intro: temporary_safe)
  have sync: "step_ok (in_place system payload) (sync_directory system disk) (safe_state system old payload) (in_place system payload)"
    by (rule no_change_ok) (auto simp: sync_directory_def intro: in_place_safe)
  note steps = close chmod_temporary_ok [OF keeps] protect_temporary_ok [OF assms(1)] write_temporary_ok [OF assms(2)]
    replace_target_ok protect_target_ok [OF assms(1)] sync
  show ?thesis unfolding write_steps_def by (rule steps_ok_Cons steps steps_ok_Nil)+
qed

lemma remove_temporary_ok:
  assumes "safe_state system old payload d"
  shows "safe_state system old payload (snd (remove_temporary disk d))"
    and "fst (remove_temporary disk d) = Inr () \<Longrightarrow> d_temporary (snd (remove_temporary disk d)) = None"
    and "d_target (snd (remove_temporary disk d)) = d_target d" "parent_private system (snd (remove_temporary disk d)) = parent_private system d"
    and "d_temporary d = None \<Longrightarrow> remove_temporary disk d = (Inr (), d)"
  using assms by (auto simp: remove_temporary_def safe_state_def parent_private_def split: option.split sum.split)

text \<open>
  A crash at any point leaves the old target or the whole new one, and no byte of the payload
  in a file others can read. A write that returns has replaced the target, in a private
  directory, and left no temporary file. Nor does one that raised, where it could be removed.
\<close>

theorem atomic_write_states:
  assumes sys: "lawful system" "io_ok disk" and d: "d_temporary d = None" "atomic_write system disk mode payload d = (r, ds)"
  shows "(\<forall>d' \<in> set ds. safe_state system (d_target d) payload d') \<and>
    (r = Inr () \<longrightarrow> in_place system payload (last ds)) \<and>
    (io_unlink disk = Inr () \<longrightarrow> d_temporary (last (d # ds)) = None)"
proof -
  let ?safe = "safe_state system (d_target d) payload"
  have start: "untouched system (d_target d) d" using d(1) by (simp add: untouched_def)
  obtain r1 ds1 where one: "run_steps [make_parent disk, protect_parent system, make_temporary disk] d = (r1, ds1)" by force
  note p1 = steps_okD [OF prepare_steps_ok [OF sys, of "d_target d" payload] start one]
  show ?thesis
  proof (cases r1)
    case (Inl e)
    have "d_temporary (last (d # ds1)) = None"
      using one Inl d(1)
      by (auto simp: make_parent_def protect_parent_def make_temporary_def split: sum.splits option.splits prod.splits)
    then show ?thesis using p1 one Inl d(2) by (auto simp: atomic_write_def)
  next
    case (Inr u)
    have ne: "ds1 \<noteq> []" using run_steps_Inr one Inr by fastforce
    obtain r2 ds2 where two: "run_steps (write_steps system disk mode payload) (last ds1) = (r2, ds2)" by force
    have open_temp: "temporary_at system (d_target d) (\<lambda>f content. content = []) (last ds1)"
      using p1 Inr ne by simp
    note p2 = steps_okD [OF write_steps_ok [OF sys] open_temp two]
    define d2 where "d2 = last (ds1 @ ds2)"
    have d2: "d2 = last (last ds1 # ds2)" using ne by (simp add: d2_def)
    have safe2: "?safe d2" using p1 p2 ne unfolding d2_def by (metis Un_iff append_is_Nil_conv last_in_set set_append)
    obtain r3 d3 where three: "remove_temporary disk d2 = (r3, d3)" by force
    note rm = remove_temporary_ok [OF safe2, of disk, unfolded three fst_conv snd_conv]
    have ds: "ds = ds1 @ ds2 @ [d3]" and r: "r = (case r3 of Inl e \<Rightarrow> Inl e | Inr _ \<Rightarrow> r2)"
      using d(2) one two three Inr by (auto simp: atomic_write_def d2_def split: sum.splits)
    have "in_place system payload d3" if "r = Inr ()"
    proof -
      have "in_place system payload d2" using that r p2 d2 by (auto split: sum.splits)
      then show ?thesis using rm(5) by (simp add: in_place_def)
    qed
    moreover have "d_temporary d3 = None" if "io_unlink disk = Inr ()"
      using three that by (auto simp: remove_temporary_def split: option.splits)
    ultimately show ?thesis using ds p1 p2 rm(1) by auto
  qed
qed

end
