(* ===== verification/Clock.thy ===== *)
theory Clock
  imports StoreState
begin

text \<open>
  \<open>clock.py\<close>, and \<open>_utc_now\<close> of \<open>store.py\<close>, which has the same body: the text of a clock reading. The
  reading itself, the fields of a \<open>datetime\<close> in UTC, is an argument. The lemmas show that the
  readings are exactly the texts that the integrity checks accept as timestamps, which is what
  the hypotheses \<open>timestamp utc\<close> of the other theories ask of a clock.
\<close>

record moment =
  year :: nat
  month :: nat
  day :: nat
  hour :: nat
  minute :: nat
  second :: nat
  microsecond :: nat

text \<open>What the constructor of \<open>datetime\<close> accepts.\<close>

definition moment_ok :: "moment \<Rightarrow> bool" where
  "moment_ok m \<longleftrightarrow> 1 \<le> year m \<and> year m \<le> 9999 \<and> 1 \<le> month m \<and> month m \<le> 12 \<and>
    1 \<le> day m \<and> day m \<le> days_in_month (year m) (month m) \<and>
    hour m \<le> 23 \<and> minute m \<le> 59 \<and> second m \<le> 59 \<and> microsecond m < 1000000"

text \<open>A decimal field of fixed width.\<close>

fun padded :: "nat \<Rightarrow> nat \<Rightarrow> str" where
  "padded 0 n = []"
| "padded (Suc w) n = padded w (n div 10) @ [48 + n mod 10]"

text \<open>\<open>datetime.isoformat\<close> for the zone UTC, and \<open>str.replace\<close> (of a text that is not empty).\<close>

definition isoformat :: "moment \<Rightarrow> str" where
  "isoformat m = padded 4 (year m) @ lit ''-'' @ padded 2 (month m) @ lit ''-'' @ padded 2 (day m) @ lit ''T'' @
    padded 2 (hour m) @ lit '':'' @ padded 2 (minute m) @ lit '':'' @ padded 2 (second m) @
    (if microsecond m = 0 then [] else lit ''.'' @ padded 6 (microsecond m)) @ lit ''+00:00''"

function replace_text :: "str \<Rightarrow> str \<Rightarrow> str \<Rightarrow> str" where
  "replace_text old new s =
    (case s of
       [] \<Rightarrow> []
     | c # cs \<Rightarrow>
        if old \<noteq> [] \<and> take (length old) s = old then new @ replace_text old new (drop (length old) s)
        else c # replace_text old new cs)"
  by pat_completeness auto
termination
  by (relation "measure (\<lambda>(old, new, s). length s)") auto

declare replace_text.simps [simp del]

definition utc_now :: "moment \<Rightarrow> str" where
  "utc_now now = replace_text (lit ''+00:00'') (lit ''Z'') (isoformat (now\<lparr>microsecond := 0\<rparr>))"


section \<open>Digits\<close>

lemma padded_props: "length (padded w n) = w" "c \<in> set (padded w n) \<Longrightarrow> is_digit c"
proof -
  have le: "n mod 10 \<le> 9" for n :: nat using mod_less_divisor [of 10 n] by linarith
  show "length (padded w n) = w" by (induction w arbitrary: n) simp_all
  show "c \<in> set (padded w n) \<Longrightarrow> is_digit c"
    by (induction w arbitrary: n) (auto simp: is_digit_def le)
qed

lemma nat_of_padded: "nat_of_digits (padded w n) = n mod 10 ^ w"
proof (induction w arbitrary: n)
  case (Suc w)
  have "10 * (n div 10 mod 10 ^ w) + n mod 10 = n mod 10 ^ Suc w"
    by (simp add: mod_mult2_eq)
  then show ?case by (simp add: Suc.IH)
qed (simp add: nat_of_digits_def)

lemma padded_of_digits:
  "\<forall>c \<in> set ds. is_digit c \<Longrightarrow> padded (length ds) (nat_of_digits ds) = ds"
proof (induction ds rule: rev_induct)
  case (snoc d ds)
  then obtain k where k: "d = 48 + k" "k < 10" by (auto simp: is_digit_def dest!: le_Suc_ex)
  show ?case using snoc by (simp add: k)
qed simp


section \<open>The text of a reading\<close>

lemma replace_text_skip:
  assumes "\<forall>c \<in> set s. c \<noteq> a"
  shows "replace_text (a # old) new (s @ t) = s @ replace_text (a # old) new t"
  using assms
proof (induction s)
  case (Cons c s)
  then show ?case by (subst replace_text.simps) auto
qed simp

lemma utc_now_text:
  "utc_now m = padded 4 (year m) @ [45] @ padded 2 (month m) @ [45] @ padded 2 (day m) @ [84] @
    padded 2 (hour m) @ [58] @ padded 2 (minute m) @ [58] @ padded 2 (second m) @ [90]"
proof -
  let ?p = "padded 4 (year m) @ [45] @ padded 2 (month m) @ [45] @ padded 2 (day m) @ [84] @
    padded 2 (hour m) @ [58] @ padded 2 (minute m) @ [58] @ padded 2 (second m)"
  have plus: "lit ''+00:00'' = 43 # lit ''00:00''" by code_simp
  have "lit ''-'' = [45]" "lit ''T'' = [84]" "lit '':'' = [58]" by code_simp+
  then have iso: "isoformat (m\<lparr>microsecond := 0\<rparr>) = ?p @ lit ''+00:00''" by (simp add: isoformat_def)
  have "\<forall>c \<in> set (padded w n). c \<noteq> 43" for w n using padded_props(2) by (fastforce simp: is_digit_def)
  then have "\<forall>c \<in> set ?p. c \<noteq> 43" by auto
  from replace_text_skip [OF this, of "lit ''00:00''" "lit ''Z''" "lit ''+00:00''"]
  have "utc_now m = ?p @ replace_text (lit ''+00:00'') (lit ''Z'') (lit ''+00:00'')"
    by (simp only: utc_now_def iso plus)
  moreover have "replace_text (lit ''+00:00'') (lit ''Z'') (lit ''+00:00'') = [90]" by code_simp
  ultimately show ?thesis by simp
qed

text \<open>The layout of a timestamp, in fields.\<close>

definition digits :: "nat \<Rightarrow> str \<Rightarrow> bool" where
  "digits n ds \<longleftrightarrow> length ds = n \<and> (\<forall>c \<in> set ds. is_digit c)"

definition layout :: "str \<Rightarrow> str \<Rightarrow> str \<Rightarrow> str \<Rightarrow> str \<Rightarrow> str \<Rightarrow> str" where
  "layout y mo d h mi s = y @ [45] @ mo @ [45] @ d @ [84] @ h @ [58] @ mi @ [58] @ s @ [90]"

definition layout_ok :: "str \<Rightarrow> str \<Rightarrow> str \<Rightarrow> str \<Rightarrow> str \<Rightarrow> str \<Rightarrow> bool" where
  "layout_ok y mo d h mi s \<longleftrightarrow> digits 4 y \<and> digits 2 mo \<and> digits 2 d \<and> digits 2 h \<and> digits 2 mi \<and> digits 2 s"

lemma digits_padded [simp]: "digits n (padded n v)"
  by (simp add: digits_def padded_props)

lemma digits_value:
  assumes "digits n ds"
  shows "padded n (nat_of_digits ds) = ds" and "nat_of_digits ds < 10 ^ n"
proof -
  show same: "padded n (nat_of_digits ds) = ds" using padded_of_digits assms by (auto simp: digits_def)
  have "nat_of_digits ds = nat_of_digits ds mod 10 ^ n" using nat_of_padded [of n "nat_of_digits ds"] by (simp only: same)
  also have "\<dots> < 10 ^ n" by simp
  finally show "nat_of_digits ds < 10 ^ n" .
qed

lemma shape_digits: "list_all2 shape_char (replicate n 48) ds \<longleftrightarrow> digits n ds"
  by (auto simp: digits_def list_all2_conv_all_nth shape_char_def all_set_conv_all_nth)

lemma TIMESTAMP_layout: "TIMESTAMP v \<longleftrightarrow> (\<exists>y mo d h mi s. v = layout y mo d h mi s \<and> layout_ok y mo d h mi s)"
proof -
  have "lit ''0000-00-00T00:00:00Z'' = layout (replicate 4 48) (replicate 2 48) (replicate 2 48) (replicate 2 48) (replicate 2 48) (replicate 2 48)"
    by code_simp
  then have "TIMESTAMP v \<longleftrightarrow> list_all2 shape_char
      (layout (replicate 4 48) (replicate 2 48) (replicate 2 48) (replicate 2 48) (replicate 2 48) (replicate 2 48)) v"
    by (simp only: TIMESTAMP_def)
  also have "\<dots> \<longleftrightarrow> (\<exists>y mo d h mi s. v = layout y mo d h mi s \<and> layout_ok y mo d h mi s)"
    unfolding layout_def list_all2_append1 list_all2_Cons1 list_all2_Nil shape_digits layout_ok_def shape_char_def
    by (fastforce simp: digits_def)
  finally show ?thesis .
qed

lemma timestamp_layout:
  assumes "layout_ok y mo d h mi s"
  shows "timestamp (layout y mo d h mi s) \<longleftrightarrow>
    moment_ok \<lparr>year = nat_of_digits y, month = nat_of_digits mo, day = nat_of_digits d, hour = nat_of_digits h,
               minute = nat_of_digits mi, second = nat_of_digits s, microsecond = 0\<rparr>"
proof -
  have "nat_of_digits y \<le> 9999" using digits_value(2) [of 4 y] assms by (simp add: layout_ok_def)
  moreover have "TIMESTAMP (layout y mo d h mi s)" using TIMESTAMP_layout assms by blast
  ultimately show ?thesis
    using assms by (simp add: timestamp_def moment_ok_def Let_def layout_def layout_ok_def digits_def)
qed

text \<open>The checks accept exactly what a clock can read.\<close>

theorem timestamp_iff_reading: "timestamp v \<longleftrightarrow> (\<exists>m. moment_ok m \<and> utc_now m = v)"
proof
  assume "\<exists>m. moment_ok m \<and> utc_now m = v"
  then obtain m where m: "moment_ok m" "v = utc_now m" by blast
  have "days_in_month (year m) (month m) \<le> 31" by (simp add: days_in_month_def)
  then have "day m < 100" using m(1) by (simp add: moment_ok_def)
  then have fields: "\<lparr>year = year m mod 10 ^ 4, month = month m mod 10 ^ 2, day = day m mod 10 ^ 2, hour = hour m mod 10 ^ 2,
      minute = minute m mod 10 ^ 2, second = second m mod 10 ^ 2, microsecond = 0\<rparr> = m\<lparr>microsecond := 0\<rparr>"
    using m(1) by (simp add: moment_ok_def)
  have "v = layout (padded 4 (year m)) (padded 2 (month m)) (padded 2 (day m)) (padded 2 (hour m)) (padded 2 (minute m)) (padded 2 (second m))"
    by (simp add: m(2) utc_now_text layout_def)
  moreover have "moment_ok (m\<lparr>microsecond := 0\<rparr>)" using m(1) by (simp add: moment_ok_def)
  ultimately show "timestamp v"
    using timestamp_layout [of "padded 4 (year m)" "padded 2 (month m)" "padded 2 (day m)" "padded 2 (hour m)" "padded 2 (minute m)"
        "padded 2 (second m)"]
    by (simp add: layout_ok_def nat_of_padded fields del: power_numeral)
next
  assume t: "timestamp v"
  then obtain y mo d h mi s where v: "v = layout y mo d h mi s" and ok: "layout_ok y mo d h mi s"
    using TIMESTAMP_layout by (auto simp: timestamp_def Let_def)
  let ?m = "\<lparr>year = nat_of_digits y, month = nat_of_digits mo, day = nat_of_digits d, hour = nat_of_digits h,
               minute = nat_of_digits mi, second = nat_of_digits s, microsecond = 0\<rparr>"
  have "utc_now ?m = v" using ok by (simp add: utc_now_text v layout_def layout_ok_def digits_value(1))
  moreover have "moment_ok ?m" using t timestamp_layout [OF ok] v by simp
  ultimately show "\<exists>m. moment_ok m \<and> utc_now m = v" by blast
qed

text \<open>Different seconds have different texts.\<close>

lemma utc_now_inj:
  assumes "moment_ok m" "moment_ok n" "utc_now m = utc_now n"
  shows "m\<lparr>microsecond := 0\<rparr> = n\<lparr>microsecond := 0\<rparr>"
proof -
  have same: "a = b" if "padded w a = padded w b" "a < 10 ^ w" "b < 10 ^ w" for w a b
    using that by (metis nat_of_padded mod_less)
  have bounds: "year k < 10 ^ 4 \<and> month k < 10 ^ 2 \<and> day k < 10 ^ 2 \<and> hour k < 10 ^ 2 \<and> minute k < 10 ^ 2 \<and> second k < 10 ^ 2"
    if "moment_ok k" for k
  proof -
    have "days_in_month (year k) (month k) \<le> 31" by (simp add: days_in_month_def)
    then show ?thesis using that by (simp add: moment_ok_def)
  qed
  have "padded 4 (year m) = padded 4 (year n) \<and> padded 2 (month m) = padded 2 (month n) \<and> padded 2 (day m) = padded 2 (day n) \<and>
      padded 2 (hour m) = padded 2 (hour n) \<and> padded 2 (minute m) = padded 2 (minute n) \<and> padded 2 (second m) = padded 2 (second n)"
    using assms(3) by (simp add: utc_now_text append_eq_append_conv padded_props(1))
  then have "year m = year n" "month m = month n" "day m = day n" "hour m = hour n" "minute m = minute n" "second m = second n"
    using same bounds [OF assms(1)] bounds [OF assms(2)] by blast+
  then show ?thesis by (cases m; cases n) simp
qed

end
