(* ===== verification/SampleService.thy ===== *)
theory SampleService
  imports Sample AppErrors RecordPages Cli Upgrade Verifier PrivateFiles Clock
begin

text \<open>
  Concrete values for the witnesses about the service, federation and key files: a record
  signed by an auditor, the request that submits it, a service that knows the auditor, a PEM
  library. SHA-256 stays symbolic in them.
\<close>

definition sample_signed :: obj where
  "sample_signed = (case sign_record sample_keys 3 sample_record of Inr r \<Rightarrow> r | Inl _ \<Rightarrow> [])"

lemma sample_sign: "sign_record sample_keys 3 sample_record = Inr sample_signed"
proof -
  obtain r where "sign_record sample_keys 3 sample_record = Inr r"
    using canonical_without [OF sample_dict_ok] validate_recordD(8) [OF sample_validates] by (auto simp: sign_record_Inr)
  then show ?thesis by (simp add: sample_signed_def)
qed

lemma sample_signed_shape: "\<exists>m. sample_signed = sample_body @ [(lit ''sig'', sig_envelope sample_keys 3 m)]"
proof -
  obtain m where m: "sample_signed = AList.update (lit ''sig'') (sig_envelope sample_keys 3 m) (without (lit ''sig'') sample_record)"
    using sample_sign by (auto simp: sign_record_envelope)
  have "without (lit ''sig'') sample_record = sample_body" "lit ''sig'' \<notin> keys_of sample_body" by code_simp+
  with m show ?thesis by (auto simp: update_fresh keys_of_def)
qed

lemma sample_signed_ok:
  "validate_record (JObj sample_signed) = Inr sample_signed" "dict_ok (JObj sample_signed)"
  "verify_signed sample_keys (public_pinned sample_keys 3) sample_signed"
proof -
  show "validate_record (JObj sample_signed) = Inr sample_signed"
    by (rule validate_sign_record [OF sample_keys_ok sample_dict_ok sample_validates sample_sign])
  show "verify_signed sample_keys (public_pinned sample_keys 3) sample_signed"
    by (rule verify_signed_sign_record [OF sample_keys_ok sample_sign])
  obtain m where "sample_signed = AList.update (lit ''sig'') (sig_envelope sample_keys 3 m) (without (lit ''sig'') sample_record)"
    using sample_sign by (auto simp: sign_record_envelope)
  then show "dict_ok (JObj sample_signed)"
    by (metis dict_ok_update dict_ok_without sample_dict_ok sig_envelope_ccj(2) str_ok_lit)
qed

definition sample_raw :: bytes where
  "sample_raw = (case canonical_document (JObj sample_signed) of Inr b \<Rightarrow> b | Inl _ \<Rightarrow> [])"

lemma sample_raw: "canonical_document (JObj sample_signed) = Inr sample_raw"
  using validate_recordD(8) [OF sample_signed_ok(1)] by (auto simp: sample_raw_def)

lemma sample_raw_parses:
  "parse_record sample_raw = Inr (sorted_record sample_signed)"
  "verify_signed sample_keys (public_pinned sample_keys 3) (sorted_record sample_signed)"
proof -
  have "load_json sample_raw = Inr (JObj (sorted_record sample_signed))"
    using load_canonical [OF sample_signed_ok(2) sample_raw] by (simp only: sort_json_JObj)
  then show "parse_record sample_raw = Inr (sorted_record sample_signed)"
    by (simp add: parse_record_def validate_record_sort [OF sample_signed_ok(2,1)])
  show "verify_signed sample_keys (public_pinned sample_keys 3) (sorted_record sample_signed)"
    by (rule verify_signed_sort [OF sample_signed_ok(2,3)])
qed

lemma dump_size_snoc:
  "kvs \<noteq> [] \<Longrightarrow> dump_size (JObj (kvs @ [(k, v)])) = dump_size (JObj kvs) + length (quote k) + dump_size v + 2"
  by (cases kvs) simp_all

lemma sample_raw_length: "length sample_raw \<le> MAX_BODY_BYTES"
proof -
  obtain m where s: "sample_signed = sample_body @ [(lit ''sig'', sig_envelope sample_keys 3 m)]"
    using sample_signed_shape by blast
  have "length (quote (key_id sample_keys 3)) \<le> 18"
    using quote_plain [of "key_id sample_keys 3"] plain_hex(2) by (simp add: key_id_def plain_text_def)
  moreover have "length (quote (sign sample_keys 3 m)) \<le> 90"
    using quote_plain [of "sign sample_keys 3 m"] b64encode_plain b64encode_length [of "ed_sign sample_keys 3 m"]
    by (simp add: sign_def plain_text_def sample_keys_def)
  moreover have "length (quote (lit ''key_id'')) \<le> 20" "length (quote (lit ''algorithm'')) \<le> 20"
    "length (quote (lit ''ed25519'')) \<le> 20" "length (quote (lit ''signature'')) \<le> 20" "length (quote (lit ''sig'')) \<le> 20"
    by code_simp+
  moreover have "dump_size (JObj sample_body) \<le> 1000" "sample_body \<noteq> []" by code_simp+
  ultimately have "dump_size (JObj sample_signed) \<le> 1400"
    unfolding s by (subst dump_size_snoc) (simp_all add: sig_envelope_def)
  moreover have "length sample_raw \<le> 4 * length (json_dumps True (JObj sample_signed))"
    using sample_raw utf8_length by (simp only: canonical_document_def bindE_Inr_iff) blast
  ultimately show ?thesis by (simp only: length_dumps MAX_BODY_BYTES_def)
qed


section \<open>A service and a submission\<close>

definition sample_token :: str where
  "sample_token = replicate 22 97"

definition sample_auditor :: auditor where
  "sample_auditor = \<lparr>auditor_id = lit ''alice'', org = [], public_key = public_pinned sample_keys 3,
    token_sha256 = (case utf8_encode sample_token of Inr raw \<Rightarrow> sha256_hex raw | Inl _ \<Rightarrow> [])\<rparr>"

definition sample_service :: "byte service" where
  "sample_service = \<lparr>sv_ed25519 = sample_keys, sv_signing_key = 7, sv_verification_keys = [],
    sv_tokens = [(token_sha256 sample_auditor, sample_auditor)]\<rparr>"

definition sample_request :: submit_request where
  "sample_request = \<lparr>h_content_type = lit ''application/json'', h_content_encoding = None, h_content_length = None,
    h_authorization = lit ''Bearer '' @ sample_token, h_idempotency_key = [], body_chunks = [sample_raw], body_complete = True\<rparr>"

definition sample_clocks :: clocks where
  "sample_clocks = \<lparr>k_limiter = 0, k_store = 0, k_utc = sample_utc, k_time = 0\<rparr>"

definition sample_limiter :: limiter where
  "sample_limiter = \<lparr>requests = 1, window_seconds = 60, max_keys = 5, entries = []\<rparr>"

lemma sample_authenticate: "authenticate (sv_tokens sample_service) (h_authorization sample_request) = Inr sample_auditor"
proof -
  have h: "take 7 (h_authorization sample_request) = lit ''Bearer ''" "strip (drop 7 (h_authorization sample_request)) = sample_token"
    "length sample_token = 22"
    by (simp_all add: sample_request_def) code_simp+
  have "case utf8_encode sample_token of Inr _ \<Rightarrow> True | Inl _ \<Rightarrow> False" by code_simp
  then obtain raw where raw: "utf8_encode sample_token = Inr raw" by (auto split: sum.splits)
  then have "token_sha256 sample_auditor = sha256_hex raw" by (simp add: sample_auditor_def)
  then show ?thesis by (simp add: authenticate_def h resolve_def raw raised_def sample_service_def)
qed

lemma sample_headers: "check_headers sample_request = Inr ()"
proof -
  have "is_utf8_json (lit ''application/json'')" "lower (strip (lit ''identity'')) = lit ''identity''" by code_simp+
  then show ?thesis by (simp add: check_headers_def sample_request_def declared_too_large_def raised_def)
qed

lemma sample_admitted_request:
  "admitted sample_service sample_request sample_clocks sample_limiter sample_auditor (sorted_record sample_signed)"
proof -
  have "read_request_body MAX_BODY_BYTES 0 (body_chunks sample_request) (body_complete sample_request) = Inr sample_raw"
    using sample_raw_length by (simp add: sample_request_def)
  moreover have "allowed (fst (allow (lit ''auditor:'' @ auditor_id sample_auditor) (k_limiter sample_clocks) sample_limiter))"
    by (simp add: allow_def sample_limiter_def)
  moreover have "sv_ed25519 sample_service = sample_keys" "public_key sample_auditor = public_pinned sample_keys 3"
    by (simp_all add: sample_service_def sample_auditor_def)
  ultimately show ?thesis
    using sample_headers sample_authenticate sample_raw_parses by (auto simp: admitted_def)
qed

lemma sample_endorser: "endorser_ok (auditor_id sample_auditor)"
  by (simp add: endorser_ok_def sample_auditor_def)


section \<open>An upstream registry\<close>

definition sample_upstream :: store where
  "sample_upstream = snd (append 0 sample_signed sample_utc sample_store)"

lemma sample_upstream_ok:
  "store_ok sample_upstream [(sample_signed, sample_utc)]" "signed_log sample_keys 3 [(sample_signed, sample_utc)]"
proof -
  have "entry_ok (sample_signed, sample_utc)" by (rule validated_admitted [OF sample_signed_ok(1,2) sample_utc_ok])
  then obtain b where "value_ok sample_signed sample_utc" "admit sample_signed sample_utc = Inr b" by (auto simp: entry_ok_iff)
  from append_commits [OF sample_store_ok(2) _ this(1) sample_store_writable this(2)]
  show "store_ok sample_upstream [(sample_signed, sample_utc)]" by (auto simp: sample_upstream_def)
  show "signed_log sample_keys 3 [(sample_signed, sample_utc)]" using sample_signed_ok by (simp add: signed_log_def)
qed

definition sample_args_log :: log_args where
  "sample_args_log = \<lparr>g_since = 0, g_limit = 1, g_cursor = []\<rparr>"

lemma sample_log_request: "log_request_ok sample_service sample_args_log"
  using sample_keys_ok
  by (simp add: log_request_ok_def sample_service_def sample_args_log_def MAX_SAFE_INTEGER_def MAX_PAGE_SIZE_def)

definition sample_args_records :: records_args where
  "sample_args_records =
    \<lparr>q_source_identity = lit ''host.example/acme/demo'', q_commit = replicate 40 97, q_content_sha256 = [], q_hash_version = [],
     q_limit = 1, q_cursor = []\<rparr>"

lemma sample_records_request: "records_request_ok sample_service sample_args_records"
proof -
  have "case check_records_args sample_args_records of Inr _ \<Rightarrow> True | Inl _ \<Rightarrow> False" by code_simp
  then show ?thesis
    using sample_keys_ok clean_lit [of "''host.example/acme/demo''"]
    by (auto simp: records_request_ok_def sample_service_def sample_args_records_def MAX_PAGE_SIZE_def split: sum.splits)
qed

lemma sample_snapshot:
  "\<exists>snap. sign_record sample_keys 7 (snapshot_body (boundary_spec (created_of (st_db sample_store)) [] 0)) = Inr snap"
proof -
  have d: "db_ok (st_db sample_store) []" using sample_store_ok(2) by (simp add: store_ok_def)
  have "boundary_ok (boundary_spec (created_of (st_db sample_store)) [] 0)"
    using boundary_spec_ok [OF d, of 0] by (simp add: MAX_SAFE_INTEGER_def)
  from snapshot_valid [OF sample_keys_ok this, of 7] show ?thesis by blast
qed

lemma sample_cursor:
  "\<exists>cursor snap. cursor_state sample_keys (accepted_signing_keys sample_service) ''log'' (log_query sample_args_log) 0 cursor sample_store =
    Inr (0, boundary_spec (created_of (st_db sample_store)) [] 0, snap)"
proof -
  let ?b = "boundary_spec (created_of (st_db sample_store)) [] 0"
  have at: "at_boundary (created_of (st_db sample_store)) [] sample_store"
    using sample_store_ok(2) by (auto simp: at_boundary_def store_ok_def MAX_SAFE_INTEGER_def)
  obtain snap where snap: "sign_record sample_keys 7 (snapshot_body ?b) = Inr snap" using sample_snapshot by blast
  have b: "boundary_ok ?b" using at_boundary_ok [OF at] by simp
  obtain digest where d: "query_digest ''log'' (log_query sample_args_log) = Inr digest"
    using log_query_digest [OF sample_log_request] by blast
  obtain cursor where c: "encode_cursor sample_keys 7 ''log'' (log_query sample_args_log) snap 0 0 = Inr cursor" "length cursor \<le> 4096"
    using encode_cursor_fits [OF sample_keys_ok b snap d, of 0 0 7] by (auto simp: MAX_SAFE_INTEGER_def CURSOR_TTL_SECONDS_def)
  have sv: "sv_ed25519 sample_service = sample_keys" "sv_signing_key sample_service = 7" by (simp_all add: sample_service_def)
  from issued_cursor_accepted [of sample_service, OF _ at, of snap "''log''" "log_query sample_args_log" 0 0 cursor 0] show ?thesis
    using c snap sample_keys_ok by (auto simp: sv served_snapshot_def CURSOR_TTL_SECONDS_def)
qed

lemma sample_export:
  "\<exists>offered snap. export_bundle sample_keys 3 sample_upstream sample_upstream = Inr offered \<and>
    verify_bundle sample_keys (public_pinned sample_keys 3) (JObj offered) = Inr (snap, exported [(sample_signed, sample_utc)]) \<and>
    dict_ok (JObj offered)"
proof -
  have "store_ok sample_upstream ([(sample_signed, sample_utc)] @ [])" "int (length ([(sample_signed, sample_utc)] @ [])) \<le> MAX_SAFE_INTEGER"
    using sample_upstream_ok(1) by (simp_all add: MAX_SAFE_INTEGER_def)
  from export_verifies [OF sample_keys_ok sample_upstream_ok(1) this sample_upstream_ok(2)] show ?thesis by (metis (full_types))
qed

lemma sample_first_hand: "first_hand (sorted_record sample_signed)"
proof -
  obtain m where m: "sample_signed = sample_body @ [(lit ''sig'', sig_envelope sample_keys 3 m)]"
    using sample_signed_shape by blast
  have "map_of sample_body (lit ''endorsements'') = None" by code_simp
  then have "map_of sample_signed (lit ''endorsements'') = None" by (simp add: m map_add_def)
  then have "map_of (sorted_record sample_signed) (lit ''endorsements'') = None"
    using map_of_sorted_record [OF sample_signed_ok(2)] by simp
  then show ?thesis by (simp add: first_hand_def prior_endorsements_def)
qed

lemma sample_served: "\<exists>snap raw. get_snapshot sample_service sample_store = Inr snap \<and> canonical_document (JObj snap) = Inr raw"
proof -
  let ?b = "boundary_spec (created_of (st_db sample_store)) [] 0"
  have d: "db_ok (st_db sample_store) []" using sample_store_ok(2) by (simp add: store_ok_def)
  have "boundary_ok ?b" using boundary_spec_ok [OF d, of 0] by (simp add: MAX_SAFE_INTEGER_def)
  from snapshot_valid [OF sample_keys_ok this, of 7] obtain snap where
    s: "sign_record sample_keys 7 (snapshot_body ?b) = Inr snap" "document_ok 2 (JObj snap)" by blast
  have "snapshot_boundary None sample_store = Inr ?b"
    using snapshot_boundary_ok [OF d, of None] by (simp add: snapshot_boundary_def)
  then have "get_snapshot sample_service sample_store = Inr snap"
    using s(1) by (simp add: get_snapshot_def raised_def build_snapshot_def sample_service_def)
  moreover have "\<exists>raw. canonical_document (JObj snap) = Inr raw"
    using s(2) document_ok_canonical [of "JObj snap"] by (simp add: document_ok_def MAX_JSON_DEPTH_def)
  ultimately show ?thesis by blast
qed

lemma sample_refused: "\<exists>raw s1. enforce_startup_checkpoint sample_keys [] 0 (Some (Inr raw)) sample_store =
    (Inr (Refused ''checkpoint_signature_invalid''), s1)"
proof -
  obtain snap raw where s: "get_snapshot sample_service sample_store = Inr snap" "canonical_document (JObj snap) = Inr raw"
    using sample_served by blast
  have E: "ed25519_ok (sv_ed25519 sample_service)" by (simp add: sample_service_def sample_keys_ok)
  have "\<exists>live. snapshot_boundary None sample_store = Inr live"
    using snapshot_boundary_ok [of "st_db sample_store" "[]" None] sample_store_ok(2)
    by (auto simp: snapshot_boundary_def store_ok_def)
  moreover have "''checkpoint_signature_invalid'' \<in> REFUSAL_DIAGNOSTICS" by (simp add: REFUSAL_DIAGNOSTICS_def)
  ultimately show ?thesis
    using served_snapshot_parses(1) [OF E sample_store_ok(2) _ s refl] refuse_startup_checkpoint_eq [OF _ sample_store_ok(4)]
    by (intro exI [of _ raw]) (auto simp: enforce_startup_checkpoint_def MAX_SAFE_INTEGER_def)
qed

lemma bind_hex: "bind_texts [sha256_hex m] = Inr ()"
  using hex_chars [of _ "sha256 m"] by (fastforce simp: bind_texts_def sha256_hex_def surrogate_def)

lemma sample_chained:
  "\<exists>r f out g latest d'. record_accepted sample_keys (public_pinned sample_keys 5) 2 r \<and> dict_ok (JObj r) \<and>
    countersign_import sample_keys 7 r = Inr (f, out) \<and> import_signature (prior_endorsements r) = JStr g \<and> g \<noteq> [] \<and>
    own_signature r \<noteq> JStr g \<and>
    import_records sample_utc [(f, out)] 0 None (st_db sample_store) = Inr ((1, latest), d')"
proof -
  have "endorser_ok (lit ''upstream-import'')" by (simp add: endorser_ok_def)
  then obtain r where r: "countersign sample_keys 5 (lit ''upstream-import'') sample_signed = Inr r" "validate_record (JObj r) = Inr r"
    "dict_ok (JObj r)" "verify_signed sample_keys (public_pinned sample_keys 5) r"
    using countersign_valid [OF sample_keys_ok sample_signed_ok(1,2), of "lit ''upstream-import''" 5] by blast
  obtain m0 where m0: "sample_signed = sample_body @ [(lit ''sig'', sig_envelope sample_keys 3 m0)]" using sample_signed_shape by blast
  have b: "map_of sample_body (lit ''sig'') = None" "map_of sample_body (lit ''endorsements'') = None" by code_simp+
  then have sg: "map_of sample_signed (lit ''sig'') = Some (sig_envelope sample_keys 3 m0)" "prior_endorsements sample_signed = []"
    by (simp_all add: m0 map_add_def prior_endorsements_def)
  obtain m1 where m1: "map_of r (lit ''sig'') = Some (sig_envelope sample_keys 5 m1)"
    "map_of r (lit ''endorsements'') = Some (JArr [import_endorsement (lit ''upstream-import'') sample_signed])"
    using r(1) sg(2) by (auto simp: countersign_def sign_record_envelope countersigned_body_eq update_conv')
  have g: "import_signature (prior_endorsements r) = JStr (sign sample_keys 3 m0)" "own_signature r = JStr (sign sample_keys 5 m1)"
    using import_signature_own [of sample_signed] sg(1)
    by (simp_all add: prior_endorsements_def m1 own_signature_def sig_envelope_def)
  have ne: "sign sample_keys 3 m0 \<noteq> []" "sign sample_keys 5 m1 \<noteq> sign sample_keys 3 m0"
    by (simp_all add: sign_def sample_keys_def) code_simp+
  have acc: "record_accepted sample_keys (public_pinned sample_keys 5) 2 r" using r(2,4) by (simp add: record_accepted_def)
  have ccj: "ccj_leaves (JObj r)" using validate_recordD(8) [OF r(2)] r(3) by (auto simp: canonical_document_Inr)
  obtain p where p: "fingerprint_payload r (own_signature r) = Inr p"
    using fingerprint_payload_defined [OF r(3) ccj] own_signature_ok [OF r(3) ccj] by (auto simp: g(2))
  have sv: "\<exists>v. map_of r (lit ''schema_version'') = Some v"
    using r(1) by (auto simp: countersign_def sign_record_envelope countersigned_body_eq update_conv')
  have en: "endorser_ok (lit ''upstream-import'')" by (simp add: endorser_ok_def)
  obtain out where out: "countersign sample_keys 7 (lit ''upstream-import'') r = Inr out" "validate_record (JObj out) = Inr out"
    "dict_ok (JObj out)" using countersign_valid [OF sample_keys_ok r(2,3) en, of 7] by blast
  have i: "countersign_import sample_keys 7 r = Inr (sha256_hex p, out)"
    using out(1) p by (simp add: countersign_import_def fingerprint_payload_def countersign_def countersigned_body_import [OF sv])
  have "entry_ok (out, sample_utc)" by (rule validated_admitted [OF out(2,3) sample_utc_ok])
  then obtain c where c: "admit out sample_utc = Inr c" by (auto simp: entry_ok_iff)
  have d: "db_ok (st_db sample_store) []" using sample_store_ok(2) by (simp add: store_ok_def)
  then have t: "tables_ok (st_db sample_store) []" by (simp add: db_ok_def)
  have "db_imported (st_db sample_store) = []" by (simp add: sample_store_ok(1) new_db_def)
  then have "\<exists>latest d'. import_records sample_utc [(sha256_hex p, out)] 0 None (st_db sample_store) = Inr ((1, latest), d')"
    using append_locked_spec [OF t, of out sample_utc] c by (simp add: bind_hex raising_def)
  then obtain latest d' where "import_records sample_utc [(sha256_hex p, out)] 0 None (st_db sample_store) = Inr ((1, latest), d')"
    by blast
  moreover have "own_signature r \<noteq> JStr (sign sample_keys 3 m0)" using g(2) ne(2) by simp
  ultimately show ?thesis using acc r(3) i g(1) ne(1) by blast
qed


section \<open>Key files\<close>

definition sample_pem :: "byte pem_library" where
  "sample_pem = \<lparr>pem_load = (\<lambda>pem passphrase. Inr (last pem)),
    pem_export = (\<lambda>k passphrase. if passphrase = None then [k] else pem_marker @ [k])\<rparr>"

lemma sample_pem_ok: "pem_ok sample_pem"
proof -
  have n: "length pem_marker = 21" by (simp add: pem_marker_def)
  have "contains pem_marker (pem_marker @ [k])" for k
    by (cases "pem_marker @ [k]") (auto simp: n dest: arg_cong [where f = "take 21"])
  moreover have "\<not> contains pem_marker [k]" for k using n by (auto dest: arg_cong [where f = length])
  ultimately show ?thesis by (simp add: pem_ok_def sample_pem_def)
qed

lemma sample_initialized: "\<exists>h. h \<in> set (fst (initialize_key sample_keys (file_provider sample_pem None) False 7 empty_home))"
  by (auto simp: initialize_key_def empty_home_def file_provider_def file_store_def Let_def split: sum.split)


section \<open>A data home\<close>

definition sample_world :: world where
  "sample_world =
    \<lparr>w_home = \<lparr>f_active = Some [7], f_next = None, f_keyring = None\<rparr>, w_db = Some (st_db (sample_committed sample_utc)),
     w_auditors = None\<rparr>"

definition default_environment :: environment where
  "default_environment = \<lparr>en_interval = None, en_concurrent = None, en_network = None, en_submissions = None, en_checkpoint = None\<rparr>"

lemma sample_world_key: "p_load (file_provider sample_pem None) (f_active (w_home sample_world)) = Inr 7"
proof -
  have "\<not> contains pem_marker [7]" by code_simp
  then show ?thesis by (simp add: sample_world_def file_provider_def file_load_def sample_pem_def)
qed

lemma sample_world_db:
  "w_db sample_world = Some (st_db (sample_committed sample_utc))" "db_ok (st_db (sample_committed sample_utc)) [(sample_record, sample_utc)]"
  using sample_committed_ok [of sample_utc] by (simp_all add: sample_world_def store_ok_def)

lemma sample_auditor_ok:
  "auditor_ok sample_auditor" "clean (auditor_id sample_auditor)" "clean (org sample_auditor)"
  "\<exists>raw. utf8_encode sample_token = Inr raw \<and> token_sha256 sample_auditor = sha256_hex raw" "length sample_token = 22"
proof -
  have "case utf8_encode sample_token of Inr _ \<Rightarrow> True | Inl _ \<Rightarrow> False" by code_simp
  then obtain raw where raw: "utf8_encode sample_token = Inr raw" by (auto split: sum.splits)
  then show t: "\<exists>raw. utf8_encode sample_token = Inr raw \<and> token_sha256 sample_auditor = sha256_hex raw"
    by (simp add: sample_auditor_def)
  have "c \<in> set hex_digits" if "c \<in> set (sha256_hex raw)" for c
  proof -
    have "set hex_digits = {48..57} \<union> {97..102}" by code_simp
    then show ?thesis using hex_chars [of c "sha256 raw"] that by (auto simp: sha256_hex_def)
  qed
  moreover have "\<forall>c \<in> set (lit ''alice''). 31 < c \<and> c \<noteq> 127" by code_simp
  ultimately show "auditor_ok sample_auditor"
    using raw parse_public_pinned [OF sample_keys_ok] by (auto simp: auditor_ok_def sample_auditor_def)
  show "clean (auditor_id sample_auditor)" by (simp add: sample_auditor_def)
  show "clean (org sample_auditor)" "length sample_token = 22"
    by (simp_all add: sample_auditor_def sample_token_def clean_def str_ok_def)
qed

text \<open>A database file of the first, unversioned schema, with one committed record and one expired key.\<close>

definition sample_old_file :: db_file where
  "sample_old_file =
    \<lparr>user_version = 0,
     tables = [(''log'', log_table), (''idempotency'', unscoped_keys), (''imported_records'', imported_legacy)],
     indexes = [(''idx_log_content'', [''content_sha256''])],
     contents = (st_db (sample_committed sample_utc))
       \<lparr>db_metadata := [], db_imported := [], db_boundaries := [], db_frontier := [], db_high_water := [], db_idempotency := []\<rparr>,
     old_keys = [\<lparr>y_auditor_id = None, y_key = [], y_body_sha256 = [], y_response_json = [], y_expires_at = 0\<rparr>]\<rparr>"

lemma sample_old_file_supported: "supported 5 [(sample_record, sample_utc)] sample_old_file"
proof -
  have "tables_ok (st_db (sample_committed sample_utc)) [(sample_record, sample_utc)]"
    using sample_world_db(2) by (simp add: db_ok_def)
  then have "legacy_file 5 [(sample_record, sample_utc)] sample_old_file"
    by (simp add: legacy_file_def sample_old_file_def old_rows_ok_def caches_ok_def tables_ok_def legacy_keys_ok_def fits_def
        added_tables_def fits_indexes_def expected_indexes_def optional_def get_metadata_def)
  then show ?thesis by (simp add: supported_def)
qed


text \<open>Systems that do what they document, a disk that works, and a directory without the file to write.\<close>

definition sample_system :: "platform \<Rightarrow> os" where
  "sample_system p =
    \<lparr>os_name = p,
     os_chmod = (\<lambda>m f. (Inr (), f\<lparr>st_mode := S_IFMT (st_mode f) OR (m AND 0xFFF)\<rparr>)),
     os_set_acl = (\<lambda>a f. (Inr (), f\<lparr>fo_acl := a\<lparr>acl_control := acl_control a OR SE_DACL_PROTECTED\<rparr>\<rparr>)),
     os_get_acl = (\<lambda>f. Inr (fo_acl f)), os_user_sid = Inr [83]\<rparr>"

lemma sample_system_lawful: "lawful (sample_system p)"
proof -
  have type: "S_IFMT (S_IFMT x OR (m AND 0xFFF)) = S_IFMT x" for x m
    by (simp add: S_IFMT_def bit.conj_disj_distrib2 and.assoc)
  have "S_IMODE (S_IFMT x OR (m AND 0xFFF)) = m AND 0xFFF" for x m
    by (simp add: S_IFMT_def S_IMODE_def bit.conj_disj_distrib2 and.assoc)
  then have mode: "m AND 0xFFF = m \<Longrightarrow> S_IMODE (S_IFMT x OR m) = m" for x m by metis
  have "keeps_type (sample_system p)" by (simp add: keeps_type_def sample_system_def type)
  then show ?thesis by (cases p) (auto simp: lawful_def sample_system_def mode)
qed

definition sample_object :: "32 word \<Rightarrow> file_object" where
  "sample_object mode = \<lparr>st_mode = mode, fo_acl = \<lparr>acl_control = 0, acl_entries = None\<rparr>\<rparr>"

definition sample_disk :: io where
  "sample_disk =
    \<lparr>io_mkdir = (\<lambda>d. case d of None \<Rightarrow> Inr (sample_object 0x41ED) | Some p \<Rightarrow> Inr p), io_mkstemp = Inr (sample_object 0x8180),
     io_close = Inr (), io_write = (\<lambda>payload. (Inr (), payload)), io_replace = Inr (), io_sync = Inr (), io_unlink = Inr ()\<rparr>"

lemma sample_disk_ok: "io_ok sample_disk"
  by (simp add: io_ok_def sample_disk_def sample_object_def has_type_def S_ISREG_def S_IFMT_def)

definition sample_directory :: directory where
  "sample_directory = \<lparr>d_parent = None, d_target = None, d_temporary = None\<rparr>"

lemma sample_write:
  "fst (atomic_write (sample_system Posix) sample_disk 0x180 [7] sample_directory) = Inr ()"
  "fst (atomic_write (sample_system Windows) sample_disk 0x180 [7] sample_directory) = Inr ()"
  by code_simp+

end
