(* ===== verification/Spec2Isabelle.thy ===== *)
theory Spec2Isabelle
  imports SampleService
begin

text \<open>
  A verification of the Curator Skill Registry (\<open>src/src/csk_registry\<close>): an HTTP service that keeps
  an append-only, hash-chained log of signed audit records about skill packages, proves its
  state with signed snapshots, and federates by signed bundles.

  \<^bold>\<open>The program and its model.\<close> A submitted record is parsed and validated, verified against
  the key of the auditor whose token came with it, countersigned by the registry and appended to
  the log in one SQLite transaction. Readers page through the log or the current records at a
  signed boundary, with cursors that carry that boundary. A background pass re-verifies the whole
  database; a detected fault latches the process into refusing writes.

  \<^item> \<open>Prelude\<close>: Python exceptions as the datatype \<open>exc\<close>, results as \<open>exc + 'a\<close>, dictionaries as
    association lists with distinct keys in insertion order, Python text as code points; the
    locale \<open>step_invariant\<close> for step relations.
  \<^item> \<open>Encoding\<close>, \<open>Json\<close>, \<open>JsonValues\<close>: UTF-8/16/32, base64 and hex, SHA-256, and \<open>json.loads\<close> and
    \<open>json.dumps\<close> of the standard library, as far as the sources use them.
  \<^item> \<open>Signing\<close> (\<open>signing.py\<close>): canonical JSON and signatures. Ed25519 is a parameter, the
    record \<open>ed25519\<close>, with the hypothesis \<open>ed25519_ok\<close>: fixed lengths, and a signature verifies.
  \<^item> \<open>Protocol\<close>, \<open>ProtocolValues\<close>, \<open>KeyOrder\<close> (\<open>protocol.py\<close>): the depth scan, \<open>load_json\<close> and the
    validators; that parsed documents are well-formed; that validity and signatures do
    not depend on the order of keys.
  \<^item> \<open>Merkle\<close>, \<open>StoreState\<close>, \<open>StoreAppend\<close>, \<open>StoreSpec\<close>, \<open>StoreIntegrity\<close>, \<open>StoreRead\<close>, \<open>StoreOps\<close>,
    \<open>StoreHealth\<close>, \<open>Verifier\<close> (\<open>store.py\<close>): the tables as a record \<open>db\<close> and the in-memory flags as a record
    \<open>store\<close>; every writer, reader, the integrity walk, the boundary cache, startup verification
    and the background pass. \<open>Verifier\<close> adds the threads that run the passes. \<open>StoreSpec\<close> gives the abstract log, a list of records with times, and
    \<open>store_ok s es\<close> relates a store to it.
  \<^item> \<open>Migration\<close>, \<open>Upgrade\<close> (\<open>store.py\<close>): the constructor. A database file is its \<open>user_version\<close>,
    its table definitions and its rows; a migration is the sequence of states the file goes
    through, so that a crash leaves one of them. \<open>supported\<close> describes the files that open.
  \<^item> \<open>Checkpoint\<close>, \<open>RateLimits\<close>, \<open>Auth\<close> (\<open>checkpoint.py\<close>, \<open>limits.py\<close>, \<open>auth.py\<close>).
  \<^item> \<open>Bundle\<close>, \<open>Federation\<close> (\<open>snapshot.py\<close>, \<open>bundle.py\<close>): signed snapshots, export, import.
  \<^item> \<open>Cursor\<close>, \<open>App\<close>, \<open>AppSubmit\<close>, \<open>AppRead\<close>, \<open>RecordPages\<close>, \<open>AppErrors\<close> (\<open>app.py\<close>): cursors, the route handlers, the
    exception handlers, the request gate and the startup checkpoint. A handler is a function of
    the parsed request, its clock readings and the state.
  \<^item> \<open>Permissions\<close>, \<open>PrivateFiles\<close> (\<open>permissions.py\<close>, with \<open>_atomic_write\<close> of \<open>keys.py\<close> and the file
    preparation of \<open>store.py\<close>): POSIX modes and Windows access control lists as the code reads them, the
    operating system being the record \<open>os\<close> with the hypothesis \<open>lawful\<close>; a private write as the
    states of its directory.
  \<^item> \<open>Keys\<close> (\<open>keys.py\<close>): the key directory as three files; an operation yields the sequence of
    file states it goes through, and \<open>key_step\<close> lets a crash stop it at any of them.
  \<^item> \<open>Clock\<close> (\<open>clock.py\<close>): the text of a clock reading, which is what \<open>timestamp\<close> accepts.
  \<^item> \<open>Startup\<close> (\<open>app.py\<close>): \<open>create_app\<close> and \<open>app_from_env\<close>, from a data home and the environment
    to a running service.
  \<^item> \<open>Cli\<close> (\<open>cli.py\<close>): every command as a function on the data home with its exit code.
  \<^item> \<open>Sample\<close>, \<open>SampleService\<close>: concrete values for the witnesses.

  \<^bold>\<open>What is shown.\<close> The store refines the abstract log (C1), its history only grows (C2) and its
  head commits to the records (C3); the incremental Merkle frontier equals the full tree (C4).
  Verification raises no false alarm under any interleaving of its threads with writers, a found
  fault stops the registry for good, and a stopped verifier thread ends (C6 to C8). Pages at a boundary are exact and stable
  (C9, C12). Startup rebuilds lost caches and compares checkpoints (C13, C14, C39, C40).
  Idempotent retries, the upstream high-water and atomicity are C15, C17 and C18; canonical
  JSON, parsing and signatures C19 to C22 and C24; source identities C27; rate limits and tokens
  C28, C29 and C31; private files C30. The service: an admissible submission is committed
  (C32) and no other reaches the store (C33); the log and the records of a query can be read to their end through
  cursors (C34, C10), which are bound to their query and boundary (C35). Imports add only
  authenticated records (C36), exports verify (C37), and key rotation with crashes never
  unpublishes a key in use (C38). Administration: the service starts from every home those
  operations can leave (C5), issuing a token replaces that of one auditor (C11), a backup
  verifies and a rollback is detected (C25), an old database is migrated whatever crashes
  happen on the way (C23), while the creation of a new one is not resumable (C16).

  C16, C26 and the lemmas \<open>AppErrors.since_overflow\<close>, \<open>Cli.issue_token_surrogate\<close> and
  \<open>Verifier.stop_after_refused_start\<close> show faults of the code: a database whose creation was interrupted is refused for good, importing a record
  that the upstream had itself imported makes the importer's own integrity check fail, an
  oversized \<open>since\<close> is answered 500, an organisation that is not UTF-8 makes the auditors
  file unreadable, and stopping a verifier whose thread the system refused raises.

  The contracts are locales, interpreted on the model: \<open>incremental\<close> (the Merkle
  frontier against the tree), \<open>log_writer\<close> (every writer of the store extends the abstract
  log), \<open>paged_read\<close> (both paged reads) and \<open>step_invariant\<close> (the background pass twice, the verifier threads, the key directory).

  \<^bold>\<open>Bounds.\<close> SQLite integers are 64-bit: values are bound through \<open>bind_ints\<close>, which raises
  \<open>OverflowError\<close> outside, and the log is kept below \<open>2 ^ 63\<close> entries; the frontier lemmas need
  \<open>2 ^ 64\<close>. JSON integers in signed documents stay below \<open>2 ^ 53\<close> (\<open>MAX_SAFE_INTEGER\<close>). Issued
  cursors are shown to fit the 4096 characters that are accepted. The client loop
  \<open>follow_pages\<close> takes fuel; one more than the number of entries is enough, because every page
  but the last delivers at least one. Nesting is bounded by \<open>MAX_JSON_DEPTH\<close>. Clocks are
  arguments: monotonic time a rational, wall time an integer.

  \<^bold>\<open>Parameters.\<close> Ed25519 and PEM (the cryptography package), the result of SQLite's own
  \<open>PRAGMA integrity_check\<close>, the system calls on files and their permissions, generated keys, clock
  readings, and what FastAPI and the ASGI server do before a handler runs.

  \<^bold>\<open>Not modelled.\<close> The foreign-function calls by which \<open>permissions.py\<close> reads and sets Windows
  access control lists (their results are), argument parsing, printing
  and the loopback test of \<open>cli.py\<close>, the run of the server, audit logging and the texts of error
  messages, SQLite connection settings, the deadline of long operations, and fairness of the
  thread scheduler. What opening a backup candidate writes into its own file is not
  followed. The commands and the start open a database of the current schema
  (\<open>Upgrade.construct_current\<close>); older files are the subject of \<open>Upgrade\<close>.
\<close>


section \<open>The log\<close>

text \<open>
  C1 (refinement). On a store whose tables are those of the abstract log \<open>es\<close>, with writes
  allowed, \<open>Store.append\<close> either refuses the record with the error of its own checks and
  changes nothing, or commits it as entry \<open>length es + 1\<close>: the answer carries that sequence
  number, the head of the old log as previous hash and the head of the new log as entry
  hash, and the tables (log, boundaries, Merkle frontier, ledgers) are those of the
  extended log. The anchor checks of the append never fail on such a store.
\<close>

theorem append_refines_log:
  assumes "store_ok s es" "length es + 1 < 2 ^ 63" "value_ok r t" "require_writes_allowed now s = Inr ()"
  shows "(\<exists>e. admit r t = Inl e \<and> append now r t s = (Inl e, s)) \<or>
    (\<exists>b entry s'. admit r t = Inr b \<and> append now r t s = (Inr entry, s') \<and> store_ok s' (es @ [(r, t)]) \<and>
      e_seq entry = int (length es) + 1 \<and> e_prev_hash entry = head_of (leaves es) \<and>
      e_entry_hash entry = head_of (leaves (es @ [(r, t)])) \<and> e_record entry = r)"
proof (cases "admit r t")
  case (Inl e)
  then show ?thesis using append_store_ok [OF assms] by simp
next
  case (Inr b)
  from append_commits [OF assms Inr] show ?thesis
    using entry_at_head [of es r t] by (auto simp: Inr) (auto simp: entry_at_def)
qed

theorem append_refines_log_witness:
  "\<exists>entry s'. append 0 sample_record sample_utc sample_store = (Inr entry, s') \<and> e_seq entry = 1 \<and>
    store_ok s' [(sample_record, sample_utc)]"
  using append_refines_log [OF sample_store_ok(2) _ sample_value_ok sample_store_writable] sample_admitted by auto





text \<open>
  C4 (equivalence). Appending a leaf to the stored Merkle frontier gives the frontier of the
  longer list, and its top is the root that \<open>_merkle_root\<close> computes over all leaves from
  scratch, for every log below 2 to the 64.
\<close>

theorem incremental_merkle_root:
  assumes "length xs < 2 ^ 64"
  shows "\<exists>top. frontier_append (frontier_of xs) x = Inr (frontier_of (xs @ [x]), top) \<and>
    merkle_root (map hex (xs @ [x])) = Inr (hex top)"
  using frontier_append_snoc [OF assms, of x] merkle_root_hex [of "xs @ [x]"] by simp

theorem incremental_merkle_root_witness:
  "\<exists>top. frontier_append (frontier_of [[1], [2]]) [3] = Inr (frontier_of [[1], [2], [3]], top) \<and>
    merkle_root (map hex [[1], [2], [3]]) = Inr (hex top)"
  using incremental_merkle_root [of "[[1], [2]]" "[3]"] by simp

text \<open>
  What an append saves of the frontier is what the next append loads: after
  any commit the stored frontier of the tables decodes to the frontier of the committed
  leaves.
\<close>

theorem frontier_survives_storage:
  assumes "store_ok s es"
  shows "load_frontier (st_db s) = Inr (frontier_of (leaves es)) \<and>
    load_frontier (save_frontier (frontier_of (leaves es)) d) = Inr (frontier_of (leaves es))"
proof -
  have "load_frontier (st_db s) = Inr (frontier_of (leaves es))"
    using assms load_frontier_ok by (simp add: store_ok_def db_ok_def)
  moreover have "load_frontier (save_frontier (frontier_of (leaves es)) d) = load_frontier (st_db s)"
    using assms by (simp add: store_ok_def db_ok_def tables_ok_def load_frontier_def save_frontier_def)
  ultimately show ?thesis by simp
qed

theorem frontier_survives_storage_witness:
  "load_frontier (st_db (sample_committed sample_utc)) = Inr (frontier_of (leaves [(sample_record, sample_utc)]))"
  using frontier_survives_storage [OF sample_committed_ok] by simp


section \<open>Verification and the latch\<close>

text \<open>
  No false alarm: from a store with intact tables, under every interleaving of
  writers with the two phases of background passes, the store stays ready, is never
  latched, and its log still extends the one it started with.
\<close>

theorem no_false_alarm:
  assumes "store_ok s es" "health_ready s" "\<not> integrity_failed s" "(pass_step [''ok''])\<^sup>*\<^sup>* (s, None) (s', p)"
  shows "\<not> integrity_failed s' \<and> health_ready s' \<and> (\<exists>new. store_ok s' (es @ new))"
proof -
  have "\<exists>new. store_ok s (es @ new)" using assms(1) by (intro exI [of _ "[]"]) simp
  with assms(2,3) have "pass_inv es (s, None)" unfolding pass_inv_def by simp
  from intact.run_preserves [OF assms(4) this] show ?thesis by (auto simp: pass_inv_def)
qed

theorem no_false_alarm_witness:
  "\<not> integrity_failed (snd (publish_pass 5 sample_utc (walk_pass [''ok''] (st_db sample_store)) (sample_committed sample_utc)))"
proof -
  have 1: "pass_step [''ok''] (sample_store, None) (sample_store, Some (walk_pass [''ok''] (st_db sample_store)))"
    using sample_store_ok(4) by (rule begin_pass)
  have "operation_ok (OpAppend 0 sample_record sample_utc)" using sample_value_ok by simp
  from writer [OF this, of sample_store] have
    2: "pass_step [''ok''] (sample_store, Some e) (sample_committed sample_utc, Some e)" for e
    using sample_store_ok(1) by (simp add: sample_committed_def new_db_def)
  note 3 = end_pass [of "[''ok'']" "sample_committed sample_utc" _ 5 sample_utc]
  have "(pass_step [''ok''])\<^sup>*\<^sup>* (sample_store, None)
      (snd (publish_pass 5 sample_utc (walk_pass [''ok''] (st_db sample_store)) (sample_committed sample_utc)), None)"
    by (rule converse_rtranclp_into_rtranclp, rule 1, rule converse_rtranclp_into_rtranclp, rule 2,
        rule converse_rtranclp_into_rtranclp, rule 3, rule rtranclp.rtrancl_refl)
  then show ?thesis using no_false_alarm [OF sample_store_ok(2,3,4)] by blast
qed



text \<open>
  The latch is permanent for the process: once the integrity latch is set, no
  sequence of writers and passes changes the store, every write is refused with a
  \<open>StoreIntegrityError\<close>, and the verdict reported at any time is not ready.
\<close>

theorem latch_is_permanent:
  assumes "integrity_failed s" "\<not> health_ready s" "(pass_step pragma)\<^sup>*\<^sup>* (s, p) (s', p')"
  shows "s' = s \<and> \<not> v_ready (health_verdict now s') \<and>
    (\<exists>m. append now r t s' = (Inl (StoreIntegrityError m), s'))"
proof -
  have "s' = s" using latched_forever [OF assms(3)] assms(1) by simp
  then show ?thesis
    using assms append_refused [OF writes_refused_latched [OF assms(1)]] by (simp add: health_verdict_def)
qed

theorem latch_is_permanent_witness:
  "\<exists>m. append 7 [] [] (latch_integrity_failure 0 ''fault'' sample_store) =
    (Inl (StoreIntegrityError m), latch_integrity_failure 0 ''fault'' sample_store)"
  using latch_is_permanent [of "latch_integrity_failure 0 ''fault'' sample_store" "[''ok'']" None _ None 7 "[]" "[]"]
    sample_store_ok(4) by (simp add: latch_integrity_failure_def)

text \<open>
  Detected corruption stops the registry: when the walk of a pass finds a
  problem, publishing that pass latches the store whatever was committed meanwhile, and from
  then on no operation changes the tables.
\<close>

theorem detected_fault_latches:
  assumes "walk_pass pragma d \<noteq> []"
    and "publish_pass now utc (walk_pass pragma d) s = (verdict, s')"
  shows "integrity_failed s' \<and> (\<not> integrity_failed s \<longrightarrow> \<not> v_ready verdict \<and> \<not> health_ready s') \<and>
    run_operation i s' = s'"
proof (cases "integrity_failed s")
  case True
  with assms(2) show ?thesis by (auto simp: publish_pass_def latched_refuses)
next
  case False
  from failed_pass_latches [OF assms(1) False, of now utc] assms(2) show ?thesis
    by (simp add: latched_refuses)
qed

theorem detected_fault_latches_witness:
  "\<exists>verdict s'. publish_pass 1 sample_utc (walk_pass [''page 3 is corrupt''] (new_db sample_utc)) sample_store = (verdict, s') \<and>
    integrity_failed s'"
proof -
  obtain v s' where p: "publish_pass 1 sample_utc (walk_pass [''page 3 is corrupt''] (new_db sample_utc)) sample_store = (v, s')"
    by force
  have "walk_pass [''page 3 is corrupt''] (new_db sample_utc) \<noteq> []"
    by (simp add: walk_pass_def integrity_errors_on_def new_db_def)
  from detected_fault_latches [OF this p] p show ?thesis by blast
qed

text \<open>
  C7 (safety). Detected corruption stops the registry for the life of the process: when the
  walk of a pass found a problem, publishing that pass reports not ready and latches the store whatever
  was committed meanwhile, and then, whatever callers, writers and threads do, the store
  stays exactly as it was, the verdict at any time is not ready and every append is refused with
  a \<open>StoreIntegrityError\<close>.
\<close>

theorem detected_fault_stops_for_good:
  assumes "walk_pass pragma d \<noteq> []" "\<not> integrity_failed s"
    and "publish_pass now utc (walk_pass pragma d) s = (verdict, s')"
    and "verifier_run pragma' ms (v, s') (v', s'')"
  shows "\<not> v_ready verdict \<and> st_db s' = st_db s \<and> s'' = s' \<and> \<not> v_ready (health_verdict later s'') \<and>
    (\<exists>m. append later r t s'' = (Inl (StoreIntegrityError m), s''))"
proof -
  from failed_pass_latches [OF assms(1,2), of now utc] assms(3)
  have latched: "integrity_failed s'" "\<not> health_ready s'" "\<not> v_ready verdict" by simp_all
  have "s'' = s'" using run_latched [OF assms(4)] latched(1) by simp
  moreover have "st_db s' = st_db s"
    using assms(3) by (auto simp: publish_pass_def Let_def split: if_splits sum.splits list.splits)
  ultimately show ?thesis
    using latched append_refused [OF writes_refused_latched [OF latched(1)]] by (simp add: health_verdict_def)
qed

theorem detected_fault_stops_for_good_witness:
  "\<exists>verdict s'. publish_pass 1 sample_utc (walk_pass [''page 3 is corrupt''] (new_db sample_utc)) sample_store = (verdict, s') \<and>
    \<not> v_ready verdict \<and> \<not> v_ready (health_verdict 9 s')"
proof -
  obtain v s' where p: "publish_pass 1 sample_utc (walk_pass [''page 3 is corrupt''] (new_db sample_utc)) sample_store = (v, s')"
    by force
  have "walk_pass [''page 3 is corrupt''] (new_db sample_utc) \<noteq> []"
    by (simp add: walk_pass_def integrity_errors_on_def new_db_def)
  from detected_fault_stops_for_good [OF this sample_store_ok(4) p run_nil] p show ?thesis by blast
qed

text \<open>
  C8 (liveness). Stopping the verifier works whenever it is called: after any history and
  whatever happens next, a thread that exists at that moment makes at most five more moves, and as long as
  it is alive it can make one. Meanwhile the verifier reports that it is not running and starting it does
  nothing, as documented; once no thread is alive, a start leaves a running verifier.
\<close>

theorem stopped_verifier_ends:
  assumes "verifier_run pragma ms (new_verifier, s) (v, s')" "t < length (verifier_threads v)"
    and "verifier_run pragma ms' (snd (stop_request v), s') (v', s'')"
  shows "count_list ms' (Some t) \<le> 5 \<and>
    (if is_alive (verifier_threads v' ! t)
     then (\<exists>x. verifier_step pragma (Some t) (v', s'') x) \<and> \<not> health_verifier_running v' \<and>
       start_health_verifier created v' = (Inr (), v')
     else (\<forall>u < length (verifier_threads v'). u \<noteq> t \<longrightarrow> \<not> is_alive (verifier_threads v' ! u)) \<longrightarrow>
       fst (start_health_verifier True v') = Inr () \<and> health_verifier_running (snd (start_health_verifier True v')))"
proof -
  have ok: "verifier_ok v" using verifier_ok_run [OF assms(1)] by simp
  have ok': "verifier_ok v'" using verifier_ok_run [OF assms(3)] verifier_ok_stop [OF ok] by simp
  from stopping_run [OF assms(3), of t] stop_request_stopping [OF ok assms(2)] verifier_ok_stop [OF ok]
  have st: "stopping t v'" and count: "count_list ms' (Some t) + moves_left (verifier_threads v' ! t) \<le>
      moves_left (verifier_threads (snd (stop_request v)) ! t)" by auto
  have "count_list ms' (Some t) \<le> 5"
    using count moves_left_bound [of "verifier_threads (snd (stop_request v)) ! t"] by linarith
  moreover have "\<exists>x. verifier_step pragma (Some t) (v', s'') x" if "is_alive (verifier_threads v' ! t)"
    using alive_can_move [OF that, of pragma "verifier_stop v'" s''] moves st by (fastforce simp: stopping_def)
  moreover have "fst (start_health_verifier True v') = Inr () \<and> health_verifier_running (snd (start_health_verifier True v'))"
    if "\<not> is_alive (verifier_threads v' ! t)" "\<forall>u < length (verifier_threads v'). u \<noteq> t \<longrightarrow> \<not> is_alive (verifier_threads v' ! u)"
    using that registered_exists [OF ok'] by (intro start_runs) metis
  ultimately show ?thesis using draining [OF ok' st] by auto
qed

theorem stopped_verifier_ends_witness:
  "\<exists>v' s''. verifier_run [''ok''] [Some 0] (snd (stop_request (snd (start_health_verifier True new_verifier))), sample_store) (v', s'') \<and>
    fst (start_health_verifier True v') = Inr () \<and> health_verifier_running (snd (start_health_verifier True v'))"
proof -
  let ?v = "snd (start_health_verifier True new_verifier)"
  let ?w = "\<lambda>p. \<lparr>verifier_thread = Some 0, verifier_stop = True, verifier_threads = [p], verifier_joins = [0]\<rparr>"
  have v: "?v = \<lparr>verifier_thread = Some 0, verifier_stop = False, verifier_threads = [Looping], verifier_joins = []\<rparr>"
    by (simp add: new_verifier_def start_health_verifier_def fresh_thread_def)
  then have stop: "snd (stop_request ?v) = ?w Looping" and len: "0 < length (verifier_threads ?v)" by (simp_all add: stop_request_def)
  have "verifier_step [''ok''] None (new_verifier, sample_store) (?v, sample_store)" by (rule starts)
  from run_step [OF run_nil this] have 1: "verifier_run [''ok''] [None] (new_verifier, sample_store) (?v, sample_store)" by simp
  have "verifier_step [''ok''] (Some 0) (?w Looping, sample_store) (?w Finished, sample_store)"
    using moves [of 0 "?w Looping" "[''ok'']" sample_store sample_store Finished] by simp
  from run_step [OF run_nil this]
  have 2: "verifier_run [''ok''] [Some 0] (snd (stop_request ?v), sample_store) (?w Finished, sample_store)" by (simp add: stop)
  from stopped_verifier_ends [OF 1 len 2]
  have "fst (start_health_verifier True (?w Finished)) = Inr () \<and> health_verifier_running (snd (start_health_verifier True (?w Finished)))"
    by simp
  with 2 show ?thesis by blast
qed



section \<open>Reading at a boundary\<close>

text \<open>
  C9 (functional). For parameters that fit the storage's integers, a page of the log served at the boundary of the first \<open>n\<close> entries is
  exactly the requested slice of those entries, with \<open>more\<close> telling whether entries remain;
  and the same request is answered with the same page after any further history.
\<close>

theorem log_page_at_boundary:
  assumes "store_ok s es" "n \<le> length es" "snapshot_boundary (Some (int n)) s = Inr b"
    and "\<forall>i \<in> set is. operation_ok i" "length es + sum_list (map operation_weight is) < 2 ^ 63"
    and "bind_ints [since, int limit + 1, int offset] = Inr ()"
  shows "log_page since limit offset None (Some b) (st_db s) =
      Inr (take limit (drop offset (view_between es since n)), length (view_between es since n) > offset + limit) \<and>
    log_page since limit offset None (Some b) (st_db (fold run_operation is s)) =
      log_page since limit offset None (Some b) (st_db s)"
proof -
  have d: "db_ok (st_db s) es" using assms(1) by (simp add: store_ok_def)
  have b: "b = boundary_spec (created_of (st_db s)) es n"
    using assms(2,3) snapshot_boundary_ok [OF d, of "Some (int n)"] by (simp add: snapshot_boundary_def)
  note page = log_page_ok [OF d assms(2,6), folded b]
  show ?thesis using page store_writer.run_log_page [OF assms(1,4,5) page] by simp
qed

theorem log_page_at_boundary_witness:
  "\<exists>b. snapshot_boundary (Some 1) (sample_committed sample_utc) = Inr b \<and>
    log_page 0 10 0 None (Some b) (st_db (run_operation (OpAppend 1 sample_record sample_later) (sample_committed sample_utc))) =
    Inr (view_between [(sample_record, sample_utc)] 0 1, False)"
proof -
  have ok: "store_ok (sample_committed sample_utc) [(sample_record, sample_utc)]" by (rule sample_committed_ok) simp
  then obtain b where b: "snapshot_boundary (Some (int 1)) (sample_committed sample_utc) = Inr b"
    using snapshot_boundary_ok [of "st_db (sample_committed sample_utc)" _ "Some 1"]
    by (auto simp: snapshot_boundary_def store_ok_def)
  have "\<forall>i \<in> set [OpAppend 1 sample_record sample_later]. operation_ok i" using sample_later_ok(1) by simp
  from log_page_at_boundary [OF ok _ b this, of 0 10 0] b show ?thesis
    by (auto simp: view_between_def bind_ints_def)
qed

text \<open>
  A page of the record query served at a boundary is answered identically after
  any further history: a cursor never sees records newer than its boundary.
\<close>

theorem records_page_at_boundary:
  assumes "store_ok s es" "\<forall>i \<in> set is. operation_ok i" "length es + sum_list (map operation_weight is) < 2 ^ 63"
    and "records_page si c h hv limit offset None (Some b) (st_db s) = Inr page"
  shows "records_page si c h hv limit offset None (Some b) (st_db (fold run_operation is s)) = Inr page"
  by (rule store_writer.run_records_page [OF assms])

theorem records_page_at_boundary_witness:
  "\<exists>b. snapshot_boundary None sample_store = Inr b \<and>
    records_page [] [] [97] None 10 0 None (Some b) (st_db (sample_committed sample_utc)) = Inr ([], False)"
proof -
  have d: "db_ok (new_db sample_utc) []" using sample_utc_ok by (rule new_db_ok)
  let ?b = "boundary_spec (created_of (new_db sample_utc)) [] 0"
  have b: "snapshot_boundary None sample_store = Inr ?b"
    using snapshot_boundary_ok [OF d, of None] sample_store_ok(1) by (simp add: snapshot_boundary_def)
  have "records_page [] [] [97] None 10 0 None (Some ?b) (st_db sample_store) = Inr ([], False)"
    using page_boundary_ok [OF d, of 0] sample_store_ok(1)
    by (simp add: records_page_def record_rows_def new_db_def bind_ints_def bind_texts_def surrogate_def)
  moreover have "\<forall>i \<in> set [OpAppend 0 sample_record sample_utc]. operation_ok i" using sample_value_ok by simp
  ultimately have "records_page [] [] [97] None 10 0 None (Some ?b)
      (st_db (fold run_operation [OpAppend 0 sample_record sample_utc] sample_store)) = Inr ([], False)"
    by (intro records_page_at_boundary [OF sample_store_ok(2)]) simp_all
  then show ?thesis using b by (simp add: sample_committed_def)
qed

text \<open>
  Consecutive pages partition the view: reading pages \<open>0, limit, 2 * limit, ...\<close>
  at one boundary and concatenating them gives every entry of the boundary once and in
  order, and the \<open>more\<close> flag of a page is set exactly when a later page has entries.
\<close>

theorem log_pages_partition:
  assumes "store_ok s es" "n \<le> length es" "snapshot_boundary (Some (int n)) s = Inr b"
    and "n \<le> m * limit"
    and "\<And>k. k < m \<Longrightarrow> log_page since limit (k * limit) None (Some b) (st_db s) = Inr (page k, left k)"
  shows "concat (map page [0..<m]) = view_between es since n \<and>
    (\<forall>k < m. left k \<longleftrightarrow> drop ((k + 1) * limit) (view_between es since n) \<noteq> [])"
proof -
  have d: "db_ok (st_db s) es" using assms(1) by (simp add: store_ok_def)
  have b: "b = boundary_spec (created_of (st_db s)) es n"
    using assms(2,3) snapshot_boundary_ok [OF d, of "Some (int n)"] by (simp add: snapshot_boundary_def)
  have p: "page k = take limit (drop (k * limit) (view_between es since n))"
    "left k \<longleftrightarrow> length (view_between es since n) > k * limit + limit" if "k < m" for k
    using assms(5) [OF that] log_page_ok [OF d assms(2) log_page_fits [OF assms(5) [OF that]], folded b] by auto
  have pages: "map page [0..<m] = map (\<lambda>k. take limit (drop (k * limit) (view_between es since n))) [0..<m]"
    by (rule map_cong) (simp_all add: p)
  have "length (view_between es since n) \<le> n"
    using length_filter_le [of "\<lambda>i. since < int (i + 1)" "[0..<n]"] by (simp add: view_between_def)
  then show ?thesis
    unfolding pages concat_pages using assms(4) p(2) by (auto simp: add.commute)
qed

theorem log_pages_partition_witness:
  "\<exists>b page. snapshot_boundary (Some 1) (sample_committed sample_utc) = Inr b \<and>
    (\<forall>k < 2. log_page 0 1 k None (Some b) (st_db (sample_committed sample_utc)) = Inr (page k, False)) \<and>
    concat (map page [0..<2]) = view_between [(sample_record, sample_utc)] 0 1"
proof -
  let ?es = "[(sample_record, sample_utc)]"
  have ok: "store_ok (sample_committed sample_utc) ?es" by (rule sample_committed_ok) simp
  then have d: "db_ok (st_db (sample_committed sample_utc)) ?es" by (simp add: store_ok_def)
  define b where "b = boundary_spec (created_of (st_db (sample_committed sample_utc))) ?es 1"
  define page where "page k = take 1 (drop k (view_between ?es 0 1))" for k
  have b: "snapshot_boundary (Some (int 1)) (sample_committed sample_utc) = Inr b"
    using snapshot_boundary_ok [OF d, of "Some 1"] by (simp add: snapshot_boundary_def b_def)
  have "length (view_between ?es 0 1) = 1" by (simp add: view_between_def)
  then have p: "log_page 0 1 (k * 1) None (Some b) (st_db (sample_committed sample_utc)) = Inr (page k, False)" if "k < 2" for k
    using that log_page_ok [OF d, of 1 0 1 k] by (simp add: b_def page_def bind_ints_def)
  from log_pages_partition [OF ok _ b, of 2 1 0 page "\<lambda>_. False", OF _ _ p] b p show ?thesis by auto
qed




section \<open>Startup\<close>

text \<open>
  C13 (functional). Startup accepts an intact database and rebuilds what the log determines:
  with any subset of the boundary cache missing and the Merkle frontier lost, the startup
  verification restores exactly the tables of the log and opens a ready store on them.
\<close>

theorem startup_rebuilds_caches:
  assumes "db_ok d es" "0 < interval"
  shows "ensure_boundaries (d\<lparr>db_boundaries := filter keep (db_boundaries d), db_frontier := []\<rparr>) = Inr d \<and>
    (\<exists>s. open_verified [''ok''] interval now utc (d\<lparr>db_boundaries := filter keep (db_boundaries d), db_frontier := []\<rparr>) = Inr s \<and>
      st_db s = d \<and> store_ok s es \<and> health_ready s \<and> \<not> integrity_failed s)"
proof -
  let ?d = "d\<lparr>db_boundaries := filter keep (db_boundaries d), db_frontier := []\<rparr>"
  have e: "ensure_boundaries ?d = Inr d" by (rule ensure_boundaries_rebuilds [OF assms(1)])
  have lr: "log_row_at ?d = log_row_at d" by (simp add: fun_eq_iff log_row_at_def)
  have "idempotency_issues ?d hs row = idempotency_issues d hs row" "imported_issues ?d m = imported_issues d m" for hs row m
    unfolding idempotency_issues_def imported_issues_def lr by (rule refl)+
  then have "idempotency_issues ?d = idempotency_issues d" "imported_issues ?d = imported_issues d" by blast+
  moreover have "foreign_key_issues ?d = foreign_key_issues d" "metadata_issues ?d = metadata_issues d"
    unfolding foreign_key_issues_def metadata_issues_def lr by simp_all
  ultimately have "integrity_errors_on [''ok''] ?d = integrity_errors_on [''ok''] d"
    by (simp add: integrity_errors_on_def)
  then have "open_verified [''ok''] interval now utc ?d = open_verified [''ok''] interval now utc d"
    unfolding open_verified_def e ensure_boundaries_ok [OF assms(1)] by simp
  then show ?thesis using open_verified_ok [OF assms, of now utc] e by simp
qed

theorem startup_rebuilds_caches_witness:
  "ensure_boundaries ((st_db (sample_committed sample_utc))\<lparr>db_boundaries := [], db_frontier := []\<rparr>) =
    Inr (st_db (sample_committed sample_utc))"
proof -
  have "db_ok (st_db (sample_committed sample_utc)) [(sample_record, sample_utc)]"
    using sample_committed_ok by (simp add: store_ok_def)
  from startup_rebuilds_caches [OF this, of 1 "\<lambda>_. False"] show ?thesis by simp
qed

text \<open>
  C14 (safety). The startup checkpoint of the registry's own past always passes: a
  checkpoint taken from any earlier boundary of the log leaves the store as it is. A
  checkpoint above the log is refused as a rollback and latches the store.
\<close>

theorem checkpoint_of_own_history:
  assumes "store_ok s es" "n \<le> length es"
    and "c_version c = int n \<and> c_log_size c = int n \<and> c_head c = sb_head (boundary_spec (created_of (st_db s)) es n) \<and>
      c_merkle_root c = sb_merkle_root (boundary_spec (created_of (st_db s)) es n)"
    and "int (length es) < c_version c'" "\<not> integrity_failed s"
  shows "apply_startup_checkpoint now c s = (Inr None, s) \<and>
    (\<exists>s'. apply_startup_checkpoint now c' s = (Inr (Some ''restore_below_checkpoint''), s') \<and>
      integrity_failed s' \<and> \<not> health_ready s' \<and> health_code s' = ''restore_below_checkpoint'' \<and> st_db s' = st_db s)"
proof
  have d: "db_ok (st_db s) es" using assms(1) by (simp add: store_ok_def)
  have v: "sb_version (boundary_spec x es k) = int k" for x k by (simp add: boundary_spec_def)
  have live: "snapshot_boundary_locked None (st_db s) = Inr (boundary_spec (created_of (st_db s)) es (length es))"
    using snapshot_boundary_ok [OF d, of None] by simp
  have past: "snapshot_boundary_locked (Some (int n)) (st_db s) = Inr (boundary_spec (created_of (st_db s)) es n)"
    using snapshot_boundary_ok [OF d, of "Some (int n)"] assms(2) by simp
  show "apply_startup_checkpoint now c s = (Inr None, s)"
    using assms(2,3) by (auto simp: apply_startup_checkpoint_def live past v compare_checkpoint_def)
  show "\<exists>s'. apply_startup_checkpoint now c' s = (Inr (Some ''restore_below_checkpoint''), s') \<and>
      integrity_failed s' \<and> \<not> health_ready s' \<and> health_code s' = ''restore_below_checkpoint'' \<and> st_db s' = st_db s"
    using assms(4,5)
    by (simp add: apply_startup_checkpoint_def live v compare_checkpoint_def refuse_startup_checkpoint_def
        REFUSAL_DIAGNOSTICS_def latch_integrity_failure_def)
qed

theorem checkpoint_of_own_history_witness:
  "apply_startup_checkpoint 0 \<lparr>c_version = 0, c_log_size = 0, c_head = GENESIS, c_merkle_root = GENESIS, c_created_at = []\<rparr>
    sample_store = (Inr None, sample_store)"
  using checkpoint_of_own_history [OF sample_store_ok(2), of 0
      "\<lparr>c_version = 0, c_log_size = 0, c_head = GENESIS, c_merkle_root = GENESIS, c_created_at = []\<rparr>"
      "\<lparr>c_version = 1, c_log_size = 1, c_head = GENESIS, c_merkle_root = GENESIS, c_created_at = []\<rparr>" 0] sample_store_ok(4)
  by (simp add: boundary_spec_def)


section \<open>Submission and import\<close>

text \<open>
  C15 (functional). A retried submission is answered with the response of the first one and
  appends nothing: after a committed idempotent append, the same auditor and key with the
  same body digest get the stored response marked as a replay for the whole retention
  period, whatever record the retry carries, and the log is untouched.
\<close>

theorem retry_is_replayed:
  assumes "store_ok s es" "length es + 2 < 2 ^ 63" "value_ok r t"
    and "append_idempotent m r a k body t now ttl s = (Inr (resp, False), s1)"
    and "now' < now + ttl" "require_writes_allowed m' s1 = Inr ()" "24 * 3600 \<le> ttl'"
  shows "\<exists>s2. append_idempotent m' r' a k body t' now' ttl' s1 = (Inr (resp, True), s2) \<and>
    db_log (st_db s2) = db_log (st_db s1) \<and> db_boundaries (st_db s2) = db_boundaries (st_db s1)"
  using replay_after_append [OF assms] by (simp add: submitted_def)

theorem retry_is_replayed_witness:
  "\<exists>resp s1 s2. sample_submit = (Inr (resp, False), s1) \<and>
    append_idempotent 0 [] (lit ''alice'') (lit ''key-1'') sample_digest [] 93599 86400 s1 = (Inr (resp, True), s2) \<and>
    db_log (st_db s2) = db_log (st_db s1)"
proof -
  obtain resp s1 where s1: "sample_submit = (Inr (resp, False), s1)" "require_writes_allowed 0 s1 = Inr ()"
    using sample_submit_ok by blast
  from retry_is_replayed [OF sample_store_ok(2) _ sample_value_ok s1(1) [unfolded sample_submit_def] _ s1(2), of 93599 86400 "[]" "[]"]
  obtain s2 where "append_idempotent 0 [] (lit ''alice'') (lit ''key-1'') sample_digest [] 93599 86400 s1 = (Inr (resp, True), s2)"
    "db_log (st_db s2) = db_log (st_db s1)" by auto
  with s1(1) show ?thesis by blast
qed

text \<open>
  An unexpired key presented with another body digest is a conflict and changes
  nothing; an expired entry does not count.
\<close>

theorem reused_key_conflicts:
  assumes "store_ok s es" "length es + 1 < 2 ^ 63" "submission_args a k body ttl" "require_writes_allowed m s = Inr ()"
    and "bind_texts [a, k] = Inr ()"
    and "row \<in> set (db_idempotency (st_db s))" "i_auditor_id row = a" "i_key row = k"
    and "now < i_expires_at row" "i_body_sha256 row \<noteq> body"
  shows "append_idempotent m r a k body t now ttl s = (Inl IdempotencyConflict, s)"
proof -
  have "distinct (map (\<lambda>r. (i_auditor_id r, i_key r)) (db_idempotency (st_db s)))"
    using assms(1) by (simp add: store_ok_def db_ok_def ledgers_ok_def)
  then have "find_idempotency a k (submitted s now) = Some row"
    using assms(6-9) unfolding find_idempotency_def submitted_def
    by (intro find_unique) (auto simp: distinct_map inj_on_def)
  then show ?thesis using assms(5,10) by (simp add: append_idempotent_spec [OF assms(1-4)])
qed

theorem reused_key_conflicts_witness:
  "\<exists>resp s1. sample_submit = (Inr (resp, False), s1) \<and>
    append_idempotent 0 [] (lit ''alice'') (lit ''key-1'') (replicate 64 98) [] 93599 86400 s1 = (Inl IdempotencyConflict, s1)"
proof -
  obtain resp s1 row where s1: "sample_submit = (Inr (resp, False), s1)" "store_ok s1 [(sample_record, sample_utc)]"
    "require_writes_allowed 0 s1 = Inr ()" and row: "row \<in> set (db_idempotency (st_db s1))" "i_auditor_id row = lit ''alice''"
    "i_key row = lit ''key-1''" "i_expires_at row = 93600" "i_body_sha256 row = sample_digest"
    using sample_submit_ok by blast
  have args: "submission_args (lit ''alice'') (lit ''key-1'') (replicate 64 98) 86400" by code_simp
  from reused_key_conflicts [OF s1(2) _ args s1(3) sample_texts row(1-3), of 93599 "[]" "[]"] row(4,5)
  have "append_idempotent 0 [] (lit ''alice'') (lit ''key-1'') (replicate 64 98) [] 93599 86400 s1 = (Inl IdempotencyConflict, s1)"
    by (simp add: sample_digest_def)
  with s1(1) show ?thesis by blast
qed

text \<open>
  C17 (safety). Rollback protection of federation: a successful upstream import never lowers
  the persisted high-water of any upstream; it moves that of the offering upstream only to
  the offer, only when the offer is strictly newer (or the first), and an offer that is
  older, or equal with another body, is refused with the tables unchanged unless the
  operator accepts older ones, which no body mismatch can use.
\<close>

theorem high_water_monotone:
  assumes "append_upstream_import now records t offered older s = (result, s')"
  shows "(case get_upstream_high_water (st_db s) k of
       None \<Rightarrow> True
     | Some c \<Rightarrow> (\<exists>c'. get_upstream_high_water (st_db s') k = Some c' \<and> (c' = c \<or> hw_version c < hw_version c'))) \<and>
    (case get_upstream_high_water (st_db s) (hw_key_id offered) of
       None \<Rightarrow> True
     | Some c \<Rightarrow>
        ((hw_version offered < hw_version c \<and> \<not> older) \<or>
         (hw_version offered = hw_version c \<and> (hw_head offered \<noteq> hw_head c \<or> hw_merkle_root offered \<noteq> hw_merkle_root c \<or> hw_log_size offered \<noteq> hw_log_size c)) \<longrightarrow>
          (\<exists>e. result = Inl e) \<and> st_db s' = st_db s))"
proof (cases result)
  case (Inl e)
  then have "st_db s' = st_db s" using assms append_upstream_import_Inl by blast
  then show ?thesis using Inl by (auto split: option.splits)
next
  case (Inr r)
  note i = append_upstream_import_Inr [OF assms [unfolded Inr]]
  have d: "import_decision (get_upstream_high_water (st_db s) (hw_key_id offered)) offered older = Inr (r_outcome r)"
    using i by blast
  show ?thesis
    using import_decision_cases [OF d] i [of k] by (auto split: option.splits)
qed

theorem high_water_monotone_witness:
  "\<exists>result s'. append_upstream_import 0 [] sample_utc
     \<lparr>hw_key_id = [97], hw_version = 2, hw_log_size = 2, hw_head = GENESIS, hw_merkle_root = GENESIS, hw_updated_at = sample_utc\<rparr> False
     (sample_store\<lparr>st_db := (new_db sample_utc)\<lparr>db_high_water :=
       [\<lparr>hw_key_id = [97], hw_version = 3, hw_log_size = 3, hw_head = GENESIS, hw_merkle_root = GENESIS, hw_updated_at = sample_utc\<rparr>]\<rparr>\<rparr>) =
     (result, s') \<and> (\<exists>e. result = Inl e)"
proof -
  let ?w = "\<lambda>n. \<lparr>hw_key_id = [97 :: nat], hw_version = n, hw_log_size = n, hw_head = GENESIS, hw_merkle_root = GENESIS, hw_updated_at = sample_utc\<rparr>"
  let ?s = "sample_store\<lparr>st_db := (new_db sample_utc)\<lparr>db_high_water := [?w 3]\<rparr>\<rparr>"
  obtain result s' where r: "append_upstream_import 0 [] sample_utc (?w 2) False ?s = (result, s')" by force
  from high_water_monotone [OF r, of "[97]"] have "\<exists>e. result = Inl e"
    by (simp add: get_upstream_high_water_def)
  with r show ?thesis by blast
qed




section \<open>Canonical JSON and signatures\<close>

text \<open>
  C19 (equivalence). Canonical bytes identify a document: two documents that canonicalise
  have the same bytes exactly when they are equal up to the order of object keys. What is
  signed or chained is therefore the document and nothing else.
\<close>

theorem canonical_bytes_identify:
  assumes "dict_ok v" "dict_ok w" "canonical_document v = Inr b" "canonical_document w = Inr c"
  shows "b = c \<longleftrightarrow> sort_json v = sort_json w"
proof
  assume "b = c"
  with assms show "sort_json v = sort_json w" by (intro canonical_document_inj) simp_all
next
  assume "sort_json v = sort_json w"
  then have "json_dumps True v = json_dumps True w" by (simp add: json_dumps_sorted)
  with assms show "b = c" by (simp add: canonical_document_Inr)
qed

theorem canonical_bytes_identify_witness:
  "\<exists>b. canonical_document (JObj [(lit ''a'', JInt 1), (lit ''b'', JNull)]) = Inr b \<and>
    canonical_document (JObj [(lit ''b'', JNull), (lit ''a'', JInt 1)]) = Inr b"
proof -
  let ?v = "JObj [(lit ''a'', JInt 1), (lit ''b'', JNull)]" and ?w = "JObj [(lit ''b'', JNull), (lit ''a'', JInt 1)]"
  have ok: "dict_ok ?v" "dict_ok ?w" "sort_json ?v = sort_json ?w"
    by code_simp+
  have "case canonical_document ?v of Inr _ \<Rightarrow> True | Inl _ \<Rightarrow> False" "case canonical_document ?w of Inr _ \<Rightarrow> True | Inl _ \<Rightarrow> False"
    by code_simp+
  then obtain b c where "canonical_document ?v = Inr b" "canonical_document ?w = Inr c" by (auto split: sum.splits)
  with canonical_bytes_identify [OF ok(1,2)] ok(3) show ?thesis by blast
qed

text \<open>
  C20 (round trip). Reading canonical bytes back gives the document with its keys sorted,
  and canonicalising that gives the same bytes: canonical form is a fixed point of the
  reader and the writer.
\<close>

theorem canonical_round_trip:
  assumes "dict_ok v" "canonical_document v = Inr b"
  shows "load_json b = Inr (sort_json v) \<and> canonical_document (sort_json v) = Inr b"
proof -
  have "json_dumps True (sort_json v) = json_dumps True v"
    unfolding json_dumps_sorted sort_json_idem by (rule refl)
  then have "canonical_document (sort_json v) = Inr b"
    using assms(2) by (simp only: canonical_document_Inr [OF assms(1)] canonical_document_Inr [OF sort_json_dict_ok [OF assms(1)]]
        json_depth_sort_json ccj_leaves_sort_json simp_thms)
  with load_canonical [OF assms] show ?thesis by simp
qed

theorem canonical_round_trip_witness:
  "\<exists>b. canonical_document (JObj sample_record) = Inr b \<and> load_json b = Inr (sort_json (JObj sample_record))"
proof -
  obtain b where "canonical_document (JObj sample_record) = Inr b" using validate_recordD(8) [OF sample_validates] by blast
  with canonical_round_trip [OF sample_dict_ok this] show ?thesis by blast
qed

text \<open>
  C21 (type). \<open>load_json\<close> is total on arbitrary bytes: it returns a well-formed document (Unicode
  code points, distinct keys) that has a canonical form, or raises a \<open>ProtocolError\<close>; no
  other exception escapes.
\<close>

theorem load_json_total:
  "(\<exists>v b. load_json raw = Inr v \<and> dict_ok v \<and> canonical_document v = Inr b) \<or> (\<exists>e. load_json raw = Inl e \<and> is_ProtocolError e)"
proof (cases "load_json raw")
  case (Inl e)
  then show ?thesis using load_json_error by blast
next
  case (Inr v)
  then show ?thesis using load_json_canonical load_json_ok by blast
qed



text \<open>
  A record signed by a key verifies under the pinned form of that key, and
  signing changes nothing but the \<open>sig\<close> member.
\<close>

theorem signed_record_verifies:
  assumes "ed25519_ok E" "sign_record E k body = Inr r"
  shows "verify_signed E (public_pinned E k) r \<and> without (lit ''sig'') r = without (lit ''sig'') body"
  using verify_signed_sign_record [OF assms] assms(2) by (auto simp: sign_record_Inr)

theorem signed_record_verifies_witness:
  "\<exists>r. sign_record sample_keys 7 sample_body = Inr r \<and> verify_signed sample_keys (public_pinned sample_keys 7) r"
proof -
  have "case canonical_bytes sample_body of Inr _ \<Rightarrow> True | Inl _ \<Rightarrow> False" by code_simp
  then obtain r where "sign_record sample_keys 7 sample_body = Inr r"
    by (auto simp: sign_record_def bindE_def Let_def split: sum.splits)
  with signed_record_verifies [OF sample_keys_ok this] show ?thesis by blast
qed




section \<open>Records\<close>

text \<open>
  Validation is sufficient for storage: every record \<open>validate_record\<close>
  accepts passes all checks of the append, so on an intact writable store it is committed
  and never refused as non-appendable.
\<close>

theorem validated_record_is_appendable:
  assumes "validate_record (JObj r) = Inr r" "dict_ok (JObj r)" "timestamp t"
    and "store_ok s es" "length es + 1 < 2 ^ 63" "require_writes_allowed now s = Inr ()"
  shows "\<exists>entry s'. append now r t s = (Inr entry, s') \<and> store_ok s' (es @ [(r, t)])"
  using append_commits [OF assms(4,5) _ assms(6), of r t] validated_admitted [OF assms(1-3)]
  by (auto simp: entry_ok_iff)

theorem validated_record_is_appendable_witness:
  "\<exists>entry s'. append 0 sample_record sample_utc sample_store = (Inr entry, s')"
  using validated_record_is_appendable [OF sample_validates sample_dict_ok sample_utc_ok sample_store_ok(2) _ sample_store_writable]
  by auto

text \<open>Signing a valid record gives a valid record, whatever key signs.\<close>

lemma countersigned_record_is_valid:
  assumes "ed25519_ok E" "dict_ok (JObj body)" "validate_record (JObj body) = Inr body" "sign_record E k body = Inr r"
  shows "validate_record (JObj r) = Inr r \<and> verify_signed E (public_pinned E k) r"
  using validate_sign_record [OF assms] verify_signed_sign_record [OF assms(1,4)] by simp

text \<open>
  C27 (safety). An accepted source identity is a host followed by a relative path without
  empty, \<open>.\<close> or \<open>..\<close> segments: between any two slashes, and at the end, stands a real name.
\<close>

theorem source_identity_is_safe:
  assumes "validate_source_identity v = Inr s"
  shows "v = JStr s \<and> length s \<le> 4096 \<and> HOST (takeWhile (\<lambda>c. c \<noteq> 47) s) \<and> 47 \<in> set s \<and>
    (\<forall>w pre post. s @ [47] = pre @ 47 # w @ 47 # post \<longrightarrow> w \<notin> {[], lit ''.'', lit ''..''})"
proof -
  have "v = JStr s \<and> length s \<le> 4096 \<and> HOST (takeWhile (\<lambda>c. c \<noteq> 47) s) \<and> 47 \<in> set s"
    using assms by (auto simp: validate_source_identity_def Let_def split: json.splits if_splits)
  then show ?thesis using source_identity_segments [OF assms] by blast
qed

theorem source_identity_is_safe_witness: "HOST (takeWhile (\<lambda>c. c \<noteq> 47) (lit ''host.example/acme/demo''))"
proof -
  have "case validate_source_identity (JStr (lit ''host.example/acme/demo'')) of
      Inr x \<Rightarrow> x = lit ''host.example/acme/demo'' | Inl _ \<Rightarrow> False" by code_simp
  then have "validate_source_identity (JStr (lit ''host.example/acme/demo'')) = Inr (lit ''host.example/acme/demo'')"
    by (simp split: sum.splits)
  from source_identity_is_safe [OF this] show ?thesis by blast
qed


section \<open>Admission\<close>

text \<open>
  C28 (bounds). The limiter's memory is bounded: whatever keys and times arrive, the table
  never holds more than \<open>max_keys\<close> entries, one per key, and no counter leaves the range from
  1 to the request limit.
\<close>

theorem limiter_stays_bounded:
  assumes "new_limiter reqs window keys = Inr l"
  shows "limiter_ok (snd (allow_all trace l)) \<and> length (entries (snd (allow_all trace l))) \<le> nat keys"
proof -
  have "limiter_ok l \<and> max_keys l = nat keys"
    using assms by (auto simp: new_limiter_def limiter_ok_def split: if_splits)
  moreover from this have "limiter_ok (snd (allow_all trace l)) \<and> max_keys (snd (allow_all trace l)) = max_keys l"
    by (intro allow_all_ok) simp
  ultimately show ?thesis by (auto simp: limiter_ok_def)
qed

theorem limiter_stays_bounded_witness:
  "\<exists>l. new_limiter 2 60 1 = Inr l \<and> length (entries (snd (allow_all [([97], 0), ([98], 1), ([97], 2)] l))) \<le> 1"
proof -
  obtain l where l: "new_limiter 2 60 1 = Inr l" by (simp add: new_limiter_def)
  from limiter_stays_bounded [OF l, of "[([97], 0), ([98], 1), ([97], 2)]"] l show ?thesis by auto
qed



text \<open>
  \<open>Retry-After\<close> is honest: a refused client is told to wait between one
  second and one window, and its next request after that wait is served.
\<close>

theorem retry_after_is_honest:
  assumes "limiter_ok l" "fresh_starts instant l" "allow key instant l = (d, l')" "\<not> allowed d"
    and "instant + of_int (retry_after d) \<le> instant'"
  shows "1 \<le> retry_after d \<and> retry_after d \<le> window_seconds l \<and> allowed (fst (allow key instant' l'))"
  by (rule retry_after_honest [OF assms])

theorem retry_after_is_honest_witness:
  "\<exists>d l'. allow [97] 10 \<lparr>requests = 1, window_seconds = 60, max_keys = 5, entries = [([97], 0, 1, 0)]\<rparr> = (d, l') \<and>
    retry_after d = 50 \<and> allowed (fst (allow [97] 60 l'))"
proof -
  let ?l = "\<lparr>requests = 1, window_seconds = 60, max_keys = 5, entries = [([97], 0, 1, 0)]\<rparr>"
  obtain d l' where a: "allow [97] 10 ?l = (d, l')" by force
  then have d: "\<not> allowed d" "retry_after d = 50" by (auto simp: allow_def)
  have "limiter_ok ?l" "fresh_starts 10 ?l" by (simp_all add: limiter_ok_def fresh_starts_def)
  from retry_after_is_honest [OF this a d(1), of 60] a d(2) show ?thesis by simp
qed



text \<open>
  C31 (safety). A bearer token resolves to an auditor exactly when it is at least 22
  characters long and its SHA-256 is the digest registered for that auditor; the registry
  loaded from the auditors file has one auditor per identifier and per digest, each with a
  well-formed key.
\<close>

theorem token_resolution:
  assumes "from_file private file = Inr tokens" "utf8_encode token = Inr raw"
  shows "(resolve tokens token = Inr (Some a) \<longleftrightarrow>
      22 \<le> length token \<and> a \<in> snd ` set tokens \<and> token_sha256 a = sha256_hex raw) \<and>
    (\<forall>b \<in> snd ` set tokens. auditor_ok b \<and> (\<forall>c \<in> snd ` set tokens. auditor_id b = auditor_id c \<or> token_sha256 b = token_sha256 c \<longrightarrow> b = c))"
proof -
  have t: "tokens_ok tokens" by (rule from_file_ok [OF assms(1)])
  then have inj: "inj_on fst (set tokens)" "inj_on (auditor_id \<circ> snd) (set tokens)"
    and own: "\<And>d a. (d, a) \<in> set tokens \<Longrightarrow> d = token_sha256 a \<and> auditor_ok a"
    by (auto simp: tokens_ok_def distinct_map)
  have "b = c" if "(p, b) \<in> set tokens" "(q, c) \<in> set tokens" "auditor_id b = auditor_id c \<or> token_sha256 b = token_sha256 c" for p q b c
    using that(3) inj_onD [OF inj(1) _ that(1,2)] inj_onD [OF inj(2) _ that(1,2)] own [OF that(1)] own [OF that(2)] by auto
  then show ?thesis using resolve_Inr [OF t assms(2)] own by force
qed

theorem token_resolution_witness:
  "\<exists>tokens. from_file (Inr ()) None = Inr tokens \<and> resolve tokens (replicate 22 97) = Inr None"
proof -
  have f: "from_file (Inr ()) None = Inr []" by (simp add: from_file_def new_tokens_def)
  have "case utf8_encode (replicate 22 97) of Inr _ \<Rightarrow> True | Inl _ \<Rightarrow> False" by code_simp
  then obtain raw where u: "utf8_encode (replicate 22 97) = Inr raw" by (auto split: sum.splits)
  have "resolve [] (replicate 22 97) \<noteq> Inr (Some a)" for a using token_resolution [OF f u, of a] by simp
  then show ?thesis using f u by (auto simp: resolve_def)
qed


section \<open>The service\<close>




lemma history_at_boundary:
  assumes "store_ok s es" "int (length es) \<le> MAX_SAFE_INTEGER"
    and "\<exists>is. (\<forall>op \<in> set is. operation_ok op) \<and> length es + sum_list (map operation_weight is) < 2 ^ 63 \<and>
      s' = fold run_operation is s"
  shows "at_boundary (created_of (st_db s)) es s'"
proof -
  obtain "is" where h: "\<forall>op \<in> set is. operation_ok op" "length es + sum_list (map operation_weight is) < 2 ^ 63"
    "s' = fold run_operation is s" using assms(3) by blast
  from store_writer.run_extends [OF assms(1) h(1,2)] show ?thesis
    using assms(2) h(3) by (auto simp: at_boundary_def store_ok_def created_of_def)
qed

text \<open>
  C34 (termination). A client that reads the log page by page and follows \<open>next_cursor\<close> gets
  the whole log above \<open>since\<close> as it was at its first request, each entry once and in
  order, however much is committed meanwhile, in at most one page per entry and one more,
  provided each cursor is used within its hour. Every page is a successful answer.
\<close>

theorem log_is_readable_to_the_end:
  assumes "log_request_ok sv a" "store_ok s es" "int (length es) \<le> MAX_SAFE_INTEGER" "st 0 = s"
    and "\<And>i. \<exists>is. (\<forall>op \<in> set is. operation_ok op) \<and> length es + sum_list (map operation_weight is) < 2 ^ 63 \<and>
      st i = fold run_operation is s"
    and "\<And>i. clock_ok (clk i)" "\<And>i. clk (Suc i) \<le> clk i + CURSOR_TTL_SECONDS"
  shows "follow_log sv a clk st (Suc (length es)) 0 [] =
    Some (Inr (map encode_entry (view_between es (g_since a) (length es))))"
proof (rule follow_log_all [where st = st and clk = clk, OF assms(1) _ assms(3) _ assms(6,7)])
  show "store_ok (st 0) es" using assms(2,4) by simp
  show "at_boundary (created_of (st_db (st 0))) es (st i)" for i
    using history_at_boundary [OF assms(2,3,5)] assms(4) by simp
qed

theorem log_is_readable_to_the_end_witness:
  "follow_log sample_service sample_args_log (\<lambda>_. 0) (\<lambda>_. sample_upstream) 2 0 [] =
    Some (Inr (map encode_entry (view_between [(sample_signed, sample_utc)] 0 1)))"
proof -
  have "clock_ok 0" "0 \<le> 0 + CURSOR_TTL_SECONDS"
    by (simp_all add: clock_ok_def CURSOR_TTL_SECONDS_def MAX_SAFE_INTEGER_def)
  moreover have "\<exists>is. (\<forall>op \<in> set is. operation_ok op) \<and>
      length [(sample_signed, sample_utc)] + sum_list (map operation_weight is) < 2 ^ 63 \<and> sample_upstream = fold run_operation is sample_upstream"
    by (intro exI [of _ "[]"]) simp
  ultimately show ?thesis
    using log_is_readable_to_the_end [OF sample_log_request sample_upstream_ok(1), of "\<lambda>_. sample_upstream" "\<lambda>_. 0"]
    by (simp add: MAX_SAFE_INTEGER_def numeral_2_eq_2 sample_args_log_def)
qed

text \<open>
  C10 (liveness). A client that asks \<open>GET /v1/records\<close> an admissible question and follows
  \<open>next_cursor\<close> gets every record of the query as it was at its first request (the latest
  row of every matching group, see C12), each once and in the order of the query, however much is committed
  meanwhile, in at most one page per log entry and one more, provided each cursor is used within its hour.
\<close>

theorem records_are_readable_to_the_end:
  assumes "records_request_ok sv a" "store_ok s es" "int (length es) \<le> MAX_SAFE_INTEGER" "st 0 = s"
    and "\<And>i. \<exists>is. (\<forall>op \<in> set is. operation_ok op) \<and> length es + sum_list (map operation_weight is) < 2 ^ 63 \<and>
      st i = fold run_operation is s"
    and "\<And>i. clock_ok (clk i)" "\<And>i. clk (Suc i) \<le> clk i + CURSOR_TTL_SECONDS"
  shows "\<exists>selected rows records. check_records_args a = Inr selected \<and>
    record_rows (q_source_identity a) (q_commit a) (q_content_sha256 a) (case selected of Some v \<Rightarrow> v | None \<Rightarrow> 1)
      (int (length es)) (st_db s) = Inr rows \<and>
    mapE (\<lambda>row. json_loads (l_record_json row)) rows = Inr records \<and>
    follow_records sv a clk st (Suc (length es)) 0 [] = Some (Inr records)"
proof -
  have t: "tables_ok (st_db s) (es @ [])" using assms(2) by (simp add: store_ok_def db_ok_def)
  have "mapE (\<lambda>row. json_loads (l_record_json row)) (matching_rows a es) = Inr (records_view a es)"
    unfolding records_view_def by (rule mapE_map) (rule record_rows_at(2) [OF t])
  moreover have "follow_records sv a clk st (Suc (length es)) 0 [] = Some (Inr (records_view a es))"
  proof (rule follow_records_all [where st = st and clk = clk, OF assms(1) _ assms(3) _ assms(6,7)])
    show "store_ok (st 0) es" using assms(2,4) by simp
    show "at_boundary (created_of (st_db (st 0))) es (st i)" for i
      using history_at_boundary [OF assms(2,3,5)] assms(4) by simp
  qed
  ultimately show ?thesis using records_args_ok(6) [OF assms(1)] record_rows_at(1) [OF t, of a] by blast
qed

theorem records_are_readable_to_the_end_witness:
  "\<exists>records. follow_records sample_service sample_args_records (\<lambda>_. 0) (\<lambda>_. sample_upstream) 2 0 [] = Some (Inr records)"
proof -
  have "clock_ok 0" "0 \<le> 0 + CURSOR_TTL_SECONDS"
    by (simp_all add: clock_ok_def CURSOR_TTL_SECONDS_def MAX_SAFE_INTEGER_def)
  moreover have "\<exists>is. (\<forall>op \<in> set is. operation_ok op) \<and>
      length [(sample_signed, sample_utc)] + sum_list (map operation_weight is) < 2 ^ 63 \<and> sample_upstream = fold run_operation is sample_upstream"
    by (intro exI [of _ "[]"]) simp
  ultimately show ?thesis
    using records_are_readable_to_the_end [OF sample_records_request sample_upstream_ok(1), of "\<lambda>_. sample_upstream" "\<lambda>_. 0"]
    by (auto simp: MAX_SAFE_INTEGER_def numeral_2_eq_2)
qed

text \<open>
  C35 (safety). A cursor is bound to its query and to the log: on an intact registry a cursor
  is accepted only if an accepted key signed it, it has not expired, and it carries a signed
  boundary that the log still has at that size. A cursor accepted for two queries shows
  them to have the same digest, so it cannot move to another endpoint or filter.
\<close>

theorem cursor_is_bound:
  assumes "store_ok s es" "cursor_state E ks endpoint query now cursor s = Inr (offset, b, snap)"
  shows "(\<exists>n \<le> length es. b = boundary_spec (created_of (st_db s)) es n) \<and> 0 \<le> offset \<and>
    (\<exists>k \<in> set ks. verify_signed E k snap) \<and>
    (\<exists>payload signature decoded expires. unurl64 (takeWhile (\<lambda>c. c \<noteq> 46) cursor) = Inr payload \<and>
      (\<exists>k \<in> set ks. verify E k payload (b64encode signature)) \<and> load_json payload = Inr (JObj decoded) \<and>
      map_of decoded (lit ''expires_at'') = Some (JInt expires) \<and> now \<le> expires) \<and>
    (\<forall>endpoint' query' now' x. cursor_state E ks endpoint' query' now' cursor s = Inr x \<longrightarrow>
      query_digest endpoint' query' = query_digest endpoint query)"
proof -
  have d: "decode_cursor E ks endpoint query now cursor s = Inr (offset, b, snap)"
    using assms(2) by (simp add: cursor_state_def split: sum.splits)
  obtain payload signature decoded digest expires where
    p: "unurl64 (takeWhile (\<lambda>c. c \<noteq> 46) cursor) = Inr payload" "\<exists>k \<in> set ks. verify E k payload (b64encode signature)"
      "load_json payload = Inr (JObj decoded)" "query_digest endpoint query = Inr digest"
      "map_of decoded (lit ''query'') = Some (JStr digest)" "\<exists>k \<in> set ks. verify_signed E k snap"
      "boundary_available b s = Inr True" "0 \<le> offset"
      "map_of decoded (lit ''expires_at'') = Some (JInt expires)" "now \<le> expires"
    by (rule decode_cursorD [OF d])
  have "query_digest endpoint' query' = query_digest endpoint query"
    if "cursor_state E ks endpoint' query' now' cursor s = Inr x" for endpoint' query' now' x
  proof -
    obtain o' b' s' where x: "x = (o', b', s')" by (cases x)
    have "decode_cursor E ks endpoint' query' now' cursor s = Inr (o', b', s')"
      using that by (simp add: cursor_state_def x split: sum.splits)
    then show ?thesis by (rule decode_cursorD) (use p in simp)
  qed
  moreover have "\<exists>n \<le> length es. b = boundary_spec (created_of (st_db s)) es n"
    using boundary_available_spec [OF assms(1) p(7)] .
  ultimately show ?thesis using p by blast
qed

theorem cursor_is_bound_witness:
  "\<exists>cursor offset b snap. cursor_state sample_keys (accepted_signing_keys sample_service) ''log'' (log_query sample_args_log) 0 cursor
      sample_store = Inr (offset, b, snap) \<and> 0 \<le> offset \<and> b = boundary_spec (created_of (st_db sample_store)) [] 0"
proof -
  obtain cursor snap b where c: "cursor_state sample_keys (accepted_signing_keys sample_service) ''log'' (log_query sample_args_log) 0
      cursor sample_store = Inr (0, b, snap)" using sample_cursor by blast
  from cursor_is_bound [OF sample_store_ok(2) c] c show ?thesis by auto
qed


section \<open>Federation\<close>






text \<open>
  C26 (error). Chained federation is flagged: when the upstream had itself imported a record from a
  third registry, the importer records a ledger fingerprint over the upstream's signature
  while an integrity walk computes it over the older import endorsement. Unless SHA-256
  collides on these two different messages, the walk over the importer's tables, intact
  before, reports the new entry as inconsistent.
\<close>

theorem chained_import_breaks_integrity:
  assumes "record_accepted E pinned schema r" "dict_ok (JObj r)" "countersign_import E key r = Inr (f, out)"
    and "import_signature (prior_endorsements r) = JStr g" "g \<noteq> []" "own_signature r \<noteq> JStr g"
    and "db_ok d es" "length es + 1 < 2 ^ 63" "timestamp t" "import_records t [(f, out)] 0 None d = Inr ((1, latest), d')"
  shows "integrity_errors_on [''ok''] d = Inr ([], walked_of es) \<and>
    (\<exists>p q. fingerprint_payload r (own_signature r) = Inr p \<and> fingerprint_payload r (JStr g) = Inr q \<and> p \<noteq> q \<and>
      (sha256_hex p = sha256_hex q \<or>
       (\<exists>errors walked. integrity_errors_on [''ok''] d' = Inr (errors, walked) \<and>
         Issue ''import fingerprint is inconsistent'' (Some (int (length es) + 1)) \<in> set errors)))"
  using chained_import_flagged [OF assms] integrity_errors_ok [OF assms(7)] by blast

theorem chained_import_breaks_integrity_witness:
  "\<exists>r f out latest d' p q. countersign_import sample_keys 7 r = Inr (f, out) \<and>
    import_records sample_utc [(f, out)] 0 None (st_db sample_store) = Inr ((1, latest), d') \<and>
    fingerprint_payload r (own_signature r) = Inr p \<and> p \<noteq> q \<and>
    (sha256_hex p = sha256_hex q \<or> (\<exists>errors walked. integrity_errors_on [''ok''] d' = Inr (errors, walked) \<and> errors \<noteq> []))"
proof -
  obtain r f out g latest d' where r: "record_accepted sample_keys (public_pinned sample_keys 5) 2 r" "dict_ok (JObj r)"
    "countersign_import sample_keys 7 r = Inr (f, out)" "import_signature (prior_endorsements r) = JStr g" "g \<noteq> []"
    "own_signature r \<noteq> JStr g" "import_records sample_utc [(f, out)] 0 None (st_db sample_store) = Inr ((1, latest), d')"
    using sample_chained by blast
  have d: "db_ok (st_db sample_store) []" using sample_store_ok(2) by (simp add: store_ok_def)
  have "length ([] :: entry list) + 1 < 2 ^ 63" by simp
  from chained_import_breaks_integrity [OF r(1-6) d this sample_utc_ok r(7)] obtain p q where
    "fingerprint_payload r (own_signature r) = Inr p" "p \<noteq> q"
    "sha256_hex p = sha256_hex q \<or> (\<exists>errors walked. integrity_errors_on [''ok''] d' = Inr (errors, walked) \<and>
      Issue ''import fingerprint is inconsistent'' (Some (int (length ([] :: entry list)) + 1)) \<in> set errors)" by blast
  then show ?thesis using r(3,7) by (metis empty_iff empty_set)
qed


section \<open>Keys and startup\<close>

text \<open>
  C38 (invariant). Rotation never loses a key that verifiers need: from an empty home, after any
  sequence of initialisations, prepared, activated and cancelled rotations and retirements,
  each completed, failed or interrupted between its file writes, the active key loads and the
  published list holds it and every key that has signed since the last initialisation and was
  not retired.
\<close>

theorem rotation_keeps_published_keys:
  assumes "ed25519_ok E" "pem_ok L" "passphrase \<noteq> Some []"
    and "(key_step E (file_provider L passphrase))\<^sup>*\<^sup>* ({}, empty_home) (signers, h)"
  shows "(signers, h) = ({}, empty_home) \<or>
    (\<exists>k vs. p_load (file_provider L passphrase) (f_active h) = Inr k \<and>
      public_keys E (file_provider L passphrase) None h = Inr vs \<and> distinct vs \<and>
      insert (public_pinned E k) signers \<subseteq> set vs)"
  using rotation.run_preserves [OF assms(4)] file_provider_sound [OF assms(1-3)] trust_ok_published [OF assms(1)] by blast

theorem rotation_keeps_published_keys_witness:
  "\<exists>h vs. h \<in> set (fst (initialize_key sample_keys (file_provider sample_pem None) False 7 empty_home)) \<and>
    public_keys sample_keys (file_provider sample_pem None) None h = Inr vs \<and> public_pinned sample_keys 7 \<in> set vs"
proof -
  let ?P = "file_provider sample_pem None"
  obtain h where h: "h \<in> set (fst (initialize_key sample_keys ?P False 7 empty_home))" using sample_initialized by blast
  then have "(key_step sample_keys ?P)\<^sup>*\<^sup>* ({}, empty_home) ({public_pinned sample_keys 7}, h)"
    by (blast intro: key_step.Initialize)
  from rotation_keeps_published_keys [OF sample_keys_ok sample_pem_ok _ this] h show ?thesis by auto
qed

text \<open>
  C39 (error). A refused startup checkpoint takes the service out of operation without touching
  the log: whatever passes and writes are attempted afterwards, the tables stay as they
  were, health answers 503 with the diagnostic, one of the three, and every submission fails
  and changes nothing.
\<close>

theorem refused_checkpoint_stops_service:
  assumes "enforce_startup_checkpoint E ks now configured s = (Inr (Refused diagnostic), s1)" "\<not> integrity_failed s"
    and "(pass_step pragma)\<^sup>*\<^sup>* (s1, p) (s2, p')"
  shows "diagnostic \<in> REFUSAL_DIAGNOSTICS \<and> st_db s2 = st_db s \<and>
    get_health later s2 = Inl (APIError 503 diagnostic None) \<and>
    (\<exists>f l'. submit sv rq t (l, s2) = (Inl f, (l', s2)))"
proof -
  have r: "diagnostic \<in> REFUSAL_DIAGNOSTICS" "s1 = refused_state now diagnostic s"
    using refused_checkpoint [OF assms(1,2)] by blast+
  note f = refused_state_fields [OF assms(2), of now diagnostic, folded r(2)]
  have s2: "s2 = s1" using latched_forever [OF assms(3)] f by simp
  have "get_health later s2 = Inl (APIError 503 diagnostic None)" using refused_health [of s2 later] f r(1) s2 by simp
  moreover have "\<exists>f l'. submit sv rq t (l, s2) = (Inl f, (l', s2))" using submit_latched [of s2] f s2 by blast
  ultimately show ?thesis using r(1) f s2 by simp
qed

theorem refused_checkpoint_stops_service_witness:
  "\<exists>raw s1. enforce_startup_checkpoint sample_keys [] 0 (Some (Inr raw)) sample_store =
      (Inr (Refused ''checkpoint_signature_invalid''), s1) \<and>
    get_health 5 s1 = Inl (APIError 503 ''checkpoint_signature_invalid'' None)"
proof -
  obtain raw s1 where e: "enforce_startup_checkpoint sample_keys [] 0 (Some (Inr raw)) sample_store =
      (Inr (Refused ''checkpoint_signature_invalid''), s1)" using sample_refused by blast
  from refused_checkpoint_stops_service [OF e sample_store_ok(4) rtranclp.rtrancl_refl, of 5] e
  show ?thesis by blast
qed

text \<open>
  C40 (safety). A snapshot the registry has served is a checkpoint it accepts for ever: written to
  disk in canonical form and configured at a later start, with the signing key still among the
  accepted keys, it passes and leaves the store as it is, whatever was committed in between.
\<close>

theorem served_snapshot_is_valid_checkpoint:
  assumes "ed25519_ok (sv_ed25519 sv)" "store_ok s es" "int (length es) \<le> MAX_SAFE_INTEGER" "get_snapshot sv s = Inr snap"
    and "\<forall>op \<in> set is. operation_ok op" "length es + sum_list (map operation_weight is) < 2 ^ 63"
    and "public_pinned (sv_ed25519 sv) (sv_signing_key sv) \<in> set ks" "canonical_document (JObj snap) = Inr raw"
  shows "enforce_startup_checkpoint (sv_ed25519 sv) ks now (Some (Inr raw)) (fold run_operation is s) =
    (Inr Passed, fold run_operation is s)"
proof -
  obtain new where "store_ok (fold run_operation is s) (es @ new)"
    "db_metadata (st_db (fold run_operation is s)) = db_metadata (st_db s)"
    using store_writer.run_extends [OF assms(2,5,6)] by blast
  with served_snapshot_passes [OF assms(1-4) _ _ assms(7,8)] show ?thesis by (simp add: created_of_def)
qed

theorem served_snapshot_is_valid_checkpoint_witness:
  "\<exists>snap raw. get_snapshot sample_service sample_store = Inr snap \<and> canonical_document (JObj snap) = Inr raw \<and>
    enforce_startup_checkpoint sample_keys [public_pinned sample_keys 7] 0 (Some (Inr raw))
      (fold run_operation [OpAppend 0 sample_record sample_utc] sample_store) =
    (Inr Passed, fold run_operation [OpAppend 0 sample_record sample_utc] sample_store)"
proof -
  obtain snap raw where s: "get_snapshot sample_service sample_store = Inr snap" "canonical_document (JObj snap) = Inr raw"
    using sample_served by blast
  have sv: "sv_ed25519 sample_service = sample_keys" "sv_signing_key sample_service = 7" by (simp_all add: sample_service_def)
  have "enforce_startup_checkpoint (sv_ed25519 sample_service) [public_pinned sample_keys 7] 0 (Some (Inr raw))
      (fold run_operation [OpAppend 0 sample_record sample_utc] sample_store) =
    (Inr Passed, fold run_operation [OpAppend 0 sample_record sample_utc] sample_store)"
    by (rule served_snapshot_is_valid_checkpoint [OF _ sample_store_ok(2) _ s(1) _ _ _ s(2)])
      (simp_all add: sv sample_keys_ok MAX_SAFE_INTEGER_def sample_value_ok)
  with s sv show ?thesis by auto
qed


section \<open>Administration\<close>

text \<open>
  C5 (liveness). The service starts from every home the key operations can leave: after any
  sequence of them, interrupted anywhere, an intact or missing database, an auditors file that
  loads and valid settings give a running service. Its store is ready for writes and holds
  the log, and among the keys it verifies with are its own and every signer not retired.
\<close>

theorem service_starts_from_any_home:
  assumes "ed25519_ok E" "pem_ok L" "passphrase \<noteq> Some []"
    and "(key_step E (file_provider L passphrase))\<^sup>*\<^sup>* ({}, empty_home) (signers, w_home w)" "f_active (w_home w) \<noteq> None"
    and "db_ok (database_of utc (w_db w)) es" "read_auditors private (w_auditors w) = Inr tokens"
    and "settings_ok env" "en_checkpoint env = None"
  shows "\<exists>app s. app_from_env E (file_provider L passphrase) env private [''ok''] now utc w = Inr (app, s, NotConfigured) \<and>
    store_ok s es \<and> require_writes_allowed now s = Inr () \<and> sv_tokens (r_service app) = tokens \<and> 0 < r_slots app \<and>
    insert (public_pinned E (sv_signing_key (r_service app))) signers \<subseteq> set (sv_verification_keys (r_service app))"
proof -
  have "trust_ok E (file_provider L passphrase) (signers, w_home w)"
    using rotation.run_preserves [OF assms(4)] file_provider_sound [OF assms(1-3)] assms(5) by (auto simp: empty_home_def)
  from service_starts [OF assms(1) this assms(5-9), of now] show ?thesis by metis
qed

theorem service_starts_from_any_home_witness:
  "\<exists>h app s. h \<in> set (fst (initialize_key sample_keys (file_provider sample_pem None) False 7 empty_home)) \<and>
    app_from_env sample_keys (file_provider sample_pem None) default_environment (Inr ()) [''ok''] 0 sample_utc
      \<lparr>w_home = h, w_db = None, w_auditors = None\<rparr> = Inr (app, s, NotConfigured) \<and>
    public_pinned sample_keys 7 \<in> set (sv_verification_keys (r_service app))"
proof -
  let ?P = "file_provider sample_pem None"
  obtain h where h: "h \<in> set (fst (initialize_key sample_keys ?P False 7 empty_home))" using sample_initialized by blast
  let ?w = "\<lparr>w_home = h, w_db = None, w_auditors = None\<rparr>"
  have r: "(key_step sample_keys ?P)\<^sup>*\<^sup>* ({}, empty_home) ({public_pinned sample_keys 7}, w_home ?w)"
    using h by (auto intro: key_step.Initialize)
  have a: "f_active (w_home ?w) \<noteq> None"
    using h by (auto simp: initialize_key_def write_public_keys_def bindE_def Let_def split: sum.splits if_splits)
  have d: "db_ok (database_of sample_utc (w_db ?w)) []" by (simp add: database_of_def new_db_ok sample_utc_ok)
  have t: "read_auditors (Inr ()) (w_auditors ?w) = Inr []" by (simp add: read_auditors_def new_tokens_def)
  have e: "settings_ok default_environment" "en_checkpoint default_environment = None"
    by (simp_all add: settings_ok_def default_environment_def)
  from service_starts_from_any_home [OF sample_keys_ok sample_pem_ok _ r a d t e, of 0] h show ?thesis by auto
qed



text \<open>
  C25 (round trip). A backup verifies and a rollback does not: \<open>backup\<close> copies the database and
  signs a checkpoint of it without changing the home, and with the pinned key
  \<open>verify-backup\<close> accepts exactly those intact candidates whose log reaches the checkpoint and
  has its head, Merkle root and time at that length; so every later state of the log passes
  and every shorter one is refused.
\<close>

theorem backup_detects_rollback:
  assumes "ed25519_ok E" "p_load P (f_active (w_home w)) = Inr k" "w_db w = Some d" "db_ok d es" "int (length es) \<le> MAX_SAFE_INTEGER"
  shows "\<exists>snap. cmd_backup E P False [''ok''] now utc w = (Inr (0, Some (d, Inr (JObj snap))), w) \<and>
    (\<forall>d' es' now' utc' w'. db_ok d' es' \<longrightarrow>
      (let code = cmd_verify_backup E P (Some (public_pinned E k)) [''ok''] now' utc' (Some d') (Inr (JObj snap)) w' in
       (code = Inr 0 \<longleftrightarrow> length es \<le> length es' \<and>
          boundary_spec (created_of d') es' (length es) = boundary_spec (created_of d) es (length es)) \<and>
       (code = Inr 0 \<or> code = Inr 2) \<and>
       ((\<exists>new. es' = es @ new) \<and> created_of d' = created_of d \<longrightarrow> code = Inr 0)))"
proof -
  obtain snap where "cmd_backup E P False [''ok''] now utc w = (Inr (0, Some (d, Inr (JObj snap))), w)"
    and v: "\<And>now' utc' d' es' w'. db_ok d' es' \<Longrightarrow>
      cmd_verify_backup E P (Some (public_pinned E k)) [''ok''] now' utc' (Some d') (Inr (JObj snap)) w' =
      Inr (if length es \<le> length es' \<and> boundary_spec (created_of d') es' (length es) = boundary_spec (created_of d) es (length es)
           then 0 else 2)"
    by (rule backup_then_verify [OF assms, of now utc]) blast
  then show ?thesis by (intro exI [of _ snap]) (auto simp: v Let_def boundary_spec_append)
qed

theorem backup_detects_rollback_witness:
  "\<exists>snap. cmd_verify_backup sample_keys (file_provider sample_pem None) (Some (public_pinned sample_keys 7)) [''ok''] 0 sample_utc
     (Some (st_db (sample_committed sample_utc))) (Inr (JObj snap)) sample_world = Inr 0"
proof -
  have "int (length [(sample_record, sample_utc)]) \<le> MAX_SAFE_INTEGER" by (simp add: MAX_SAFE_INTEGER_def)
  from backup_detects_rollback [OF sample_keys_ok sample_world_key sample_world_db this, of 0 sample_utc] show ?thesis
    using sample_world_db(2) unfolding Let_def by blast
qed





end
